(* ===== verification/Prelude.thy ===== *)
theory Prelude
  imports Main "HOL-Library.Word"
begin

text \<open>
  Shared vocabulary of the development: the fixed-width integer types of the
  C++ sources, bytes and their relation to characters, the little-endian
  layout of an integer in memory, and generic facts on lists and folds that
  several components use.  The collections \<open>wire\<close> (facts that evaluate or
  decompose encoded bytes), \<open>srv\<close> (frame facts of the server's operations)
  and \<open>mesh\<close> (frame facts of the peer mesh) are filled by the components.
\<close>

unbundle bit_operations_syntax

named_theorems wire "rewriting of encoded bytes"
named_theorems srv "frame rules of the server operations"
named_theorems mesh "frame rules of the peer mesh operations"

section \<open>Integers and bytes\<close>

type_synonym byte = "8 word"
type_synonym u8 = "8 word"
type_synonym u16 = "16 word"
type_synonym u32 = "32 word"
type_synonym u64 = "64 word"
type_synonym bytes = "byte list"

text \<open>A \<open>char\<close> of a \<open>std::string\<close> and a \<open>std::byte\<close> are the same eight bits.\<close>

definition byte_of_char :: "char \<Rightarrow> byte" where
  "byte_of_char c = of_nat (of_char c)"

definition char_of_byte :: "byte \<Rightarrow> char" where
  "char_of_byte b = char_of (unat b)"

lemma byte_less_256 [simp]: "unat (b :: byte) < 256"
  using unsigned_less [of b] by simp

lemma char_less_256 [simp]: "(of_char c :: nat) < 256"
  by (cases c) (auto simp: of_char_def split: if_splits)

lemma char_of_byte_of_char [simp]: "char_of_byte (byte_of_char c) = c"
  by (simp add: char_of_byte_def byte_of_char_def unat_of_nat)

lemma byte_of_char_of_byte [simp]: "byte_of_char (char_of_byte b) = b"
  by (simp add: char_of_byte_def byte_of_char_def of_char_of)

lemma map_char_byte_id [simp]: "map (char_of_byte \<circ> byte_of_char) s = s"
  by (rule map_idI) simp

section \<open>Little-endian layout\<close>

text \<open>
  \<open>le_put n k\<close> is the \<open>n\<close>-byte object representation of the unsigned integer
  \<open>k\<close> on a little-endian machine; \<open>le_get\<close> reads such a representation back.
\<close>

fun le_put :: "nat \<Rightarrow> nat \<Rightarrow> bytes" where
  "le_put 0 k = []"
| "le_put (Suc n) k = of_nat (k mod 256) # le_put n (k div 256)"

fun le_get :: "bytes \<Rightarrow> nat" where
  "le_get [] = 0"
| "le_get (b # bs) = unat b + 256 * le_get bs"

lemma length_le_put [simp]: "length (le_put n k) = n"
  by (induction n arbitrary: k) auto

lemma le_put_numeral:
  "le_put (numeral n) k = of_nat (k mod 256) # le_put (pred_numeral n) (k div 256)"
  by (subst numeral_eq_Suc) (rule le_put.simps(2))

lemma le_get_put: "k < 256 ^ n \<Longrightarrow> le_get (le_put n k) = k"
proof (induction n arbitrary: k)
  case 0
  then show ?case by simp
next
  case (Suc n)
  from Suc.prems have "k div 256 < 256 ^ n"
    by (simp add: less_mult_imp_div_less)
  with Suc.IH have "le_get (le_put n (k div 256)) = k div 256" .
  then show ?case by (simp add: unat_of_nat)
qed

lemma le_get_less: "le_get bs < 256 ^ length bs"
proof (induction bs)
  case Nil
  then show ?case by simp
next
  case (Cons b bs)
  have "unat b < 256" by (rule byte_less_256)
  moreover from Cons.IH have "256 * le_get bs + 256 \<le> 256 * 256 ^ length bs"
    by (metis Suc_leI mult_Suc_right mult_le_mono2 add.commute)
  ultimately have "unat b + 256 * le_get bs < 256 * 256 ^ length bs" by linarith
  then show ?case by simp
qed

lemma le_put_get: "le_put (length bs) (le_get bs) = bs"
  by (induction bs) auto

section \<open>Lists and folds\<close>

lemma foldl_fixpoint:
  assumes "\<And>x. x \<in> set xs \<Longrightarrow> f a x = a"
  shows "foldl f a xs = a"
  using assms by (induction xs) auto

lemma filter_neq_idem [simp]: "x \<notin> set xs \<Longrightarrow> filter (\<lambda>y. y \<noteq> x) xs = xs"
  by (rule filter_True) auto

lemma take_drop_append_eq:
  "length a = n \<Longrightarrow> take n (a @ b) = a \<and> drop n (a @ b) = b"
  by simp

end
