(* ===== verification/Stdmap.thy ===== *)
theory Stdmap
  imports Prelude "HOL-Library.List_Lexorder" "HOL-Library.Char_ord"
begin

text \<open>
  The part of \<open>std::map\<close> the sources use, as strictly sorted association
  lists: iteration order is key order, so a list of pairs is the container's
  contents as \<open>begin()\<close> to \<open>end()\<close> walks them.  \<open>std::string\<close> keys compare
  bytewise, which is the lexicographic order of character codes.

  The interface the clients of a map rely on is the locale \<open>keyed_store\<close>;
  its interpretation \<open>sm\<close> on the sorted lists is used for room data, member
  data and the client's caches.
\<close>

type_synonym ('k, 'v) stdmap = "('k \<times> 'v) list"

definition sm_find :: "('k, 'v) stdmap \<Rightarrow> 'k \<Rightarrow> 'v option" where
  "sm_find m k = map_of m k"

definition sm_put :: "'k::linorder \<Rightarrow> 'v \<Rightarrow> ('k, 'v) stdmap \<Rightarrow> ('k, 'v) stdmap" where
  "sm_put k v m = filter (\<lambda>p. fst p < k) m @ (k, v) # filter (\<lambda>p. k < fst p) m"

definition sm_erase :: "'k \<Rightarrow> ('k, 'v) stdmap \<Rightarrow> ('k, 'v) stdmap" where
  "sm_erase k m = filter (\<lambda>p. fst p \<noteq> k) m"

definition sm_size :: "('k, 'v) stdmap \<Rightarrow> nat" where
  "sm_size m = length m"

definition sm_wf :: "('k::linorder, 'v) stdmap \<Rightarrow> bool" where
  "sm_wf m \<longleftrightarrow> sorted_wrt (<) (map fst m)"

section \<open>The interface of a keyed store\<close>

locale keyed_store =
  fixes find :: "'m \<Rightarrow> 'k \<Rightarrow> 'v option"
    and put :: "'k \<Rightarrow> 'v \<Rightarrow> 'm \<Rightarrow> 'm"
    and erase :: "'k \<Rightarrow> 'm \<Rightarrow> 'm"
    and size :: "'m \<Rightarrow> nat"
    and wf :: "'m \<Rightarrow> bool"
  assumes find_put: "wf m \<Longrightarrow> find (put k v m) = (find m)(k \<mapsto> v)"
    and find_erase: "find (erase k m) = (find m)(k := None)"
    and wf_put: "wf m \<Longrightarrow> wf (put k v m)"
    and wf_erase: "wf m \<Longrightarrow> wf (erase k m)"
    and finite_find: "finite (dom (find m))"
    and size_find: "wf m \<Longrightarrow> size m = card (dom (find m))"
    and find_inject: "wf m \<Longrightarrow> wf m' \<Longrightarrow> find m = find m' \<Longrightarrow> m = m'"
begin

lemma size_put:
  "wf m \<Longrightarrow> size (put k v m) = (if find m k = None then Suc (size m) else size m)"
  by (auto simp: size_find wf_put find_put finite_find domIff insert_absorb)

lemma size_erase:
  "wf m \<Longrightarrow> size (erase k m) = (if find m k = None then size m else size m - 1)"
  by (auto simp: size_find wf_erase find_erase finite_find domIff)

lemma put_found: "wf m \<Longrightarrow> find m k = Some v \<Longrightarrow> put k v m = m"
  by (rule find_inject) (auto simp: find_put wf_put)

lemma erase_absent: "wf m \<Longrightarrow> find m k = None \<Longrightarrow> erase k m = m"
  by (rule find_inject) (auto simp: find_erase wf_erase)

lemma put_put: "wf m \<Longrightarrow> put k v (put k v' m) = put k v m"
  by (rule find_inject) (auto simp: find_put wf_put)

lemma erase_put: "wf m \<Longrightarrow> find m k = None \<Longrightarrow> erase k (put k v m) = m"
  by (rule find_inject) (auto simp: find_put find_erase wf_put wf_erase)

lemma put_commute:
  "wf m \<Longrightarrow> k \<noteq> k' \<Longrightarrow> put k v (put k' v' m) = put k' v' (put k v m)"
  by (rule find_inject) (auto simp: find_put wf_put)

end

section \<open>Sorted lists provide it\<close>

lemma sm_wf_distinct: "sm_wf m \<Longrightarrow> distinct (map fst m)"
  by (simp add: sm_wf_def strict_sorted_iff)

lemma map_of_filter_fst:
  "map_of (filter (\<lambda>p. P (fst p)) m) k = (if P k then map_of m k else None)"
  by (induction m) auto

lemma sm_wf_Cons: "sm_wf (p # m) \<longleftrightarrow> (\<forall>q \<in> set m. fst p < fst q) \<and> sm_wf m"
  by (auto simp: sm_wf_def)

lemma sm_wf_filter: "sm_wf m \<Longrightarrow> sm_wf (filter P m)"
  by (induction m) (auto simp: sm_wf_Cons)

lemma sm_wf_append:
  "sm_wf (a @ b) \<longleftrightarrow> sm_wf a \<and> sm_wf b \<and> (\<forall>p \<in> set a. \<forall>q \<in> set b. fst p < fst q)"
  by (auto simp: sm_wf_def sorted_wrt_append)

lemma sm_wf_eqI:
  assumes "sm_wf m" and "sm_wf m'" and "map_of m = map_of m'"
  shows "m = m'"
proof -
  have keys: "set (map fst m) = set (map fst m')"
    using arg_cong [OF assms(3), of dom] by (simp add: dom_map_of_conv_image_fst)
  have sorted: "sorted (map fst m)" "distinct (map fst m)"
    "sorted (map fst m')" "distinct (map fst m')"
    using assms(1,2) by (simp_all add: sm_wf_def strict_sorted_iff)
  have fsts: "map fst m = map fst m'"
    by (rule sorted_distinct_set_unique) (use sorted keys in auto)
  then show ?thesis
  proof (rule pair_list_eqI)
    show "map snd m = map snd m'"
    proof (rule nth_equalityI)
      show len: "length (map snd m) = length (map snd m')"
        using arg_cong [OF fsts, of length] by simp
      fix i
      assume "i < length (map snd m)"
      then have i: "i < length m" "i < length m'" using len by simp_all
      have k: "fst (m ! i) = fst (m' ! i)"
        using arg_cong [OF fsts, of "\<lambda>l. l ! i"] i by simp
      have "map_of m (fst (m ! i)) = Some (snd (m ! i))"
        using sorted(2) i by (intro map_of_is_SomeI) auto
      moreover have "map_of m' (fst (m' ! i)) = Some (snd (m' ! i))"
        using sorted(4) i by (intro map_of_is_SomeI) auto
      ultimately show "map snd m ! i = map snd m' ! i"
        using assms(3) k i by simp
    qed
  qed
qed

interpretation sm: keyed_store sm_find sm_put sm_erase sm_size sm_wf
proof
  fix m m' :: "('a::linorder, 'b) stdmap" and k :: 'a and v :: 'b
  show "sm_find (sm_erase k m) = (sm_find m)(k := None)"
    using map_of_filter_fst [of "\<lambda>k'. k' \<noteq> k" m]
    by (auto simp: sm_find_def sm_erase_def fun_eq_iff)
  show "finite (dom (sm_find m))"
    by (simp add: sm_find_def [abs_def] finite_dom_map_of)
  assume wf: "sm_wf m"
  show "sm_find (sm_put k v m) = (sm_find m)(k \<mapsto> v)"
    using map_of_filter_fst [of "\<lambda>k'. k' < k" m] map_of_filter_fst [of "\<lambda>k'. k < k'" m]
    by (auto simp: sm_find_def sm_put_def fun_eq_iff map_add_def split: option.splits)
  show "sm_wf (sm_put k v m)"
    using wf by (auto simp: sm_put_def sm_wf_append sm_wf_Cons sm_wf_filter)
  show "sm_wf (sm_erase k m)"
    using wf by (simp add: sm_erase_def sm_wf_filter)
  have "sm_size m = card (set (map fst m))"
    using distinct_card [OF sm_wf_distinct [OF wf]] by (simp add: sm_size_def)
  then show "sm_size m = card (dom (sm_find m))"
    by (simp add: sm_find_def [abs_def] dom_map_of_conv_image_fst)
  assume "sm_wf m'" and "sm_find m = sm_find m'"
  with wf show "m = m'"
    by (intro sm_wf_eqI) (auto simp: sm_find_def fun_eq_iff)
qed

lemma sm_wf_Nil [simp]: "sm_wf []"
  by (simp add: sm_wf_def)

lemma sm_find_Nil [simp]: "sm_find [] k = None"
  by (simp add: sm_find_def)

lemma sm_find_in: "sm_find m k = Some v \<Longrightarrow> (k, v) \<in> set m"
  by (simp add: sm_find_def map_of_SomeD)

lemma sm_find_iff: "sm_wf m \<Longrightarrow> sm_find m k = Some v \<longleftrightarrow> (k, v) \<in> set m"
  using sm_wf_distinct [of m] by (auto simp: sm_find_def)

lemma sm_find_None: "sm_find m k = None \<longleftrightarrow> k \<notin> fst ` set m"
  by (simp add: sm_find_def map_of_eq_None_iff)

lemma sm_set_put: "set (sm_put k v m) = insert (k, v) {p \<in> set m. fst p \<noteq> k}"
  by (auto simp: sm_put_def)

lemma sm_set_erase: "set (sm_erase k m) = {p \<in> set m. fst p \<noteq> k}"
  by (auto simp: sm_erase_def)

lemma sm_put_append_max:
  "(\<forall>p \<in> set m. fst p < k) \<Longrightarrow> sm_put k v m = m @ [(k, v)]"
  by (auto simp: sm_put_def filter_id_conv filter_empty_conv dest: less_asym)

text \<open>Replaying a map's own entries in iteration order rebuilds the map.\<close>

lemma sm_rebuild:
  assumes "sm_wf (a @ b)"
  shows "foldl (\<lambda>m p. sm_put (fst p) (snd p) m) a b = a @ b"
  using assms
proof (induction b arbitrary: a)
  case Nil
  then show ?case by simp
next
  case (Cons p b)
  have "sm_put (fst p) (snd p) a = a @ [p]"
    using Cons.prems by (intro trans [OF sm_put_append_max]) (auto simp: sm_wf_append)
  then show ?case using Cons.IH [of "a @ [p]"] Cons.prems by simp
qed

end
