(* ===== verification/Protocol.thy ===== *)
theory Protocol
  imports Stdmap
begin

text \<open>
  The message vocabulary of \<open>Shared/protocol.h\<close>: the structs that travel
  over the server connection, the variant that tags them, and the limits both
  ends share.  A C++ scoped enum with a fixed underlying type holds every value
  of that type, named or not, so the two enums are wrappers around a byte with
  abbreviations for the named enumerators.
\<close>

section \<open>Enumerations\<close>

datatype RoomErrorCode = RoomErrorCode (error_byte: u8)

abbreviation "AlreadyInRoom \<equiv> RoomErrorCode 0"
abbreviation "NoSuchRoom \<equiv> RoomErrorCode 1"
abbreviation "NotInRoom \<equiv> RoomErrorCode 2"
abbreviation "NotHost \<equiv> RoomErrorCode 3"
abbreviation "BadRoomData \<equiv> RoomErrorCode 4"
abbreviation "NoSuchMember \<equiv> RoomErrorCode 5"
abbreviation "RoomClosed \<equiv> RoomErrorCode 6"
abbreviation "BadPassword \<equiv> RoomErrorCode 7"
abbreviation "Banned \<equiv> RoomErrorCode 8"

datatype P2PSignalKind = P2PSignalKind (kind_byte: u8)

abbreviation "Description \<equiv> P2PSignalKind 0"
abbreviation "Candidate \<equiv> P2PSignalKind 1"
abbreviation "GatheringDone \<equiv> P2PSignalKind 2"

section \<open>Messages\<close>

record TurnServer =
  ts_host :: string
  ts_port :: u16
  ts_username :: string
  ts_password :: string

record IceServers =
  stun_host :: string
  stun_port :: u16
  turn :: "TurnServer list"

text \<open>
  The alternatives stand in the order of the \<open>std::variant\<close>; the fields of each
  in the order of its struct.
\<close>

datatype ServerMessage =
    Heartbeat u64
  | AssignClientId u32
  | AssignRoomId string
  | CreateRoom
  | JoinRoom string string
  | RoomError RoomErrorCode string
  | RoomChat u32 string
  | LeaveRoom
  | PeerJoined u32
  | PeerLeft u32
  | HostChanged u32
  | SetRoomData string string
  | RoomDataChanged string string
  | SetMemberData string string
  | MemberDataChanged u32 string string
  | KickMember u32
  | TransferHost u32
  | SetRoomJoinable bool
  | SetRoomPassword string
  | KickedByHost
  | RoomAccessChanged bool bool
  | BanMember u32
  | BannedByHost
  | P2PSignal u32 P2PSignalKind string
  | IceServersMsg IceServers

type_synonym P2PMessage = bytes

section \<open>Limits\<close>

definition max_p2p_message_size :: nat where [simp]: "max_p2p_message_size = 1024"
definition max_message_size :: nat where [simp]: "max_message_size = 1024"
definition max_room_data_key :: nat where [simp]: "max_room_data_key = 128"
definition max_room_data_value :: nat where [simp]: "max_room_data_value = 512"
definition max_room_data_keys :: nat where [simp]: "max_room_data_keys = 64"
definition max_member_data_keys :: nat where [simp]: "max_member_data_keys = 16"
definition max_room_password :: nat where [simp]: "max_room_password = 64"

end
