(* ===== verification/Zpp_Bits.thy ===== *)
theory Zpp_Bits
  imports Protocol
begin

text \<open>
  The serializer the wire protocol is built on, as instantiated by the sources:
  \<open>zpp::bits::out\<close> and \<open>zpp::bits::in\<close> over \<open>std::vector<std::byte>\<close> with no
  options (little-endian host, four-byte container sizes, one-byte variant
  index, \<open>std::size_t\<close> of 64 bits, no allocation limit).

  Output: \<open>out_ServerMessage\<close> lists the writes the archive performs, in order;
  \<open>basic_out\<close> with \<open>enlarge_for\<close>, \<open>out_write\<close> and \<open>zpp_out\<close> is the growing
  buffer those writes go to.  Input: a reader consumes a prefix of the
  remaining bytes or stops with an error.  A \<open>bool\<close> is copied bytewise without
  validation, and a byte other than 0 and 1 gives a \<open>bool\<close> object whose value is
  indeterminate: the reader reports that as \<open>Undefined_bool\<close>, apart from the
  archive's own error codes.
\<close>

section \<open>Errors\<close>

datatype errc = result_out_of_range | bad_message | no_buffer_space

datatype in_fault = Errc errc | Undefined_bool byte

section \<open>Output: the writes of a message\<close>

definition out_u8 :: "u8 \<Rightarrow> bytes list" where
  "out_u8 b = [[b]]"

definition out_u16 :: "u16 \<Rightarrow> bytes list" where
  "out_u16 w = [le_put 2 (unat w)]"

definition out_u32 :: "u32 \<Rightarrow> bytes list" where
  "out_u32 w = [le_put 4 (unat w)]"

definition out_u64 :: "u64 \<Rightarrow> bytes list" where
  "out_u64 w = [le_put 8 (unat w)]"

definition out_bool :: "bool \<Rightarrow> bytes list" where
  "out_bool b = [[if b then 1 else 0]]"

text \<open>\<open>RoomAccessChanged\<close> is trivially copyable, so its two bytes go out in one write.\<close>

definition out_bool2 :: "bool \<Rightarrow> bool \<Rightarrow> bytes list" where
  "out_bool2 a b = [concat (out_bool a) @ concat (out_bool b)]"

text \<open>A container: its size as \<open>uint32_t\<close> (a narrowing cast), then its contents in one write.\<close>

definition out_string :: "string \<Rightarrow> bytes list" where
  "out_string s = out_u32 (of_nat (length s)) @ (if s = [] then [] else [map byte_of_char s])"

definition out_TurnServer :: "TurnServer \<Rightarrow> bytes list" where
  "out_TurnServer t = out_string (ts_host t) @ out_u16 (ts_port t)
     @ out_string (ts_username t) @ out_string (ts_password t)"

definition out_vector :: "('a \<Rightarrow> bytes list) \<Rightarrow> 'a list \<Rightarrow> bytes list" where
  "out_vector item xs = out_u32 (of_nat (length xs)) @ concat (map item xs)"

definition out_IceServers :: "IceServers \<Rightarrow> bytes list" where
  "out_IceServers i = out_string (stun_host i) @ out_u16 (stun_port i)
     @ out_vector out_TurnServer (turn i)"

fun variant_index :: "ServerMessage \<Rightarrow> nat" where
  "variant_index (Heartbeat _) = 0"
| "variant_index (AssignClientId _) = 1"
| "variant_index (AssignRoomId _) = 2"
| "variant_index CreateRoom = 3"
| "variant_index (JoinRoom _ _) = 4"
| "variant_index (RoomError _ _) = 5"
| "variant_index (RoomChat _ _) = 6"
| "variant_index LeaveRoom = 7"
| "variant_index (PeerJoined _) = 8"
| "variant_index (PeerLeft _) = 9"
| "variant_index (HostChanged _) = 10"
| "variant_index (SetRoomData _ _) = 11"
| "variant_index (RoomDataChanged _ _) = 12"
| "variant_index (SetMemberData _ _) = 13"
| "variant_index (MemberDataChanged _ _ _) = 14"
| "variant_index (KickMember _) = 15"
| "variant_index (TransferHost _) = 16"
| "variant_index (SetRoomJoinable _) = 17"
| "variant_index (SetRoomPassword _) = 18"
| "variant_index KickedByHost = 19"
| "variant_index (RoomAccessChanged _ _) = 20"
| "variant_index (BanMember _) = 21"
| "variant_index BannedByHost = 22"
| "variant_index (P2PSignal _ _ _) = 23"
| "variant_index (IceServersMsg _) = 24"

text \<open>The object behind the index: its members in order; an empty struct writes nothing.\<close>

fun out_alternative :: "ServerMessage \<Rightarrow> bytes list" where
  "out_alternative (Heartbeat t) = out_u64 t"
| "out_alternative (AssignClientId i) = out_u32 i"
| "out_alternative (AssignRoomId r) = out_string r"
| "out_alternative CreateRoom = []"
| "out_alternative (JoinRoom r p) = out_string r @ out_string p"
| "out_alternative (RoomError c x) = out_u8 (error_byte c) @ out_string x"
| "out_alternative (RoomChat f t) = out_u32 f @ out_string t"
| "out_alternative LeaveRoom = []"
| "out_alternative (PeerJoined i) = out_u32 i"
| "out_alternative (PeerLeft i) = out_u32 i"
| "out_alternative (HostChanged i) = out_u32 i"
| "out_alternative (SetRoomData k v) = out_string k @ out_string v"
| "out_alternative (RoomDataChanged k v) = out_string k @ out_string v"
| "out_alternative (SetMemberData k v) = out_string k @ out_string v"
| "out_alternative (MemberDataChanged i k v) = out_u32 i @ out_string k @ out_string v"
| "out_alternative (KickMember i) = out_u32 i"
| "out_alternative (TransferHost i) = out_u32 i"
| "out_alternative (SetRoomJoinable b) = out_bool b"
| "out_alternative (SetRoomPassword p) = out_string p"
| "out_alternative KickedByHost = []"
| "out_alternative (RoomAccessChanged a b) = out_bool2 a b"
| "out_alternative (BanMember i) = out_u32 i"
| "out_alternative BannedByHost = []"
| "out_alternative (P2PSignal i k p) = out_u32 i @ out_u8 (kind_byte k) @ out_string p"
| "out_alternative (IceServersMsg i) = out_IceServers i"

definition out_ServerMessage :: "ServerMessage \<Rightarrow> bytes list" where
  "out_ServerMessage m = out_u8 (of_nat (variant_index m)) @ out_alternative m"

text \<open>The bytes of a message: its writes back to back.\<close>

definition message_bytes :: "ServerMessage \<Rightarrow> bytes" where
  "message_bytes m = concat (out_ServerMessage m)"

section \<open>Output: the growing buffer\<close>

record basic_out =
  m_data :: bytes
  m_position :: nat

abbreviation "size_t_limit \<equiv> (2::nat) ^ 64"

text \<open>
  \<open>enlarge_for\<close> with the default enlarger 3/2: the wrap-around of \<open>std::size_t\<close> is
  written out, and both overflow checks are the code's.
\<close>

definition enlarge_for :: "nat \<Rightarrow> basic_out \<Rightarrow> errc + basic_out" where
  "enlarge_for additional o' =
     (let size = length (m_data o')
      in if additional > size - m_position o'
         then let required = (size + additional) mod size_t_limit
              in if required < size then Inl no_buffer_space
                 else let grown = (required * 3) mod size_t_limit
                      in if grown div 3 \<noteq> required then Inl no_buffer_space
                         else Inr (o'\<lparr>m_data := take (grown div 2) (m_data o')
                                        @ replicate (grown div 2 - size) 0\<rparr>)
         else Inr o')"

definition out_write :: "bytes \<Rightarrow> basic_out \<Rightarrow> errc + basic_out" where
  "out_write bs o' =
     (case enlarge_for (length bs) o' of
        Inl e \<Rightarrow> Inl e
      | Inr o2 \<Rightarrow> Inr (o2\<lparr>m_data := take (m_position o2) (m_data o2) @ bs
                            @ drop (m_position o2 + length bs) (m_data o2),
                          m_position := m_position o2 + length bs\<rparr>))"

fun out_many :: "bytes list \<Rightarrow> basic_out \<Rightarrow> errc + basic_out" where
  "out_many [] o' = Inr o'"
| "out_many (w # ws) o' =
     (case out_write w o' of Inl e \<Rightarrow> Inl e | Inr o2 \<Rightarrow> out_many ws o2)"

text \<open>\<open>out::operator()\<close> on an empty vector: write, then fit the vector to the position.\<close>

definition zpp_out :: "bytes list \<Rightarrow> errc + bytes" where
  "zpp_out ws =
     (case out_many ws \<lparr>m_data = [], m_position = 0\<rparr> of
        Inl e \<Rightarrow> Inl e
      | Inr o' \<Rightarrow> Inr (take (m_position o') (m_data o')))"

section \<open>Input: readers\<close>

type_synonym 'a reader = "bytes \<Rightarrow> in_fault + 'a \<times> bytes"

definition rbind :: "'a reader \<Rightarrow> ('a \<Rightarrow> 'b reader) \<Rightarrow> 'b reader" where
  "rbind r f = (\<lambda>bs. case r bs of Inl e \<Rightarrow> Inl e | Inr (x, rest) \<Rightarrow> f x rest)"

definition rret :: "'a \<Rightarrow> 'a reader" where
  "rret x = (\<lambda>bs. Inr (x, bs))"

definition in_fundamental :: "nat \<Rightarrow> nat reader" where
  "in_fundamental n bs =
     (if n > length bs then Inl (Errc result_out_of_range)
      else Inr (le_get (take n bs), drop n bs))"

definition in_u8 :: "u8 reader" where
  "in_u8 = rbind (in_fundamental 1) (\<lambda>k. rret (of_nat k))"

definition in_u16 :: "u16 reader" where
  "in_u16 = rbind (in_fundamental 2) (\<lambda>k. rret (of_nat k))"

definition in_u32 :: "u32 reader" where
  "in_u32 = rbind (in_fundamental 4) (\<lambda>k. rret (of_nat k))"

definition in_u64 :: "u64 reader" where
  "in_u64 = rbind (in_fundamental 8) (\<lambda>k. rret (of_nat k))"

definition bool_object :: "u8 \<Rightarrow> bool reader" where
  "bool_object b = (if b = 0 then rret False else if b = 1 then rret True
     else (\<lambda>_. Inl (Undefined_bool b)))"

definition in_bool :: "bool reader" where
  "in_bool = rbind in_u8 bool_object"

text \<open>
  \<open>RoomAccessChanged\<close> is copied as one two-byte object: the length check covers
  both bytes before either is looked at.
\<close>

definition in_bool2 :: "(bool \<times> bool) reader" where
  "in_bool2 bs = (if 2 > length bs then Inl (Errc result_out_of_range)
     else rbind in_bool (\<lambda>a. rbind in_bool (\<lambda>b. rret (a, b))) bs)"

definition in_string :: "string reader" where
  "in_string = rbind in_u32 (\<lambda>size bs.
     if size = 0 then Inr ([], bs)
     else if unat size > length bs then Inl (Errc result_out_of_range)
     else Inr (map char_of_byte (take (unat size) bs), drop (unat size) bs))"

fun in_many :: "nat \<Rightarrow> 'a reader \<Rightarrow> 'a list reader" where
  "in_many 0 item = rret []"
| "in_many (Suc n) item = rbind item (\<lambda>x. rbind (in_many n item) (\<lambda>xs. rret (x # xs)))"

definition in_vector :: "'a reader \<Rightarrow> 'a list reader" where
  "in_vector item = rbind in_u32 (\<lambda>size. in_many (unat size) item)"

definition in_TurnServer :: "TurnServer reader" where
  "in_TurnServer = rbind in_string (\<lambda>h. rbind in_u16 (\<lambda>p. rbind in_string (\<lambda>u.
     rbind in_string (\<lambda>w.
       rret \<lparr>ts_host = h, ts_port = p, ts_username = u, ts_password = w\<rparr>))))"

definition in_IceServers :: "IceServers reader" where
  "in_IceServers = rbind in_string (\<lambda>h. rbind in_u16 (\<lambda>p. rbind (in_vector in_TurnServer) (\<lambda>t.
     rret \<lparr>stun_host = h, stun_port = p, turn = t\<rparr>)))"

text \<open>One loader per alternative, in variant order.\<close>

definition loaders :: "ServerMessage reader list" where
  "loaders = [
     rbind in_u64 (\<lambda>t. rret (Heartbeat t)),
     rbind in_u32 (\<lambda>i. rret (AssignClientId i)),
     rbind in_string (\<lambda>r. rret (AssignRoomId r)),
     rret CreateRoom,
     rbind in_string (\<lambda>r. rbind in_string (\<lambda>p. rret (JoinRoom r p))),
     rbind in_u8 (\<lambda>c. rbind in_string (\<lambda>x. rret (RoomError (RoomErrorCode c) x))),
     rbind in_u32 (\<lambda>f. rbind in_string (\<lambda>t. rret (RoomChat f t))),
     rret LeaveRoom,
     rbind in_u32 (\<lambda>i. rret (PeerJoined i)),
     rbind in_u32 (\<lambda>i. rret (PeerLeft i)),
     rbind in_u32 (\<lambda>i. rret (HostChanged i)),
     rbind in_string (\<lambda>k. rbind in_string (\<lambda>v. rret (SetRoomData k v))),
     rbind in_string (\<lambda>k. rbind in_string (\<lambda>v. rret (RoomDataChanged k v))),
     rbind in_string (\<lambda>k. rbind in_string (\<lambda>v. rret (SetMemberData k v))),
     rbind in_u32 (\<lambda>i. rbind in_string (\<lambda>k. rbind in_string (\<lambda>v. rret (MemberDataChanged i k v)))),
     rbind in_u32 (\<lambda>i. rret (KickMember i)),
     rbind in_u32 (\<lambda>i. rret (TransferHost i)),
     rbind in_bool (\<lambda>b. rret (SetRoomJoinable b)),
     rbind in_string (\<lambda>p. rret (SetRoomPassword p)),
     rret KickedByHost,
     rbind in_bool2 (\<lambda>(a, b). rret (RoomAccessChanged a b)),
     rbind in_u32 (\<lambda>i. rret (BanMember i)),
     rret BannedByHost,
     rbind in_u32 (\<lambda>i. rbind in_u8 (\<lambda>k. rbind in_string (\<lambda>p. rret (P2PSignal i (P2PSignalKind k) p)))),
     rbind in_IceServers (\<lambda>i. rret (IceServersMsg i))]"

definition in_alternative :: "u8 \<Rightarrow> ServerMessage reader" where
  "in_alternative vid = (if unat vid < length loaders then loaders ! unat vid
     else (\<lambda>_. Inl (Errc bad_message)))"

definition in_ServerMessage :: "ServerMessage reader" where
  "in_ServerMessage = rbind in_u8 in_alternative"

section \<open>Messages the format can carry\<close>

text \<open>Sizes are four bytes on the wire, so every string and list must be shorter than \<open>2 ^ 32\<close>.\<close>

abbreviation "short xs \<equiv> length xs < (2::nat) ^ 32"

definition wf_TurnServer :: "TurnServer \<Rightarrow> bool" where
  "wf_TurnServer t \<longleftrightarrow> short (ts_host t) \<and> short (ts_username t) \<and> short (ts_password t)"

definition wf_IceServers :: "IceServers \<Rightarrow> bool" where
  "wf_IceServers i \<longleftrightarrow> short (stun_host i) \<and> short (turn i) \<and> list_all wf_TurnServer (turn i)"

fun wf_message :: "ServerMessage \<Rightarrow> bool" where
  "wf_message (AssignRoomId r) = short r"
| "wf_message (JoinRoom r p) = (short r \<and> short p)"
| "wf_message (RoomError c x) = short x"
| "wf_message (RoomChat f t) = short t"
| "wf_message (SetRoomData k v) = (short k \<and> short v)"
| "wf_message (RoomDataChanged k v) = (short k \<and> short v)"
| "wf_message (SetMemberData k v) = (short k \<and> short v)"
| "wf_message (MemberDataChanged i k v) = (short k \<and> short v)"
| "wf_message (SetRoomPassword p) = short p"
| "wf_message (P2PSignal i k p) = short p"
| "wf_message (IceServersMsg i) = wf_IceServers i"
| "wf_message _ = True"

end
