(* ===== verification/Zpp_Roundtrip.thy ===== *)
theory Zpp_Roundtrip
  imports Zpp_Bits
begin

text \<open>
  Correctness of the serializer: reading what was written gives the message
  back and leaves the following bytes alone, encodings are prefix-free, and the
  growing output buffer holds exactly the concatenated writes.  The law every
  field type obeys is the locale \<open>wire_codec\<close>; it is interpreted for each leaf
  type, lifted to vectors, and finally to whole messages.
\<close>

section \<open>The contract of a codec\<close>

locale wire_codec =
  fixes enc :: "'a \<Rightarrow> bytes list"
    and dec :: "'a reader"
    and ok :: "'a \<Rightarrow> bool"
  assumes dec_enc: "ok x \<Longrightarrow> dec (concat (enc x) @ rest) = Inr (x, rest)"
begin

lemma prefix_free:
  assumes "ok x" and "ok y" and "concat (enc x) @ r = concat (enc y) @ s"
  shows "x = y \<and> r = s"
proof -
  have "Inr (x, r) = (Inr (y, s) :: in_fault + 'a \<times> bytes)"
    using dec_enc [OF assms(1), of r] dec_enc [OF assms(2), of s]
    unfolding assms(3) by (rule trans [OF sym])
  then show ?thesis by simp
qed

lemma dec_bind: "ok x \<Longrightarrow> rbind dec f (concat (enc x) @ rest) = f x rest"
  by (simp add: rbind_def dec_enc)

lemma dec_enc_exact: "ok x \<Longrightarrow> dec (concat (enc x)) = Inr (x, [])"
  using dec_enc [of x "[]"] by simp

lemma many_codec:
  "list_all ok xs \<Longrightarrow>
   in_many (length xs) dec (concat (concat (map enc xs)) @ rest) = Inr (xs, rest)"
proof (induction xs)
  case Nil
  then show ?case by (simp add: rret_def)
next
  case (Cons x xs)
  then show ?case by (simp add: rbind_def rret_def dec_enc)
qed

end

section \<open>Leaf types\<close>

lemma in_fundamental_put:
  "k < 256 ^ n \<Longrightarrow> in_fundamental n (le_put n k @ rest) = Inr (k, rest)"
  by (simp add: in_fundamental_def le_get_put)

lemma unat_le_pow: "unat (w :: 'a::len word) < 2 ^ LENGTH('a)"
  by (rule unsigned_less)

interpretation u8: wire_codec out_u8 in_u8 "\<lambda>_. True"
proof
  fix x :: u8 and rest
  have "in_fundamental 1 (x # rest) = Inr (unat x, rest)"
    by (simp add: in_fundamental_def)
  then show "in_u8 (concat (out_u8 x) @ rest) = Inr (x, rest)"
    by (simp add: out_u8_def in_u8_def rbind_def rret_def)
qed

interpretation u16: wire_codec out_u16 in_u16 "\<lambda>_. True"
proof
  fix x :: u16 and rest
  have "unat x < 256 ^ 2" using unat_le_pow [of x] by simp
  then show "in_u16 (concat (out_u16 x) @ rest) = Inr (x, rest)"
    by (simp add: out_u16_def in_u16_def rbind_def rret_def in_fundamental_put)
qed

interpretation u32: wire_codec out_u32 in_u32 "\<lambda>_. True"
proof
  fix x :: u32 and rest
  have "unat x < 256 ^ 4" using unat_le_pow [of x] by simp
  then show "in_u32 (concat (out_u32 x) @ rest) = Inr (x, rest)"
    by (simp add: out_u32_def in_u32_def rbind_def rret_def in_fundamental_put)
qed

interpretation u64: wire_codec out_u64 in_u64 "\<lambda>_. True"
proof
  fix x :: u64 and rest
  have "unat x < 256 ^ 8" using unat_le_pow [of x] by simp
  then show "in_u64 (concat (out_u64 x) @ rest) = Inr (x, rest)"
    by (simp add: out_u64_def in_u64_def rbind_def rret_def in_fundamental_put)
qed

interpretation wbool: wire_codec out_bool in_bool "\<lambda>_. True"
proof
  fix x rest
  show "in_bool (concat (out_bool x) @ rest) = Inr (x, rest)"
    using u8.dec_enc [of "if x then 1 else 0" rest]
    by (simp add: out_bool_def out_u8_def in_bool_def rbind_def bool_object_def rret_def)
qed

lemma unat_of_nat_short: "short xs \<Longrightarrow> unat (of_nat (length xs) :: u32) = length xs"
  by (simp add: unat_of_nat)

lemma of_nat_short_0: "short xs \<Longrightarrow> (of_nat (length xs) :: u32) = 0 \<longleftrightarrow> xs = []"
  using unat_of_nat_short [of xs] by (auto simp: unat_eq_0 [symmetric])

interpretation wstring: wire_codec out_string in_string short
proof
  fix x :: string and rest
  assume "short x"
  then show "in_string (concat (out_string x) @ rest) = Inr (x, rest)"
    using u32.dec_enc [of "of_nat (length x)"]
    by (auto simp: out_string_def in_string_def rbind_def of_nat_short_0 unat_of_nat_short)
qed

section \<open>Aggregates\<close>

text \<open>The read side of every aggregate is a chain of binds, so these rewrites drive all of it.\<close>

lemmas field_reads =
  u8.dec_bind [OF TrueI] u16.dec_bind [OF TrueI] u32.dec_bind [OF TrueI]
  u64.dec_bind [OF TrueI] wbool.dec_bind [OF TrueI] wstring.dec_bind

interpretation wturn: wire_codec out_TurnServer in_TurnServer wf_TurnServer
  by unfold_locales
    (simp add: out_TurnServer_def in_TurnServer_def wf_TurnServer_def field_reads rret_def)

lemma in_vector_turn:
  "short xs \<Longrightarrow> list_all wf_TurnServer xs \<Longrightarrow>
   rbind (in_vector in_TurnServer) f (concat (out_vector out_TurnServer xs) @ rest) = f xs rest"
  by (simp add: in_vector_def out_vector_def rbind_def [of "rbind _ _"] field_reads
      unat_of_nat_short wturn.many_codec)

interpretation wice: wire_codec out_IceServers in_IceServers wf_IceServers
  by unfold_locales
    (simp add: out_IceServers_def in_IceServers_def wf_IceServers_def field_reads
      in_vector_turn rret_def)

lemma concat_out_bool2 [simp]: "concat (out_bool2 a b) = concat (out_bool a) @ concat (out_bool b)"
  by (simp add: out_bool2_def)

lemma in_bool2_put:
  "rbind in_bool2 f (concat (out_bool a) @ concat (out_bool b) @ rest) = f (a, b) rest"
proof -
  have "2 \<le> length (concat (out_bool a) @ concat (out_bool b) @ rest)"
    by (simp add: out_bool_def)
  then show ?thesis
    by (simp add: in_bool2_def rbind_def [of in_bool2] field_reads rret_def)
qed

lemma length_loaders [simp]: "length loaders = 25"
  by (simp add: loaders_def)

lemma variant_index_less: "variant_index m < 25"
  by (cases m) auto

lemma loader_reads:
  "wf_message m \<Longrightarrow>
   (loaders ! variant_index m) (concat (out_alternative m) @ rest) = Inr (m, rest)"
  by (cases m)
    (simp_all add: loaders_def field_reads rret_def in_bool2_put
      wice.dec_bind)

interpretation wmsg: wire_codec out_ServerMessage in_ServerMessage wf_message
proof
  fix m rest
  assume wf: "wf_message m"
  have "unat (of_nat (variant_index m) :: u8) = variant_index m"
    using variant_index_less [of m] by (simp add: unat_of_nat)
  then show "in_ServerMessage (concat (out_ServerMessage m) @ rest) = Inr (m, rest)"
    using variant_index_less [of m]
    by (simp add: in_ServerMessage_def out_ServerMessage_def field_reads in_alternative_def
        loader_reads [OF wf])
qed

section \<open>Sizes on the wire\<close>

lemma length_out_u8 [wire]: "length (concat (out_u8 b)) = 1"
  by (simp add: out_u8_def)

lemma length_out_u16 [wire]: "length (concat (out_u16 w)) = 2"
  by (simp add: out_u16_def)

lemma length_out_u32 [wire]: "length (concat (out_u32 w)) = 4"
  by (simp add: out_u32_def)

lemma length_out_u64 [wire]: "length (concat (out_u64 w)) = 8"
  by (simp add: out_u64_def)

lemma length_out_bool [wire]: "length (concat (out_bool b)) = 1"
  by (simp add: out_bool_def)

lemma length_out_string [wire]: "length (concat (out_string s)) = 4 + length s"
  by (simp add: out_string_def length_out_u32)

lemma length_message_bytes:
  "length (message_bytes m) = 1 + length (concat (out_alternative m))"
  by (simp add: message_bytes_def out_ServerMessage_def out_u8_def)

section \<open>The growing buffer\<close>

text \<open>What the buffer has to say after the bytes \<open>P\<close> have been written.\<close>

definition holds :: "bytes \<Rightarrow> basic_out \<Rightarrow> bool" where
  "holds P o' \<longleftrightarrow> m_position o' = length P \<and> length P \<le> length (m_data o')
     \<and> take (length P) (m_data o') = P"

lemma enlarge_for_holds:
  assumes "holds P o'" and "length P + n < 2 ^ 61"
  shows "\<exists>o2. enlarge_for n o' = Inr o2 \<and> holds P o2 \<and> length P + n \<le> length (m_data o2)"
proof (cases "n > length (m_data o') - length P")
  case True
  let ?size = "length (m_data o')"
  from True assms have small: "?size + n < 2 ^ 62" by (simp add: holds_def)
  then have "(?size + n) mod size_t_limit = ?size + n"
    and "((?size + n) * 3) mod size_t_limit = (?size + n) * 3" by simp_all
  moreover have "?size + n \<le> (?size + n) * 3 div 2" by simp
  ultimately show ?thesis
    using True assms by (auto simp: enlarge_for_def holds_def Let_def)
next
  case False
  then show ?thesis using assms by (auto simp: enlarge_for_def holds_def)
qed

lemma out_write_holds:
  assumes "holds P o'" and "length P + length bs < 2 ^ 61"
  shows "\<exists>o2. out_write bs o' = Inr o2 \<and> holds (P @ bs) o2"
proof -
  obtain o1 where "enlarge_for (length bs) o' = Inr o1" and "holds P o1"
    and "length P + length bs \<le> length (m_data o1)"
    using enlarge_for_holds [OF assms] by blast
  then show ?thesis by (simp add: out_write_def holds_def)
qed

lemma out_many_holds:
  assumes "holds P o'" and "length P + length (concat ws) < 2 ^ 61"
  shows "\<exists>o2. out_many ws o' = Inr o2 \<and> holds (P @ concat ws) o2"
  using assms
proof (induction ws arbitrary: P o')
  case Nil
  then show ?case by simp
next
  case (Cons w ws)
  obtain o1 where o1: "out_write w o' = Inr o1" "holds (P @ w) o1"
    using out_write_holds [OF Cons.prems(1), of w] Cons.prems(2) by auto
  then show ?case using Cons.IH [OF o1(2)] Cons.prems(2) by simp
qed

lemma zpp_out_concat: "length (concat ws) < 2 ^ 61 \<Longrightarrow> zpp_out ws = Inr (concat ws)"
  using out_many_holds [of "[]" "\<lparr>m_data = [], m_position = 0\<rparr>" ws]
  by (auto simp: zpp_out_def holds_def)

section \<open>Where an indeterminate bool can come from\<close>

definition bool_safe :: "'a reader \<Rightarrow> bool" where
  "bool_safe r \<longleftrightarrow> (\<forall>bs b. r bs \<noteq> Inl (Undefined_bool b))"

lemma bool_safe_rret [simp]: "bool_safe (rret x)"
  by (simp add: bool_safe_def rret_def)

lemma bool_safe_rbind: "bool_safe r \<Longrightarrow> (\<And>x. bool_safe (f x)) \<Longrightarrow> bool_safe (rbind r f)"
  by (fastforce simp: bool_safe_def rbind_def split: sum.splits prod.splits)

lemma bool_safe_fundamental [simp]: "bool_safe (in_fundamental n)"
  by (simp add: bool_safe_def in_fundamental_def)

lemma bool_safe_leaves [simp]:
  "bool_safe in_u8" "bool_safe in_u16" "bool_safe in_u32" "bool_safe in_u64"
  by (simp_all add: in_u8_def in_u16_def in_u32_def in_u64_def bool_safe_rbind)

lemma bool_safe_string [simp]: "bool_safe in_string"
  unfolding in_string_def by (rule bool_safe_rbind, simp) (simp add: bool_safe_def)

lemma bool_safe_many: "bool_safe r \<Longrightarrow> bool_safe (in_many n r)"
  by (induction n) (simp_all add: bool_safe_rbind)

lemma bool_safe_ice [simp]: "bool_safe in_IceServers"
  by (simp add: in_IceServers_def in_vector_def in_TurnServer_def bool_safe_rbind bool_safe_many)

lemma bool_safe_loaders: "i < 25 \<Longrightarrow> i \<noteq> 17 \<Longrightarrow> i \<noteq> 20 \<Longrightarrow> bool_safe (loaders ! i)"
  unfolding loaders_def
  by (elim less_numeral_extra less_SucE | simp add: numeral_eq_Suc nth_Cons less_Suc_eq)+
    (auto simp: bool_safe_rbind)

end
