(* ===== verification/Zpp_Canonical.thy ===== *)
theory Zpp_Canonical
  imports Zpp_Roundtrip
begin

text \<open>
  The converse of the round trip: whatever a reader accepts is the encoding of
  what it returns, followed by the bytes it leaves.  The contract extends
  \<open>wire_codec\<close> and is interpreted for the same types, so a received message is
  never larger than the bytes it came in.
\<close>

locale canonical_codec = wire_codec +
  assumes canon: "dec bs = Inr (x, rest) \<Longrightarrow> ok x \<and> bs = concat (enc x) @ rest"
begin

lemma dec_iff: "dec bs = Inr (x, rest) \<longleftrightarrow> ok x \<and> bs = concat (enc x) @ rest"
  using canon dec_enc by blast

lemma dec_length: "dec bs = Inr (x, rest) \<Longrightarrow> length bs = length (concat (enc x)) + length rest"
  by (drule canon) simp

lemma many_canon:
  "in_many n dec bs = Inr (xs, rest) \<Longrightarrow>
   length xs = n \<and> list_all ok xs \<and> bs = concat (concat (map enc xs)) @ rest"
proof (induction n arbitrary: bs xs)
  case 0
  then show ?case by (simp add: rret_def)
next
  case (Suc n)
  then obtain x bs1 ys where "dec bs = Inr (x, bs1)" "in_many n dec bs1 = Inr (ys, rest)" "xs = x # ys"
    by (auto simp: rbind_def rret_def split: sum.splits)
  then show ?case using canon Suc.IH by fastforce
qed

end

lemma rbind_Inr:
  "rbind r f bs = Inr y \<longleftrightarrow> (\<exists>x rest. r bs = Inr (x, rest) \<and> f x rest = Inr y)"
  by (auto simp: rbind_def split: sum.splits)

lemma rret_Inr: "rret x bs = Inr (y, rest) \<longleftrightarrow> x = y \<and> bs = rest"
  by (auto simp: rret_def)

lemma in_fundamental_canon:
  "in_fundamental n bs = Inr (k, rest) \<Longrightarrow> k < 256 ^ n \<and> bs = le_put n k @ rest"
  using le_get_less [of "take n bs"] le_put_get [of "take n bs"]
  by (auto simp: in_fundamental_def min_def split: if_splits)

interpretation u8c: canonical_codec out_u8 in_u8 "\<lambda>_. True"
  by unfold_locales
    (auto simp: in_u8_def out_u8_def rbind_Inr rret_Inr dest!: in_fundamental_canon)

lemma unat_of_nat_pow: "k < 2 ^ LENGTH('a::len) \<Longrightarrow> unat (of_nat k :: 'a word) = k"
  by (simp add: unat_of_nat)

interpretation u16c: canonical_codec out_u16 in_u16 "\<lambda>_. True"
  by unfold_locales
    (auto simp: in_u16_def out_u16_def rbind_Inr rret_Inr unat_of_nat_pow dest!: in_fundamental_canon)

interpretation u32c: canonical_codec out_u32 in_u32 "\<lambda>_. True"
  by unfold_locales
    (auto simp: in_u32_def out_u32_def rbind_Inr rret_Inr unat_of_nat_pow dest!: in_fundamental_canon)

interpretation u64c: canonical_codec out_u64 in_u64 "\<lambda>_. True"
  by unfold_locales
    (auto simp: in_u64_def out_u64_def rbind_Inr rret_Inr unat_of_nat_pow dest!: in_fundamental_canon)

interpretation wboolc: canonical_codec out_bool in_bool "\<lambda>_. True"
  by unfold_locales
    (auto simp: in_bool_def bool_object_def out_bool_def out_u8_def rbind_Inr rret_Inr
      split: if_splits dest!: u8c.canon)

lemma string_bytes_id: "map byte_of_char (map char_of_byte bs) = bs"
  by (simp add: map_idI)

interpretation wstringc: canonical_codec out_string in_string short
proof
  fix bs x rest
  assume "in_string bs = Inr (x, rest)"
  then obtain size bs1 where size: "in_u32 bs = Inr (size, bs1)"
    and x: "(if size = 0 then Inr ([], bs1)
      else if unat size > length bs1 then Inl (Errc result_out_of_range)
      else Inr (map char_of_byte (take (unat size) bs1), drop (unat size) bs1)) = Inr (x, rest)"
    by (auto simp: in_string_def rbind_Inr)
  have "length x = unat size \<and> map byte_of_char x @ rest = bs1"
    using x string_bytes_id [of "take (unat size) bs1"] by (auto split: if_splits)
  moreover have "unat size < 2 ^ 32" using unsigned_less [of size] by simp
  ultimately show "short x \<and> bs = concat (out_string x) @ rest"
    using u32c.canon [OF size] by (auto simp: out_string_def)
qed

lemmas reader_inversion = rbind_Inr rret_Inr u8c.dec_iff u16c.dec_iff u32c.dec_iff u64c.dec_iff
  wboolc.dec_iff wstringc.dec_iff

interpretation wturnc: canonical_codec out_TurnServer in_TurnServer wf_TurnServer
  by unfold_locales
    (auto simp: in_TurnServer_def out_TurnServer_def wf_TurnServer_def reader_inversion)

lemma in_vector_turn_canon:
  assumes "in_vector in_TurnServer bs = Inr (xs, rest)"
  shows "short xs \<and> list_all wf_TurnServer xs \<and> bs = concat (out_vector out_TurnServer xs) @ rest"
proof -
  obtain size bs1 where "in_u32 bs = Inr (size, bs1)"
    and "in_many (unat size) in_TurnServer bs1 = Inr (xs, rest)"
    using assms by (auto simp: in_vector_def rbind_Inr)
  moreover have "unat size < 2 ^ 32" using unsigned_less [of size] by simp
  ultimately show ?thesis
    using wturnc.many_canon [of "unat size" bs1 xs rest] u32c.canon [of bs size bs1]
    by (auto simp: out_vector_def)
qed

interpretation wicec: canonical_codec out_IceServers in_IceServers wf_IceServers
  by unfold_locales
    (auto simp: in_IceServers_def out_IceServers_def wf_IceServers_def reader_inversion
      dest!: in_vector_turn_canon)

lemma in_bool2_Inr:
  "in_bool2 bs = Inr ((a, b), rest) \<Longrightarrow> bs = concat (out_bool a) @ concat (out_bool b) @ rest"
  by (auto simp: in_bool2_def reader_inversion split: if_splits)

text \<open>Each loader yields its own alternative, with the fields it read.\<close>

definition loader_canon :: "nat \<Rightarrow> ServerMessage reader \<Rightarrow> bool" where
  "loader_canon i r \<longleftrightarrow> (\<forall>bs m rest. r bs = Inr (m, rest) \<longrightarrow>
     wf_message m \<and> variant_index m = i \<and> bs = concat (out_alternative m) @ rest)"

lemma loaders_canon: "i < 25 \<Longrightarrow> loader_canon i (loaders ! i)"
proof -
  have "list_all (\<lambda>i. loader_canon i (loaders ! i)) [0..<25]"
    unfolding loaders_def loader_canon_def
    by (simp add: upt_rec nth_Cons numeral_eq_Suc)
      (auto simp: reader_inversion wicec.dec_iff case_prod_unfold dest!: in_bool2_Inr)
  then show "i < 25 \<Longrightarrow> loader_canon i (loaders ! i)"
    by (simp add: list_all_iff)
qed

interpretation wmsgc: canonical_codec out_ServerMessage in_ServerMessage wf_message
proof
  fix bs m rest
  assume "in_ServerMessage bs = Inr (m, rest)"
  then obtain vid bs1 where vid: "bs = concat (out_u8 vid) @ bs1"
    and alt: "in_alternative vid bs1 = Inr (m, rest)"
    by (auto simp: in_ServerMessage_def reader_inversion)
  from alt have "unat vid < 25" "(loaders ! unat vid) bs1 = Inr (m, rest)"
    by (auto simp: in_alternative_def split: if_splits)
  then have "wf_message m \<and> variant_index m = unat vid \<and> bs1 = concat (out_alternative m) @ rest"
    using loaders_canon [of "unat vid"] by (simp add: loader_canon_def)
  then show "wf_message m \<and> bs = concat (out_ServerMessage m) @ rest"
    by (simp add: vid out_ServerMessage_def)
qed

lemma in_ServerMessage_iff:
  "in_ServerMessage bs = Inr (m, rest) \<longleftrightarrow> wf_message m \<and> bs = message_bytes m @ rest"
  by (simp add: wmsgc.dec_iff message_bytes_def)

end
