(* ===== verification/Framing.thy ===== *)
theory Framing
  imports Zpp_Canonical
begin

text \<open>
  \<open>Shared/framing.h\<close>: a message is cut into fragments of at most
  \<open>max_message_size\<close> bytes, each behind a four-byte header whose top bit says
  that more fragments follow.  \<open>unframe\<close> is the reference reassembly: the loop
  both peers run, stated over a complete byte stream.
\<close>

definition frame_header_size :: nat where [simp]: "frame_header_size = 4"
definition frame_more_flag :: u32 where "frame_more_flag = 0x80000000"
definition max_reassembled_size :: nat where [simp]: "max_reassembled_size = 16 * max_message_size"

definition frame_header :: "nat \<Rightarrow> bool \<Rightarrow> bytes" where
  "frame_header chunk more' =
     concat (out_u32 (of_nat chunk OR (if more' then frame_more_flag else 0)))"

text \<open>The do-while loop of \<open>FrameMessage\<close> from a given offset on.\<close>

function frame_loop :: "bytes \<Rightarrow> nat \<Rightarrow> bytes" where
  "frame_loop body offset =
     (let chunk = min max_message_size (length body - offset);
          more' = offset + chunk < length body;
          frame = frame_header chunk more' @ take chunk (drop offset body)
      in if offset + chunk < length body then frame @ frame_loop body (offset + chunk) else frame)"
  by pat_completeness auto
termination
  by (relation "measure (\<lambda>(body, offset). length body - offset)") auto

declare frame_loop.simps [simp del]

definition FrameMessage :: "ServerMessage \<Rightarrow> bytes" where
  "FrameMessage msg = frame_loop (message_bytes msg) 0"

definition DecodeFrameHeader :: "bytes \<Rightarrow> (nat \<times> bool) option" where
  "DecodeFrameHeader header =
     (case in_u32 header of
        Inl _ \<Rightarrow> None
      | Inr (raw, _) \<Rightarrow>
          let more' = (raw AND frame_more_flag \<noteq> 0);
              len = unat (raw AND NOT frame_more_flag)
          in if len \<le> max_message_size then Some (len, more') else None)"

definition AppendFragment :: "bytes \<Rightarrow> bytes \<Rightarrow> bytes option" where
  "AppendFragment body payload =
     (if length body + length payload > max_reassembled_size then None
      else Some (body @ payload))"

section \<open>Reference reassembly\<close>

function unframe :: "bytes \<Rightarrow> bytes \<Rightarrow> (bytes \<times> bytes) option" where
  "unframe body stream =
     (if length stream < frame_header_size then None
      else case DecodeFrameHeader (take frame_header_size stream) of
        None \<Rightarrow> None
      | Some (len, more') \<Rightarrow>
          if length stream < frame_header_size + len then None
          else case AppendFragment body (take len (drop frame_header_size stream)) of
            None \<Rightarrow> None
          | Some body' \<Rightarrow>
              if more' then unframe body' (drop (frame_header_size + len) stream)
              else Some (body', drop (frame_header_size + len) stream))"
  by pat_completeness auto
termination
  by (relation "measure (\<lambda>(body, stream). length stream)") auto

declare unframe.simps [simp del]

section \<open>Header arithmetic\<close>

lemma and_flag_small:
  assumes "unat (x :: u32) < 2 ^ 31"
  shows "x AND frame_more_flag = 0" and "x AND NOT frame_more_flag = x"
proof -
  have x: "take_bit 31 x = x"
    using assms by (simp add: word_unat_eq_iff unsigned_take_bit_eq take_bit_nat_eq_self)
  have "frame_more_flag = 2 ^ 31"
    by (simp add: frame_more_flag_def)
  then have flag: "bit frame_more_flag n \<Longrightarrow> n = 31" for n
    by (metis bit_exp_iff)
  have bx: "bit x n \<Longrightarrow> n < 31" for n
    by (metis bit_take_bit_iff x)
  show "x AND frame_more_flag = 0"
    by (rule bit_word_eqI) (auto simp: bit_simps dest: bx flag)
  show "x AND NOT frame_more_flag = x"
    by (rule bit_word_eqI) (auto simp: bit_simps dest: bx flag)
qed

lemma length_frame_header [simp]: "length (frame_header chunk more') = 4"
  by (simp add: frame_header_def out_u32_def)

lemma DecodeFrameHeader_frame_header:
  assumes "chunk \<le> max_message_size"
  shows "DecodeFrameHeader (frame_header chunk more') = Some (chunk, more')"
proof -
  let ?x = "of_nat chunk :: u32"
  have x: "unat ?x = chunk" using assms by (simp add: unat_of_nat)
  with assms have small: "unat ?x < 2 ^ 31" by simp
  have flag: "frame_more_flag \<noteq> 0" "frame_more_flag AND NOT frame_more_flag = 0"
    by (simp_all add: frame_more_flag_def)
  show ?thesis
    using u32.dec_enc_exact [OF TrueI, of "?x OR (if more' then frame_more_flag else 0)"] assms
    by (cases more') (simp_all add: DecodeFrameHeader_def frame_header_def Let_def bit.conj_disj_distrib2
        and_flag_small [OF small] x flag)
qed

lemma DecodeFrameHeader_bound: "DecodeFrameHeader h = Some (len, more') \<Longrightarrow> len \<le> max_message_size"
  by (auto simp: DecodeFrameHeader_def Let_def split: sum.splits if_splits)

section \<open>Reassembly inverts framing\<close>

lemma AppendFragment_bound:
  "AppendFragment body payload = Some body' \<Longrightarrow> length body' \<le> max_reassembled_size"
  by (auto simp: AppendFragment_def split: if_splits)

text \<open>One frame at the front of a stream.\<close>

lemma unframe_frame:
  assumes "length payload \<le> max_message_size"
    and "length body + length payload \<le> max_reassembled_size"
  shows "unframe body (frame_header (length payload) more' @ payload @ rest) =
     (if more' then unframe (body @ payload) rest else Some (body @ payload, rest))"
  using assms
  by (subst unframe.simps) (simp add: DecodeFrameHeader_frame_header AppendFragment_def)

lemma unframe_frame_loop:
  assumes "offset \<le> length body" and "length body \<le> max_reassembled_size"
  shows "unframe (take offset body) (frame_loop body offset @ rest) = Some (body, rest)"
  using assms
proof (induction body offset rule: frame_loop.induct)
  case (1 body offset)
  define chunk where "chunk = min max_message_size (length body - offset)"
  define payload where "payload = take chunk (drop offset body)"
  have len: "length payload = chunk" by (simp add: payload_def chunk_def)
  have fits: "length payload \<le> max_message_size" by (simp add: len chunk_def)
  have total: "length (take offset body) + length payload \<le> max_reassembled_size"
    using "1.prems" by (simp add: len chunk_def)
  have next_body: "take offset body @ payload = take (offset + chunk) body"
    by (simp add: payload_def take_add)
  show ?case
  proof (cases "offset + chunk < length body")
    case True
    then have "frame_loop body offset =
        frame_header (length payload) True @ payload @ frame_loop body (offset + chunk)"
      unfolding len unfolding payload_def chunk_def
      by (subst frame_loop.simps) (simp only: Let_def if_True append_assoc)
    then show ?thesis
      using "1.IH" [OF chunk_def refl refl True] True "1.prems"
        unframe_frame [OF fits total, of True] next_body
      by (simp add: len)
  next
    case False
    then have "frame_loop body offset = frame_header (length payload) False @ payload"
      unfolding len unfolding payload_def chunk_def
      by (subst frame_loop.simps) (simp only: Let_def if_False append_assoc)
    then show ?thesis
      using unframe_frame [OF fits total, of False] False next_body by (simp add: len)
  qed
qed

text \<open>Messages both ends accept: encodable, and within the reassembly cap.\<close>

definition fits :: "ServerMessage \<Rightarrow> bool" where
  "fits m \<longleftrightarrow> wf_message m \<and> length (message_bytes m) \<le> max_reassembled_size"

lemma unframe_FrameMessage:
  "fits m \<Longrightarrow> unframe [] (FrameMessage m @ rest) = Some (message_bytes m, rest)"
  using unframe_frame_loop [of 0 "message_bytes m" rest] by (simp add: FrameMessage_def fits_def)

lemma message_bytes_decode: "wf_message m \<Longrightarrow> in_ServerMessage (message_bytes m) = Inr (m, [])"
  by (simp add: message_bytes_def wmsg.dec_enc_exact)

section \<open>One frame\<close>

text \<open>What the front of a stream amounts to, given the fragments reassembled so far.\<close>

datatype frame_step = Need_more | Bad_frame | Fault in_fault | Fragment bytes bytes
  | Message ServerMessage bytes

definition next_frame :: "bytes \<Rightarrow> bytes \<Rightarrow> frame_step" where
  "next_frame body a =
     (if length a < frame_header_size then Need_more
      else case DecodeFrameHeader (take frame_header_size a) of
        None \<Rightarrow> Bad_frame
      | Some (len, more') \<Rightarrow>
          if length a < frame_header_size + len then Need_more
          else case AppendFragment body (take len (drop frame_header_size a)) of
            None \<Rightarrow> Bad_frame
          | Some x \<Rightarrow>
              if more' then Fragment x (drop (frame_header_size + len) a)
              else case in_ServerMessage x of
                     Inl f \<Rightarrow> Fault f
                   | Inr (m, _) \<Rightarrow> Message m (drop (frame_header_size + len) a))"

fun frame_extend :: "frame_step \<Rightarrow> bytes \<Rightarrow> frame_step" where
  "frame_extend (Fragment x rest) y = Fragment x (rest @ y)"
| "frame_extend (Message m rest) y = Message m (rest @ y)"
| "frame_extend st y = st"

lemma next_frame_append:
  "next_frame body a \<noteq> Need_more \<Longrightarrow> next_frame body (a @ y) = frame_extend (next_frame body a) y"
proof (cases "length a < frame_header_size")
  case header: False
  assume go: "next_frame body a \<noteq> Need_more"
  show ?thesis
  proof (cases "DecodeFrameHeader (take frame_header_size a)")
    case None
    then show ?thesis using header by (simp add: next_frame_def)
  next
    case (Some h)
    obtain len more' where h: "h = (len, more')" by fastforce
    have all: "\<not> length a < frame_header_size + len" using go header Some h by (auto simp: next_frame_def)
    then have "take len (drop frame_header_size (a @ y)) = take len (drop frame_header_size a)"
      and "drop (frame_header_size + len) (a @ y) = drop (frame_header_size + len) a @ y"
      and "take frame_header_size (a @ y) = take frame_header_size a"
      using header by simp_all
    then show ?thesis
      using header Some h all
      by (simp add: next_frame_def del: take_append drop_append split: option.split sum.split)
  qed
qed (simp add: next_frame_def)

lemma next_frame_shorter:
  "next_frame body a = Fragment x rest \<Longrightarrow> length rest < length a"
  "next_frame body a = Message m rest \<Longrightarrow> length rest < length a"
  by (auto simp: next_frame_def split: option.splits sum.splits if_splits)

lemma next_frame_bounds:
  "next_frame body a = Fragment x rest \<Longrightarrow> length x \<le> max_reassembled_size"
  "next_frame body a = Message m rest \<Longrightarrow> fits m"
proof -
  show "next_frame body a = Fragment x rest \<Longrightarrow> length x \<le> max_reassembled_size"
    by (auto simp: next_frame_def simp del: max_reassembled_size_def
        split: if_splits option.splits sum.splits dest!: AppendFragment_bound)
  assume "next_frame body a = Message m rest"
  then obtain pay x extra where "AppendFragment body pay = Some x" "in_ServerMessage x = Inr (m, extra)"
    by (auto simp: next_frame_def split: if_splits option.splits sum.splits)
  then show "fits m"
    using AppendFragment_bound [of body pay x] by (auto simp: fits_def in_ServerMessage_iff)
qed

lemma next_frame_unframe:
  "unframe body a = Some (b, rest) \<Longrightarrow>
   (\<exists>x r. next_frame body a = Fragment x r \<and> unframe x r = Some (b, rest))
   \<or> (case in_ServerMessage b of Inl f \<Rightarrow> next_frame body a = Fault f
       | Inr (m, _) \<Rightarrow> next_frame body a = Message m rest)"
  by (subst (asm) unframe.simps)
    (auto simp: next_frame_def split: if_splits option.splits sum.splits)

text \<open>A framed message read from its front: fragments first, the message at the end.\<close>

inductive frames_to :: "bytes \<Rightarrow> bytes \<Rightarrow> ServerMessage \<Rightarrow> bytes \<Rightarrow> bool" where
  frames_last: "next_frame body a = Message m rest \<Longrightarrow> frames_to body a m rest"
| frames_more: "next_frame body a = Fragment x r \<Longrightarrow> frames_to x r m rest \<Longrightarrow> frames_to body a m rest"

lemma unframe_frames_to:
  "unframe body a = Some (b, rest) \<Longrightarrow> in_ServerMessage b = Inr (m, extra) \<Longrightarrow> frames_to body a m rest"
proof (induction a arbitrary: body rule: measure_induct_rule [of length])
  case (less a)
  then show ?case
    using next_frame_unframe [OF less.prems(1)] less.prems(2)
    by (auto intro: frames_last frames_more dest: next_frame_shorter)
qed

lemma FrameMessage_frames_to: "fits m \<Longrightarrow> frames_to [] (FrameMessage m @ rest) m rest"
  by (rule unframe_frames_to [OF unframe_FrameMessage message_bytes_decode]) (simp_all add: fits_def)

end
