(* ===== verification/Server.thy ===== *)
theory Server
  imports Framing
begin

text \<open>
  The state of \<open>Weyvelength::Server\<close> and its message handlers
  (\<open>Server/include/weyvelength_server.h\<close>, \<open>Server/src/weyvelength_server.cpp\<close>).

  Connections are shared objects: \<open>srv_conns\<close> is the store the \<open>shared_ptr\<close>s
  point into, a pointer being the number of the accept that made the object, and
  \<open>srv_connections\<close> is the id-to-pointer table.  A handler gets the pointer of
  the connection it serves, sends by id through the table, and returns the new
  server.  Rooms live in a table by room code; a \<open>Room&\<close> is the table's entry.
  The socket of a connection is its unread input and the frames already
  written; \<open>conn_body\<close> is the read loop's reassembly buffer, \<open>conn_flight\<close> the
  frame the write loop is writing, \<open>conn_writing\<close> says that this loop still runs and
  \<open>conn_waiting\<close> that it is suspended on the \<open>wake\<close> timer, whose deadline never comes: only \<open>cancel\<close> resumes it.
  Logging keeps no state and does not appear.  The random engine of
  \<open>MakeRoomCode\<close> is the sequence \<open>srv_rng\<close> of its future outputs.
\<close>

section \<open>State\<close>

record ServerConfig =
  cfg_port :: u16
  cfg_room_code_length :: u32
  cfg_ice :: IceServers

record Connection =
  conn_id :: u32
  conn_room :: string
  conn_in :: bytes
  conn_body :: bytes
  conn_sent :: "bytes list"
  conn_out :: "bytes list"
  conn_flight :: "bytes option"
  conn_closing :: bool
  conn_writing :: bool
  conn_waiting :: bool

record Room =
  room_id :: string
  room_host :: u32
  room_members :: "u32 list"
  room_data :: "(string, string) stdmap"
  room_member_data :: "(u32, (string, string) stdmap) stdmap"
  room_open :: bool
  room_password :: string
  room_banned_members :: "u32 list"

record Server =
  srv_conns :: "nat \<Rightarrow> Connection"
  srv_alloc :: nat
  srv_live :: "nat set"
  srv_connections :: "u32 \<rightharpoonup> nat"
  srv_rooms :: "string \<rightharpoonup> Room"
  srv_next_id :: u32
  srv_rng :: "nat \<Rightarrow> nat"
  srv_config :: ServerConfig

definition new_connection :: "u32 \<Rightarrow> Connection" where
  "new_connection i = \<lparr>conn_id = i, conn_room = [], conn_in = [], conn_body = [],
     conn_sent = [], conn_out = [], conn_flight = None, conn_closing = False, conn_writing = True,
     conn_waiting = False\<rparr>"

definition new_room :: "string \<Rightarrow> u32 \<Rightarrow> Room" where
  "new_room code i = \<lparr>room_id = code, room_host = i, room_members = [i], room_data = [],
     room_member_data = [], room_open = True, room_password = [], room_banned_members = []\<rparr>"

definition set_conn :: "nat \<Rightarrow> Connection \<Rightarrow> Server \<Rightarrow> Server" where
  "set_conn p c s = s\<lparr>srv_conns := (srv_conns s)(p := c)\<rparr>"

definition set_conn_room :: "nat \<Rightarrow> string \<Rightarrow> Server \<Rightarrow> Server" where
  "set_conn_room p r s = set_conn p ((srv_conns s p)\<lparr>conn_room := r\<rparr>) s"

definition set_room :: "string \<Rightarrow> Room option \<Rightarrow> Server \<Rightarrow> Server" where
  "set_room k r s = s\<lparr>srv_rooms := (srv_rooms s)(k := r)\<rparr>"

section \<open>Sending\<close>

definition Enqueue :: "nat \<Rightarrow> bytes \<Rightarrow> Server \<Rightarrow> Server" where
  "Enqueue p frame s =
     set_conn p ((srv_conns s p)\<lparr>conn_out := conn_out (srv_conns s p) @ [frame], conn_waiting := False\<rparr>) s"

definition SendFrame :: "u32 \<Rightarrow> bytes \<Rightarrow> Server \<Rightarrow> Server" where
  "SendFrame i frame s =
     (case srv_connections s i of None \<Rightarrow> s | Some p \<Rightarrow> Enqueue p frame s)"

definition SendTo :: "u32 \<Rightarrow> ServerMessage \<Rightarrow> Server \<Rightarrow> Server" where
  "SendTo i msg s = SendFrame i (FrameMessage msg) s"

definition SendToMany :: "u32 list \<Rightarrow> ServerMessage \<Rightarrow> Server \<Rightarrow> Server" where
  "SendToMany ids msg s =
     (let frame = FrameMessage msg in foldl (\<lambda>s i. SendFrame i frame s) s ids)"

section \<open>Room codes\<close>

definition alphabet :: string where
  "alphabet = ''ABCDEFGHJKLMNPQRSTUVWXYZ23456789''"

text \<open>
  The distribution maps an engine output into \<open>0 .. sizeof(alphabet) - 2\<close>, the 32
  positions of the alphabet; \<open>mod\<close> stands for that map.
\<close>

definition MakeRoomCode :: "nat \<Rightarrow> (nat \<Rightarrow> nat) \<Rightarrow> string \<times> (nat \<Rightarrow> nat)" where
  "MakeRoomCode len rng =
     (map (\<lambda>i. alphabet ! (rng i mod 32)) [0..<len], \<lambda>i. rng (i + len))"

text \<open>The retry loop of \<open>HandleCreateRoom\<close>; \<open>None\<close> is a loop that never ends.\<close>

partial_function (option) fresh_code ::
  "(string \<rightharpoonup> Room) \<Rightarrow> nat \<Rightarrow> (nat \<Rightarrow> nat) \<Rightarrow> (string \<times> (nat \<Rightarrow> nat)) option" where
  "fresh_code rooms len rng =
     (let (code, rng') = MakeRoomCode len rng
      in if rooms code = None then Some (code, rng') else fresh_code rooms len rng')"

section \<open>Leaving\<close>

definition Server_LeaveRoom :: "nat \<Rightarrow> Server \<Rightarrow> Server" where
  "Server_LeaveRoom p s =
     (let i = conn_id (srv_conns s p); k = conn_room (srv_conns s p)
      in if k = [] then s
         else set_conn_room p []
           (case srv_rooms s k of
              None \<Rightarrow> s
            | Some room \<Rightarrow>
                let room1 = room\<lparr>room_members := filter (\<lambda>j. j \<noteq> i) (room_members room),
                                 room_member_data := sm_erase i (room_member_data room)\<rparr>
                in if room_members room1 = [] then set_room k None s
                   else let s2 = SendToMany (room_members room1) (PeerLeft i)
                                   (set_room k (Some room1) s)
                        in if room_host room1 = i
                           then let room2 = room1\<lparr>room_host := hd (room_members room1)\<rparr>
                                in SendToMany (room_members room2) (HostChanged (room_host room2))
                                     (set_room k (Some room2) s2)
                           else s2))"

section \<open>Handlers\<close>

text \<open>
  The shared preamble of the host-only actions: the room the sender hosts, or
  nothing after the matching error was sent.
\<close>

definition HostRoom :: "nat \<Rightarrow> Server \<Rightarrow> Server \<times> Room option" where
  "HostRoom p s =
     (let c = srv_conns s p
      in case srv_rooms s (conn_room c) of
           None \<Rightarrow> (SendTo (conn_id c) (RoomError NotInRoom []) s, None)
         | Some room \<Rightarrow>
             if room_host room \<noteq> conn_id c
             then (SendTo (conn_id c) (RoomError NotHost []) s, None)
             else (s, Some room))"

definition HandleCreateRoom :: "nat \<Rightarrow> Server \<Rightarrow> Server option" where
  "HandleCreateRoom p s =
     (let c = srv_conns s p; i = conn_id c
      in if conn_room c \<noteq> []
         then Some (SendTo i (RoomError AlreadyInRoom (conn_room c)) s)
         else case fresh_code (srv_rooms s) (unat (cfg_room_code_length (srv_config s))) (srv_rng s) of
                None \<Rightarrow> None
              | Some (code, rng) \<Rightarrow>
                  Some (SendTo i (HostChanged i) (SendTo i (AssignRoomId code)
                    (set_conn_room p code
                      (set_room code (Some (new_room code i)) (s\<lparr>srv_rng := rng\<rparr>))))))"

definition HandleJoinRoom :: "nat \<Rightarrow> string \<Rightarrow> string \<Rightarrow> Server \<Rightarrow> Server" where
  "HandleJoinRoom p rid password s =
     (let c = srv_conns s p; i = conn_id c
      in if conn_room c \<noteq> [] then SendTo i (RoomError AlreadyInRoom (conn_room c)) s
         else case srv_rooms s rid of
           None \<Rightarrow> SendTo i (RoomError NoSuchRoom rid) s
         | Some room \<Rightarrow>
             if i \<in> set (room_banned_members room) then SendTo i (RoomError Banned rid) s
             else if \<not> room_open room then SendTo i (RoomError RoomClosed rid) s
             else if room_password room \<noteq> [] \<and> password \<noteq> room_password room
             then SendTo i (RoomError BadPassword rid) s
             else
               let s = SendToMany (room_members room) (PeerJoined i) s;
                   s = SendTo i (AssignRoomId rid) s;
                   s = foldl (\<lambda>s m. SendTo i (PeerJoined m) s) s (room_members room);
                   s = SendTo i (HostChanged (room_host room)) s;
                   s = SendTo i (RoomAccessChanged (room_open room) (room_password room \<noteq> [])) s;
                   s = foldl (\<lambda>s (k, v). SendTo i (RoomDataChanged k v) s) s (room_data room);
                   s = foldl (\<lambda>s (m, data).
                         foldl (\<lambda>s (k, v). SendTo i (MemberDataChanged m k v) s) s data)
                         s (room_member_data room)
               in set_conn_room p rid
                    (set_room rid (Some (room\<lparr>room_members := room_members room @ [i]\<rparr>)) s))"

definition HandleLeaveRoom :: "nat \<Rightarrow> Server \<Rightarrow> Server" where
  "HandleLeaveRoom p s =
     (let c = srv_conns s p; i = conn_id c
      in if conn_room c = [] then SendTo i (RoomError NotInRoom []) s
         else Server_LeaveRoom p (SendTo i (PeerLeft i) s))"

definition HandleRoomChat :: "nat \<Rightarrow> string \<Rightarrow> Server \<Rightarrow> Server" where
  "HandleRoomChat p text s =
     (let c = srv_conns s p
      in case srv_rooms s (conn_room c) of
           None \<Rightarrow> SendTo (conn_id c) (RoomError NotInRoom []) s
         | Some room \<Rightarrow> SendToMany (room_members room) (RoomChat (conn_id c) text) s)"

definition Server_HandleP2PSignal ::
  "nat \<Rightarrow> u32 \<Rightarrow> P2PSignalKind \<Rightarrow> string \<Rightarrow> Server \<Rightarrow> Server" where
  "Server_HandleP2PSignal p target kind payload s =
     (let c = srv_conns s p
      in case srv_rooms s (conn_room c) of
           None \<Rightarrow> s
         | Some room \<Rightarrow>
             if target = conn_id c \<or> target \<notin> set (room_members room) then s
             else SendTo target (P2PSignal (conn_id c) kind payload) s)"

text \<open>The limits shared by room and member data.\<close>

definition bad_pair :: "string \<Rightarrow> string \<Rightarrow> bool" where
  "bad_pair key value \<longleftrightarrow> key = [] \<or> length key > max_room_data_key
     \<or> length value > max_room_data_value"

text \<open>
  The update of one metadata map under a key limit: \<open>Inl True\<close> is the limit
  error, \<open>Inl False\<close> an update that changes nothing, \<open>Inr\<close> the new map.
  An insertion that exceeds the limit is undone.
\<close>

definition put_limited ::
  "nat \<Rightarrow> string \<Rightarrow> string \<Rightarrow> (string, string) stdmap \<Rightarrow> bool + (string, string) stdmap" where
  "put_limited limit key value data =
     (case sm_find data key of
        None \<Rightarrow> if sm_size (sm_put key value data) > limit then Inl True
                else Inr (sm_put key value data)
      | Some old \<Rightarrow> if old = value then Inl False else Inr (sm_put key value data))"

definition HandleSetRoomData :: "nat \<Rightarrow> string \<Rightarrow> string \<Rightarrow> Server \<Rightarrow> Server" where
  "HandleSetRoomData p key value s =
     (let i = conn_id (srv_conns s p); k = conn_room (srv_conns s p)
      in case HostRoom p s of
           (s, None) \<Rightarrow> s
         | (s, Some room) \<Rightarrow>
             if bad_pair key value then SendTo i (RoomError BadRoomData key) s
             else if value = []
             then (if sm_find (room_data room) key = None then s
                   else SendToMany (room_members room) (RoomDataChanged key value)
                     (set_room k (Some (room\<lparr>room_data := sm_erase key (room_data room)\<rparr>)) s))
             else case put_limited max_room_data_keys key value (room_data room) of
                    Inl True \<Rightarrow> SendTo i (RoomError BadRoomData key) s
                  | Inl False \<Rightarrow> s
                  | Inr data \<Rightarrow> SendToMany (room_members room) (RoomDataChanged key value)
                      (set_room k (Some (room\<lparr>room_data := data\<rparr>)) s))"

text \<open>
  \<open>member_data[id]\<close> creates an empty map for a member that has none, also when
  the write that follows changes nothing.
\<close>

definition HandleSetMemberData :: "nat \<Rightarrow> string \<Rightarrow> string \<Rightarrow> Server \<Rightarrow> Server" where
  "HandleSetMemberData p key value s =
     (let i = conn_id (srv_conns s p); k = conn_room (srv_conns s p)
      in case srv_rooms s k of
           None \<Rightarrow> SendTo i (RoomError NotInRoom []) s
         | Some room \<Rightarrow>
             if bad_pair key value then SendTo i (RoomError BadRoomData key) s
             else if value = []
             then (case sm_find (room_member_data room) i of
                     None \<Rightarrow> s
                   | Some data \<Rightarrow>
                       if sm_find data key = None then s
                       else let data' = sm_erase key data;
                                md = (if data' = [] then sm_erase i (room_member_data room)
                                      else sm_put i data' (room_member_data room))
                            in SendToMany (room_members room) (MemberDataChanged i key value)
                                 (set_room k (Some (room\<lparr>room_member_data := md\<rparr>)) s))
             else let data = (case sm_find (room_member_data room) i of None \<Rightarrow> [] | Some d \<Rightarrow> d);
                      md = sm_put i data (room_member_data room);
                      s1 = set_room k (Some (room\<lparr>room_member_data := md\<rparr>)) s
                  in case put_limited max_member_data_keys key value data of
                       Inl True \<Rightarrow> SendTo i (RoomError BadRoomData key) s1
                     | Inl False \<Rightarrow> s1
                     | Inr data' \<Rightarrow> SendToMany (room_members room) (MemberDataChanged i key value)
                         (set_room k (Some (room\<lparr>room_member_data := sm_put i data' md\<rparr>)) s1))"

text \<open>\<open>std::to_string\<close> on an id.\<close>

fun decimal :: "nat \<Rightarrow> string" where
  "decimal n = (if n < 10 then [char_of (48 + n)] else decimal (n div 10) @ [char_of (48 + n mod 10)])"

declare decimal.simps [simp del]

definition to_string :: "u32 \<Rightarrow> string" where
  "to_string i = decimal (unat i)"

text \<open>The test both removals share: another connected client, in this room.\<close>

definition removable :: "u32 \<Rightarrow> Room \<Rightarrow> Server \<Rightarrow> nat option" where
  "removable target room s =
     (if target = room_host room then None
      else case srv_connections s target of
             None \<Rightarrow> None
           | Some q \<Rightarrow> if conn_room (srv_conns s q) \<noteq> room_id room then None else Some q)"

definition HandleKickMember :: "nat \<Rightarrow> u32 \<Rightarrow> Server \<Rightarrow> Server" where
  "HandleKickMember p target s =
     (let i = conn_id (srv_conns s p)
      in case HostRoom p s of
           (s, None) \<Rightarrow> s
         | (s, Some room) \<Rightarrow>
             (case removable target room s of
                None \<Rightarrow> SendTo i (RoomError NoSuchMember (to_string target)) s
              | Some q \<Rightarrow> Server_LeaveRoom q (SendTo target KickedByHost s)))"

definition HandleBanMember :: "nat \<Rightarrow> u32 \<Rightarrow> Server \<Rightarrow> Server" where
  "HandleBanMember p target s =
     (let i = conn_id (srv_conns s p); k = conn_room (srv_conns s p)
      in case HostRoom p s of
           (s, None) \<Rightarrow> s
         | (s, Some room) \<Rightarrow>
             (case removable target room s of
                None \<Rightarrow> SendTo i (RoomError NoSuchMember (to_string target)) s
              | Some q \<Rightarrow>
                  let room1 = (if target \<in> set (room_banned_members room) then room
                               else room\<lparr>room_banned_members := room_banned_members room @ [target]\<rparr>)
                  in Server_LeaveRoom q (SendTo target BannedByHost (set_room k (Some room1) s))))"

definition HandleTransferHost :: "nat \<Rightarrow> u32 \<Rightarrow> Server \<Rightarrow> Server" where
  "HandleTransferHost p target s =
     (let i = conn_id (srv_conns s p); k = conn_room (srv_conns s p)
      in case HostRoom p s of
           (s, None) \<Rightarrow> s
         | (s, Some room) \<Rightarrow>
             if target = i then s
             else if target \<notin> set (room_members room)
             then SendTo i (RoomError NoSuchMember (to_string target)) s
             else SendToMany (room_members room) (HostChanged target)
                    (set_room k (Some (room\<lparr>room_host := target\<rparr>)) s))"

definition HandleSetRoomJoinable :: "nat \<Rightarrow> bool \<Rightarrow> Server \<Rightarrow> Server" where
  "HandleSetRoomJoinable p open' s =
     (let k = conn_room (srv_conns s p)
      in case HostRoom p s of
           (s, None) \<Rightarrow> s
         | (s, Some room) \<Rightarrow>
             if room_open room = open' then s
             else SendToMany (room_members room)
                    (RoomAccessChanged open' (room_password room \<noteq> []))
                    (set_room k (Some (room\<lparr>room_open := open'\<rparr>)) s))"

definition HandleSetRoomPassword :: "nat \<Rightarrow> string \<Rightarrow> Server \<Rightarrow> Server" where
  "HandleSetRoomPassword p password s =
     (let i = conn_id (srv_conns s p); k = conn_room (srv_conns s p)
      in case HostRoom p s of
           (s, None) \<Rightarrow> s
         | (s, Some room) \<Rightarrow>
             if length password > max_room_password
             then SendTo i (RoomError BadPassword []) s
             else if room_password room = password then s
             else let s1 = set_room k (Some (room\<lparr>room_password := password\<rparr>)) s
                  in if (room_password room \<noteq> []) \<noteq> (password \<noteq> [])
                     then SendToMany (room_members room)
                            (RoomAccessChanged (room_open room) (password \<noteq> [])) s1
                     else s1)"

text \<open>The dispatcher; alternatives no client sends are ignored.\<close>

fun HandleMessage :: "nat \<Rightarrow> ServerMessage \<Rightarrow> Server \<Rightarrow> Server option" where
  "HandleMessage p (Heartbeat t) s = Some (SendTo (conn_id (srv_conns s p)) (Heartbeat t) s)"
| "HandleMessage p CreateRoom s = HandleCreateRoom p s"
| "HandleMessage p (JoinRoom r w) s = Some (HandleJoinRoom p r w s)"
| "HandleMessage p LeaveRoom s = Some (HandleLeaveRoom p s)"
| "HandleMessage p (RoomChat _ t) s = Some (HandleRoomChat p t s)"
| "HandleMessage p (P2PSignal i k d) s = Some (Server_HandleP2PSignal p i k d s)"
| "HandleMessage p (SetRoomData k v) s = Some (HandleSetRoomData p k v s)"
| "HandleMessage p (SetMemberData k v) s = Some (HandleSetMemberData p k v s)"
| "HandleMessage p (KickMember i) s = Some (HandleKickMember p i s)"
| "HandleMessage p (BanMember i) s = Some (HandleBanMember p i s)"
| "HandleMessage p (TransferHost i) s = Some (HandleTransferHost p i s)"
| "HandleMessage p (SetRoomJoinable b) s = Some (HandleSetRoomJoinable p b s)"
| "HandleMessage p (SetRoomPassword w) s = Some (HandleSetRoomPassword p w s)"
| "HandleMessage p _ s = Some s"

end
