(* ===== verification/Server_Session.thy ===== *)
theory Server_Session
  imports Server
begin

text \<open>
  The coroutines of the server: accepting, one session per connection, its
  read loop and its write loop.  The io context is single-threaded, so code
  between two suspension points runs alone; each such stretch is one operation
  below, and \<open>server_step\<close> interleaves them in any order.
\<close>

section \<open>Start-up\<close>

text \<open>
  \<open>Init\<close> with the outcomes of open, set_option, bind and listen: the configuration
  is stored first, with the default code length filled in.
\<close>

definition init_config :: "ServerConfig \<Rightarrow> ServerConfig" where
  "init_config cfg =
     (if cfg_room_code_length cfg = 0 then cfg\<lparr>cfg_room_code_length := 8\<rparr> else cfg)"

definition Server_Init :: "ServerConfig \<Rightarrow> bool \<Rightarrow> bool \<Rightarrow> bool \<Rightarrow> bool \<Rightarrow> Server \<Rightarrow> Server \<times> bool" where
  "Server_Init cfg opened reuse bound listening s =
     (let s = s\<lparr>srv_config := init_config cfg\<rparr>
      in if \<not> opened then (s, False)
         else if \<not> reuse then (s, False)
         else if \<not> bound then (s, False)
         else if \<not> listening then (s, False)
         else (s, True))"

definition new_server :: "(nat \<Rightarrow> nat) \<Rightarrow> ServerConfig \<Rightarrow> Server" where
  "new_server rng cfg = \<lparr>srv_conns = (\<lambda>_. new_connection 0), srv_alloc = 0, srv_live = {},
     srv_connections = Map.empty, srv_rooms = Map.empty, srv_next_id = 1, srv_rng = rng,
     srv_config = cfg\<rparr>"

section \<open>Sessions\<close>

text \<open>The session up to its first suspension: the id and the ice servers are queued.\<close>

definition Session_begin :: "nat \<Rightarrow> Server \<Rightarrow> Server" where
  "Session_begin p s =
     (let i = conn_id (srv_conns s p)
      in SendTo i (IceServersMsg (cfg_ice (srv_config s))) (SendTo i (AssignClientId i) s))"

text \<open>
  One turn of the accept loop: \<open>emplace\<close> keeps an entry that is already there.
\<close>

definition AcceptLoop_turn :: "Server \<Rightarrow> Server" where
  "AcceptLoop_turn s =
     (let i = srv_next_id s; p = srv_alloc s;
          table = (if srv_connections s i = None then (srv_connections s)(i \<mapsto> p)
                   else srv_connections s);
          s = s\<lparr>srv_next_id := srv_next_id s + 1, srv_alloc := Suc p,
                srv_live := insert p (srv_live s), srv_connections := table\<rparr>
      in Session_begin p (set_conn p (new_connection i) s))"

text \<open>The session after its read loop ended, normally or by an exception.\<close>

definition Session_end :: "nat \<Rightarrow> Server \<Rightarrow> Server" where
  "Session_end p s =
     (let s = set_conn p ((srv_conns s p)\<lparr>conn_closing := True, conn_waiting := False\<rparr>) s;
          s = Server_LeaveRoom p s
      in s\<lparr>srv_connections := (srv_connections s)(conn_id (srv_conns s p) := None),
           srv_live := srv_live s - {p}\<rparr>)"

section \<open>Reading\<close>

datatype read_step =
    Read_wait
  | Read_end
  | Read_undefined
  | Read_stuck
  | Read_next Server

text \<open>
  One turn of the read loop on the input that has arrived.  \<open>async_read\<close>
  completes only with all the bytes asked for, so a turn waits until its header
  and then its payload are there; the size check stands between the two.
  \<open>Read_undefined\<close> is a message with an indeterminate \<open>bool\<close>, \<open>Read_stuck\<close> a handler
  that never returns.
\<close>

definition ReadLoop_turn :: "nat \<Rightarrow> Server \<Rightarrow> read_step" where
  "ReadLoop_turn p s =
     (let c = srv_conns s p; inp = conn_in c
      in if length inp < frame_header_size then Read_wait
         else case DecodeFrameHeader (take frame_header_size inp) of
           None \<Rightarrow> Read_end
         | Some (len, more') \<Rightarrow>
             if length (conn_body c) + len > max_reassembled_size then Read_end
             else if length inp < frame_header_size + len then Read_wait
             else
               let body = conn_body c @ take len (drop frame_header_size inp);
                   c1 = c\<lparr>conn_in := drop (frame_header_size + len) inp, conn_body := body\<rparr>
               in if more' then Read_next (set_conn p c1 s)
                  else case in_ServerMessage body of
                         Inl (Errc _) \<Rightarrow> Read_end
                       | Inl (Undefined_bool _) \<Rightarrow> Read_undefined
                       | Inr (msg, _) \<Rightarrow>
                           (case HandleMessage p msg (set_conn p (c1\<lparr>conn_body := []\<rparr>) s) of
                              None \<Rightarrow> Read_stuck
                            | Some s' \<Rightarrow> Read_next s'))"

section \<open>Writing\<close>

text \<open>
  The write loop up to a suspension: it ends when the connection closes, suspends on
  the \<open>wake\<close> timer when the queue is empty, and otherwise takes the front frame and
  starts to write it.  A loop that waits on the timer does nothing: it goes on only
  after a \<open>cancel\<close>, which \<open>Enqueue\<close> and the end of the session call.
\<close>

definition WriteLoop_turn :: "nat \<Rightarrow> Server \<Rightarrow> Server" where
  "WriteLoop_turn p s =
     (let c = srv_conns s p
      in if \<not> conn_writing c \<or> conn_flight c \<noteq> None \<or> conn_waiting c then s
         else if conn_closing c then set_conn p (c\<lparr>conn_writing := False\<rparr>) s
         else case conn_out c of
                [] \<Rightarrow> set_conn p (c\<lparr>conn_waiting := True\<rparr>) s
              | frame # rest \<Rightarrow> set_conn p (c\<lparr>conn_out := rest, conn_flight := Some frame\<rparr>) s)"

text \<open>
  The write loop when \<open>async_write\<close> completes: with the whole frame written, or with
  an exception, which ends the loop.
\<close>

definition WriteLoop_resume :: "bool \<Rightarrow> nat \<Rightarrow> Server \<Rightarrow> Server" where
  "WriteLoop_resume written p s =
     (let c = srv_conns s p
      in case conn_flight c of
           None \<Rightarrow> s
         | Some frame \<Rightarrow>
             if written
             then set_conn p (c\<lparr>conn_flight := None, conn_sent := conn_sent c @ [frame]\<rparr>) s
             else set_conn p (c\<lparr>conn_flight := None, conn_writing := False\<rparr>) s)"

section \<open>Interleavings\<close>

definition arrive :: "nat \<Rightarrow> bytes \<Rightarrow> Server \<Rightarrow> Server" where
  "arrive p bs s = set_conn p ((srv_conns s p)\<lparr>conn_in := conn_in (srv_conns s p) @ bs\<rparr>) s"

inductive server_step :: "Server \<Rightarrow> Server \<Rightarrow> bool" where
  step_accept: "server_step s (AcceptLoop_turn s)"
| step_receive: "p \<in> srv_live s \<Longrightarrow> server_step s (arrive p bs s)"
| step_read: "p \<in> srv_live s \<Longrightarrow> ReadLoop_turn p s = Read_next s' \<Longrightarrow> server_step s s'"
| step_finish: "p \<in> srv_live s \<Longrightarrow> server_step s (Session_end p s)"
| step_write: "p < srv_alloc s \<Longrightarrow> server_step s (WriteLoop_turn p s)"
| step_written: "p < srv_alloc s \<Longrightarrow> server_step s (WriteLoop_resume written p s)"

inductive server_run :: "Server \<Rightarrow> Server \<Rightarrow> bool" where
  run_refl: "server_run s s"
| run_step: "server_run s t \<Longrightarrow> server_step t u \<Longrightarrow> server_run s u"

text \<open>
  A bounded run: no more accepts than there are ids, so no id is handed out
  twice and none is the reserved 0.
\<close>

definition ids_left :: "Server \<Rightarrow> bool" where
  "ids_left s \<longleftrightarrow> srv_alloc s < 2 ^ 32"

end
