(* ===== verification/Metadata.thy ===== *)
theory Metadata
  imports Protocol
begin

text \<open>
  What one metadata message means, for room data and for member data: an empty
  value deletes, any other value sets, and a member without entries has no map.
  The server applies a write when it accepts it and every client when the
  announcement reaches it; both are shown to compute these two functions.
\<close>

definition data_write ::
  "string \<Rightarrow> string \<Rightarrow> (string, string) stdmap \<Rightarrow> (string, string) stdmap" where
  "data_write key value data = (if value = [] then sm_erase key data else sm_put key value data)"

definition member_write ::
  "u32 \<Rightarrow> string \<Rightarrow> string \<Rightarrow> (u32, (string, string) stdmap) stdmap
    \<Rightarrow> (u32, (string, string) stdmap) stdmap" where
  "member_write i key value md =
     (let data = data_write key value (case sm_find md i of None \<Rightarrow> [] | Some d \<Rightarrow> d)
      in if data = [] then sm_erase i md else sm_put i data md)"

lemma sm_put_not_Nil [simp]: "sm_put k v m \<noteq> []"
  by (simp add: sm_put_def)

lemma data_write_wf: "sm_wf data \<Longrightarrow> sm_wf (data_write key value data)"
  by (simp add: data_write_def sm.wf_put sm.wf_erase)

lemma data_write_absent:
  "sm_wf data \<Longrightarrow> sm_find data key = None \<Longrightarrow> data_write key [] data = data"
  by (simp add: data_write_def sm.erase_absent)

lemma data_write_same:
  "sm_wf data \<Longrightarrow> sm_find data key = Some value \<Longrightarrow> value \<noteq> [] \<Longrightarrow> data_write key value data = data"
  by (simp add: data_write_def sm.put_found)

lemma data_write_find:
  "sm_wf data \<Longrightarrow>
   sm_find (data_write key value data) = (sm_find data)(key := (if value = [] then None else Some value))"
  by (simp add: data_write_def sm.find_put sm.find_erase)

lemma data_write_set:
  "p \<in> set (data_write key value data) \<Longrightarrow> p = (key, value) \<and> value \<noteq> [] \<or> p \<in> set data"
  by (auto simp: data_write_def sm_set_put sm_set_erase split: if_splits)

lemma member_write_wf: "sm_wf md \<Longrightarrow> sm_wf (member_write i key value md)"
  by (simp add: member_write_def Let_def sm.wf_put sm.wf_erase)

end
