(* ===== verification/Server_Invariant.thy ===== *)
theory Server_Invariant
  imports Server_Session Metadata
begin

text \<open>
  The integrity of the server's tables: every room is inhabited, hosted by a
  member, within its limits, and the rooms' member lists, the connections'
  room fields and the id table tell the same story.  Every operation of the
  server keeps this, so it holds in every state a run can reach.
\<close>

section \<open>Frame rules of sending\<close>

lemma foldl_keeps: "(\<And>s x. g (f s x) = g s) \<Longrightarrow> g (foldl f s xs) = g s"
  by (induction xs arbitrary: s) auto

lemma set_conn_simps [simp, srv]:
  "srv_conns (set_conn p c s) = (srv_conns s)(p := c)"
  "srv_alloc (set_conn p c s) = srv_alloc s"
  "srv_live (set_conn p c s) = srv_live s"
  "srv_connections (set_conn p c s) = srv_connections s"
  "srv_rooms (set_conn p c s) = srv_rooms s"
  "srv_next_id (set_conn p c s) = srv_next_id s"
  "srv_rng (set_conn p c s) = srv_rng s"
  "srv_config (set_conn p c s) = srv_config s"
  by (simp_all add: set_conn_def)

lemma set_room_simps [simp, srv]:
  "srv_conns (set_room k r s) = srv_conns s"
  "srv_alloc (set_room k r s) = srv_alloc s"
  "srv_live (set_room k r s) = srv_live s"
  "srv_connections (set_room k r s) = srv_connections s"
  "srv_rooms (set_room k r s) = (srv_rooms s)(k := r)"
  "srv_next_id (set_room k r s) = srv_next_id s"
  "srv_rng (set_room k r s) = srv_rng s"
  "srv_config (set_room k r s) = srv_config s"
  by (simp_all add: set_room_def)

lemma SendFrame_simps [simp, srv]:
  "srv_alloc (SendFrame i f s) = srv_alloc s"
  "srv_live (SendFrame i f s) = srv_live s"
  "srv_connections (SendFrame i f s) = srv_connections s"
  "srv_rooms (SendFrame i f s) = srv_rooms s"
  "srv_next_id (SendFrame i f s) = srv_next_id s"
  "srv_rng (SendFrame i f s) = srv_rng s"
  "srv_config (SendFrame i f s) = srv_config s"
  "conn_id (srv_conns (SendFrame i f s) p) = conn_id (srv_conns s p)"
  "conn_room (srv_conns (SendFrame i f s) p) = conn_room (srv_conns s p)"
  "conn_in (srv_conns (SendFrame i f s) p) = conn_in (srv_conns s p)"
  "conn_body (srv_conns (SendFrame i f s) p) = conn_body (srv_conns s p)"
  "conn_sent (srv_conns (SendFrame i f s) p) = conn_sent (srv_conns s p)"
  "conn_flight (srv_conns (SendFrame i f s) p) = conn_flight (srv_conns s p)"
  "conn_closing (srv_conns (SendFrame i f s) p) = conn_closing (srv_conns s p)"
  "conn_writing (srv_conns (SendFrame i f s) p) = conn_writing (srv_conns s p)"
  by (simp_all add: SendFrame_def Enqueue_def split: option.splits)

lemmas SendTo_simps [simp, srv] = SendFrame_simps [of _ "FrameMessage _", folded SendTo_def]

lemma SendToMany_simps [simp, srv]:
  "srv_alloc (SendToMany is m s) = srv_alloc s"
  "srv_live (SendToMany is m s) = srv_live s"
  "srv_connections (SendToMany is m s) = srv_connections s"
  "srv_rooms (SendToMany is m s) = srv_rooms s"
  "srv_next_id (SendToMany is m s) = srv_next_id s"
  "srv_rng (SendToMany is m s) = srv_rng s"
  "srv_config (SendToMany is m s) = srv_config s"
  "conn_id (srv_conns (SendToMany is m s) p) = conn_id (srv_conns s p)"
  "conn_room (srv_conns (SendToMany is m s) p) = conn_room (srv_conns s p)"
  "conn_in (srv_conns (SendToMany is m s) p) = conn_in (srv_conns s p)"
  "conn_body (srv_conns (SendToMany is m s) p) = conn_body (srv_conns s p)"
  "conn_sent (srv_conns (SendToMany is m s) p) = conn_sent (srv_conns s p)"
  "conn_flight (srv_conns (SendToMany is m s) p) = conn_flight (srv_conns s p)"
  "conn_closing (srv_conns (SendToMany is m s) p) = conn_closing (srv_conns s p)"
  "conn_writing (srv_conns (SendToMany is m s) p) = conn_writing (srv_conns s p)"
  unfolding SendToMany_def Let_def by (rule foldl_keeps, simp)+

lemma set_conn_room_simps [simp, srv]:
  "srv_alloc (set_conn_room p k s) = srv_alloc s"
  "srv_live (set_conn_room p k s) = srv_live s"
  "srv_connections (set_conn_room p k s) = srv_connections s"
  "srv_rooms (set_conn_room p k s) = srv_rooms s"
  "srv_next_id (set_conn_room p k s) = srv_next_id s"
  "srv_rng (set_conn_room p k s) = srv_rng s"
  "srv_config (set_conn_room p k s) = srv_config s"
  "conn_id (srv_conns (set_conn_room p k s) q) = conn_id (srv_conns s q)"
  "conn_room (srv_conns (set_conn_room p k s) q) = (if q = p then k else conn_room (srv_conns s q))"
  "conn_in (srv_conns (set_conn_room p k s) q) = conn_in (srv_conns s q)"
  "conn_body (srv_conns (set_conn_room p k s) q) = conn_body (srv_conns s q)"
  "conn_sent (srv_conns (set_conn_room p k s) q) = conn_sent (srv_conns s q)"
  "conn_flight (srv_conns (set_conn_room p k s) q) = conn_flight (srv_conns s q)"
  "conn_out (srv_conns (set_conn_room p k s) q) = conn_out (srv_conns s q)"
  by (simp_all add: set_conn_room_def)

section \<open>What a joiner is sent\<close>

text \<open>The hydration of a joiner as one list of messages.\<close>

definition SendAll :: "u32 \<Rightarrow> ServerMessage list \<Rightarrow> Server \<Rightarrow> Server" where
  "SendAll i ms s = foldl (\<lambda>s m. SendTo i m s) s ms"

definition hydration :: "string \<Rightarrow> Room \<Rightarrow> ServerMessage list" where
  "hydration rid room =
     AssignRoomId rid # map PeerJoined (room_members room)
     @ [HostChanged (room_host room),
        RoomAccessChanged (room_open room) (room_password room \<noteq> [])]
     @ map (\<lambda>(k, v). RoomDataChanged k v) (room_data room)
     @ concat (map (\<lambda>(m, data). map (\<lambda>(k, v). MemberDataChanged m k v) data)
                   (room_member_data room))"

lemma SendAll_simps [simp, srv]:
  "srv_alloc (SendAll i ms s) = srv_alloc s"
  "srv_live (SendAll i ms s) = srv_live s"
  "srv_connections (SendAll i ms s) = srv_connections s"
  "srv_rooms (SendAll i ms s) = srv_rooms s"
  "srv_next_id (SendAll i ms s) = srv_next_id s"
  "srv_rng (SendAll i ms s) = srv_rng s"
  "srv_config (SendAll i ms s) = srv_config s"
  "conn_id (srv_conns (SendAll i ms s) p) = conn_id (srv_conns s p)"
  "conn_room (srv_conns (SendAll i ms s) p) = conn_room (srv_conns s p)"
  "conn_in (srv_conns (SendAll i ms s) p) = conn_in (srv_conns s p)"
  "conn_body (srv_conns (SendAll i ms s) p) = conn_body (srv_conns s p)"
  "conn_closing (srv_conns (SendAll i ms s) p) = conn_closing (srv_conns s p)"
  "conn_sent (srv_conns (SendAll i ms s) p) = conn_sent (srv_conns s p)"
  "conn_flight (srv_conns (SendAll i ms s) p) = conn_flight (srv_conns s p)"
  unfolding SendAll_def by (rule foldl_keeps, simp)+

lemma SendAll_append: "SendAll i (ms @ ns) s = SendAll i ns (SendAll i ms s)"
  by (simp add: SendAll_def)

lemma SendAll_Cons: "SendAll i (m # ms) s = SendAll i ms (SendTo i m s)"
  by (simp add: SendAll_def)

lemma SendAll_map: "SendAll i (map f xs) s = foldl (\<lambda>s x. SendTo i (f x) s) s xs"
  by (simp add: SendAll_def foldl_map)

lemma SendAll_concat_map:
  "SendAll i (concat (map f xs)) s = foldl (\<lambda>s x. SendAll i (f x) s) s xs"
  by (induction xs arbitrary: s) (simp_all add: SendAll_append, simp add: SendAll_def)

definition admitted :: "Server \<Rightarrow> nat \<Rightarrow> string \<Rightarrow> string \<Rightarrow> Room \<Rightarrow> bool" where
  "admitted s p rid password room \<longleftrightarrow>
     conn_room (srv_conns s p) = [] \<and> srv_rooms s rid = Some room
     \<and> conn_id (srv_conns s p) \<notin> set (room_banned_members room) \<and> room_open room
     \<and> (room_password room = [] \<or> password = room_password room)"

lemma HandleJoinRoom_admitted:
  assumes "admitted s p rid password room"
  shows "HandleJoinRoom p rid password s =
     (let i = conn_id (srv_conns s p)
      in set_conn_room p rid
           (set_room rid (Some (room\<lparr>room_members := room_members room @ [i]\<rparr>))
             (SendAll i (hydration rid room) (SendToMany (room_members room) (PeerJoined i) s))))"
  using assms
  by (auto simp: admitted_def HandleJoinRoom_def hydration_def Let_def SendAll_append SendAll_Cons
      SendAll_map SendAll_concat_map case_prod_unfold)

lemma HandleJoinRoom_refused:
  assumes "\<nexists>room. admitted s p rid password room"
  shows "\<exists>code context. HandleJoinRoom p rid password s
           = SendTo (conn_id (srv_conns s p)) (RoomError code context) s
         \<and> (context = rid \<or> context = conn_room (srv_conns s p)) \<and> error_byte code \<le> 8"
proof -
  let ?answer = "\<lambda>code x. HandleJoinRoom p rid password s = SendTo (conn_id (srv_conns s p)) (RoomError code x) s"
  have "?answer AlreadyInRoom (conn_room (srv_conns s p)) \<or> ?answer NoSuchRoom rid \<or> ?answer Banned rid
      \<or> ?answer RoomClosed rid \<or> ?answer BadPassword rid"
    using assms by (auto simp: HandleJoinRoom_def Let_def admitted_def split: option.splits)
  moreover have "error_byte AlreadyInRoom \<le> 8 \<and> error_byte NoSuchRoom \<le> 8 \<and> error_byte Banned \<le> 8
      \<and> error_byte RoomClosed \<le> 8 \<and> error_byte BadPassword \<le> 8" by simp
  ultimately show ?thesis by blast
qed

section \<open>The invariant\<close>

definition room_ok :: "string \<Rightarrow> Room \<Rightarrow> bool" where
  "room_ok k r \<longleftrightarrow>
     room_id r = k \<and> distinct (room_members r) \<and> room_host r \<in> set (room_members r)
     \<and> sm_wf (room_data r) \<and> sm_size (room_data r) \<le> max_room_data_keys
     \<and> (\<forall>(key, value) \<in> set (room_data r). \<not> bad_pair key value \<and> value \<noteq> [])
     \<and> sm_wf (room_member_data r) \<and> fst ` set (room_member_data r) \<subseteq> set (room_members r)
     \<and> (\<forall>(i, data) \<in> set (room_member_data r).
          data \<noteq> [] \<and> sm_wf data \<and> sm_size data \<le> max_member_data_keys
          \<and> (\<forall>(key, value) \<in> set data. \<not> bad_pair key value \<and> value \<noteq> []))
     \<and> length (room_password r) \<le> max_room_password"

definition ids_ok :: "Server \<Rightarrow> bool" where
  "ids_ok s \<longleftrightarrow>
     srv_next_id s = of_nat (Suc (srv_alloc s)) \<and> srv_live s \<subseteq> {..<srv_alloc s}
     \<and> (\<forall>p < srv_alloc s. conn_id (srv_conns s p) = of_nat (Suc p))
     \<and> (\<forall>i p. srv_connections s i = Some p \<longleftrightarrow> p \<in> srv_live s \<and> conn_id (srv_conns s p) = i)"

text \<open>A connection names a room exactly when that room lists the connection's id.\<close>

definition agree :: "Server \<Rightarrow> bool" where
  "agree s \<longleftrightarrow>
     (\<forall>k r i. srv_rooms s k = Some r \<longrightarrow> i \<in> set (room_members r) \<longrightarrow> srv_connections s i \<noteq> None)
     \<and> (\<forall>p \<in> srv_live s. \<forall>k. k \<noteq> [] \<longrightarrow>
          (conn_room (srv_conns s p) = k) =
          (\<exists>r. srv_rooms s k = Some r \<and> conn_id (srv_conns s p) \<in> set (room_members r)))"

definition server_inv :: "Server \<Rightarrow> bool" where
  "server_inv s \<longleftrightarrow> ids_ok s \<and> agree s
     \<and> (\<forall>k r. srv_rooms s k = Some r \<longrightarrow> k \<noteq> [] \<and> room_ok k r)
     \<and> cfg_room_code_length (srv_config s) \<noteq> 0"

lemma server_inv_SendTo [simp]: "server_inv (SendTo i m s) = server_inv s"
  by (simp add: server_inv_def ids_ok_def agree_def)

lemma server_inv_SendToMany [simp]: "server_inv (SendToMany is m s) = server_inv s"
  by (simp add: server_inv_def ids_ok_def agree_def)

lemma server_inv_SendAll [simp]: "server_inv (SendAll i ms s) = server_inv s"
  by (simp add: server_inv_def ids_ok_def agree_def)

section \<open>Consequences\<close>

lemma inv_registered:
  "server_inv s \<Longrightarrow> p \<in> srv_live s \<Longrightarrow> srv_connections s (conn_id (srv_conns s p)) = Some p"
  by (auto simp: server_inv_def ids_ok_def)

lemma inv_live_alloc: "server_inv s \<Longrightarrow> p \<in> srv_live s \<Longrightarrow> p < srv_alloc s"
  by (auto simp: server_inv_def ids_ok_def)

lemma inv_lookup:
  "server_inv s \<Longrightarrow> srv_connections s i = Some p \<Longrightarrow> p \<in> srv_live s \<and> conn_id (srv_conns s p) = i"
  by (auto simp: server_inv_def ids_ok_def)

lemma inv_id_inject:
  "server_inv s \<Longrightarrow> p \<in> srv_live s \<Longrightarrow> q \<in> srv_live s \<Longrightarrow>
   conn_id (srv_conns s p) = conn_id (srv_conns s q) \<longleftrightarrow> p = q"
  by (metis inv_registered option.inject)

lemma inv_room_ok: "server_inv s \<Longrightarrow> srv_rooms s k = Some r \<Longrightarrow> room_ok k r \<and> k \<noteq> []"
  by (auto simp: server_inv_def)

lemma inv_member_iff:
  "server_inv s \<Longrightarrow> srv_rooms s k = Some r \<Longrightarrow> p \<in> srv_live s \<Longrightarrow>
   conn_id (srv_conns s p) \<in> set (room_members r) \<longleftrightarrow> conn_room (srv_conns s p) = k"
  by (auto simp: server_inv_def agree_def)

lemma inv_room_exists:
  "server_inv s \<Longrightarrow> p \<in> srv_live s \<Longrightarrow> conn_room (srv_conns s p) \<noteq> [] \<Longrightarrow>
   \<exists>r. srv_rooms s (conn_room (srv_conns s p)) = Some r
      \<and> conn_id (srv_conns s p) \<in> set (room_members r)"
  unfolding server_inv_def agree_def by blast

lemma inv_no_empty_room: "server_inv s \<Longrightarrow> srv_rooms s [] = None"
  by (cases "srv_rooms s []") (auto simp: server_inv_def)

lemma inv_member_connected:
  assumes inv: "server_inv s" and r: "srv_rooms s k = Some r" and i: "i \<in> set (room_members r)"
  shows "\<exists>p \<in> srv_live s. srv_connections s i = Some p \<and> conn_id (srv_conns s p) = i
      \<and> conn_room (srv_conns s p) = k"
proof -
  have "srv_connections s i \<noteq> None"
    using assms unfolding server_inv_def agree_def by blast
  then obtain p where p: "srv_connections s i = Some p" by blast
  from inv_lookup [OF inv this] inv_member_iff [OF inv r] i p show ?thesis by blast
qed

section \<open>Preservation\<close>

lemma server_inv_set_room:
  assumes "server_inv s" and "srv_rooms s k = Some r" and "room_ok k r'"
    and "set (room_members r') = set (room_members r)"
  shows "server_inv (set_room k (Some r') s)"
  using assms by (auto simp: server_inv_def ids_ok_def agree_def)

lemma room_ok_new_room: "room_ok k (new_room k i)"
  by (simp add: room_ok_def new_room_def sm_size_def)

lemma server_inv_enter_new:
  assumes inv: "server_inv s" and p: "p \<in> srv_live s"
    and out: "conn_room (srv_conns s p) = []" and new: "srv_rooms s k = None" and k: "k \<noteq> []"
  shows "server_inv (set_conn_room p k
           (set_room k (Some (new_room k (conn_id (srv_conns s p)))) s))"
proof -
  have "\<not> (\<exists>r. srv_rooms s k' = Some r \<and> conn_id (srv_conns s p) \<in> set (room_members r))" for k'
    using inv_member_iff [OF inv _ p] inv_room_ok [OF inv] out by fastforce
  moreover have "new_room k (conn_id (srv_conns s p)) = r \<Longrightarrow> room_members r = [conn_id (srv_conns s p)]" for r
    by (auto simp: new_room_def)
  ultimately show ?thesis
    using assms inv_registered [OF inv p] inv_id_inject [OF inv _ p]
    by (auto simp: server_inv_def ids_ok_def agree_def room_ok_new_room)
qed

lemma server_inv_enter:
  assumes inv: "server_inv s" and p: "p \<in> srv_live s"
    and out: "conn_room (srv_conns s p) = []" and r: "srv_rooms s k = Some r"
  shows "server_inv (set_conn_room p k
           (set_room k (Some (r\<lparr>room_members := room_members r @ [conn_id (srv_conns s p)]\<rparr>)) s))"
proof -
  have k: "k \<noteq> []" and ok: "room_ok k r" using inv_room_ok [OF inv r] by auto
  have notin: "\<not> (\<exists>r. srv_rooms s k' = Some r \<and> conn_id (srv_conns s p) \<in> set (room_members r))" for k'
    using inv_member_iff [OF inv _ p] inv_room_ok [OF inv] out by fastforce
  then have "room_ok k (r\<lparr>room_members := room_members r @ [conn_id (srv_conns s p)]\<rparr>)"
    using ok r by (auto simp: room_ok_def)
  then show ?thesis
    using assms k notin inv_registered [OF inv p] inv_id_inject [OF inv _ p]
    by (auto simp: server_inv_def ids_ok_def agree_def)
qed

text \<open>The room that remains when a member leaves.\<close>

definition without_member :: "u32 \<Rightarrow> Room \<Rightarrow> Room" where
  "without_member i r =
     (let ms = filter (\<lambda>j. j \<noteq> i) (room_members r)
      in r\<lparr>room_members := ms, room_member_data := sm_erase i (room_member_data r),
           room_host := (if room_host r = i then hd ms else room_host r)\<rparr>)"

definition remaining_room :: "u32 \<Rightarrow> Room \<Rightarrow> Room option" where
  "remaining_room i r =
     (if set (room_members r) \<subseteq> {i} then None else Some (without_member i r))"

lemma filter_neq_Nil: "filter (\<lambda>j. j \<noteq> i) xs = [] \<longleftrightarrow> set xs \<subseteq> {i}"
  by (auto simp: filter_empty_conv)

text \<open>What leaving does, and to whom it is announced.\<close>

definition leave_notices :: "u32 \<Rightarrow> Room \<Rightarrow> ServerMessage list" where
  "leave_notices i r =
     PeerLeft i # (if room_host r = i then [HostChanged (room_host (without_member i r))] else [])"

lemma LeaveRoom_roomless [simp]:
  "conn_room (srv_conns s p) = [] \<Longrightarrow> Server_LeaveRoom p s = s"
  by (simp add: Server_LeaveRoom_def Let_def)

lemma set_room_set_room [simp]: "set_room k r (set_room k r' s) = set_room k r s"
  by (simp add: set_room_def)

lemma set_room_SendFrame: "set_room k r (SendFrame i f s) = SendFrame i f (set_room k r s)"
  by (simp add: SendFrame_def Enqueue_def set_room_def set_conn_def split: option.splits)

lemma set_room_SendToMany: "set_room k r (SendToMany is m s) = SendToMany is m (set_room k r s)"
proof -
  have "set_room k r (foldl (\<lambda>s i. SendFrame i f s) s is) =
      foldl (\<lambda>s i. SendFrame i f s) (set_room k r s) is" for f
    by (induction "is" arbitrary: s) (simp_all add: set_room_SendFrame)
  then show ?thesis by (simp add: SendToMany_def Let_def)
qed

lemma LeaveRoom_eq:
  assumes "conn_room (srv_conns s p) = k" and "k \<noteq> []" and "srv_rooms s k = Some r"
    and "i = conn_id (srv_conns s p)"
  shows "Server_LeaveRoom p s =
     set_conn_room p []
       (foldl (\<lambda>s m. SendToMany (filter (\<lambda>j. j \<noteq> i) (room_members r)) m s)
         (set_room k (remaining_room i r) s)
         (if set (room_members r) \<subseteq> {i} then [] else leave_notices i r))"
  using assms
  by (simp add: Server_LeaveRoom_def Let_def remaining_room_def without_member_def leave_notices_def
      filter_neq_Nil set_room_SendToMany)

lemma room_ok_without:
  assumes "room_ok k r" and "\<not> set (room_members r) \<subseteq> {i}"
  shows "room_ok k (without_member i r)"
proof -
  have "filter (\<lambda>j. j \<noteq> i) (room_members r) \<noteq> []"
    using assms(2) by (simp add: filter_neq_Nil)
  then have "hd (filter (\<lambda>j. j \<noteq> i) (room_members r)) \<in> set (filter (\<lambda>j. j \<noteq> i) (room_members r))"
    by (rule hd_in_set)
  then show ?thesis
    using assms(1)
    by (auto simp: room_ok_def without_member_def Let_def sm.wf_erase sm_set_erase)
qed

lemma without_member_members [simp]:
  "room_members (without_member i r) = filter (\<lambda>j. j \<noteq> i) (room_members r)"
  by (simp add: without_member_def Let_def)

lemma server_inv_leave:
  assumes inv: "server_inv s" and p: "p \<in> srv_live s"
    and k: "conn_room (srv_conns s p) = k" "k \<noteq> []" and r: "srv_rooms s k = Some r"
  shows "server_inv (set_conn_room p [] (set_room k (remaining_room (conn_id (srv_conns s p)) r) s))"
proof -
  let ?i = "conn_id (srv_conns s p)"
  have ok: "\<And>r'. remaining_room ?i r = Some r' \<Longrightarrow>
      room_ok k r' \<and> set (room_members r') = set (room_members r) - {?i}"
    using inv_room_ok [OF inv r] room_ok_without by (auto simp: remaining_room_def split: if_splits)
  have none: "remaining_room ?i r = None \<Longrightarrow> set (room_members r) \<subseteq> {?i}"
    by (simp add: remaining_room_def split: if_splits)
  have other: "k' \<noteq> k \<Longrightarrow> srv_rooms s k' = Some r' \<Longrightarrow> ?i \<notin> set (room_members r')" for k' r'
    using inv_member_iff [OF inv _ p] k by blast
  have inj: "q \<in> srv_live s \<Longrightarrow> conn_id (srv_conns s q) = ?i \<longleftrightarrow> q = p" for q
    by (rule inv_id_inject [OF inv _ p])
  show ?thesis
  proof (cases "remaining_room ?i r")
    case None
    then show ?thesis
      using inv k r none other inj by (auto simp: server_inv_def ids_ok_def agree_def)
  next
    case (Some r')
    then show ?thesis
      using inv k r ok [OF Some] other inj by (auto simp: server_inv_def ids_ok_def agree_def)
  qed
qed

lemma server_inv_set_conn_room_send [simp]:
  "server_inv (set_conn_room p k (SendTo i m s)) = server_inv (set_conn_room p k s)"
  "server_inv (set_conn_room p k (SendToMany is m s)) = server_inv (set_conn_room p k s)"
  "server_inv (set_conn_room p k (SendAll i ms s)) = server_inv (set_conn_room p k s)"
  by (simp_all add: server_inv_def ids_ok_def agree_def)

lemma server_inv_LeaveRoom:
  assumes "server_inv s" and "p \<in> srv_live s"
  shows "server_inv (Server_LeaveRoom p s)"
proof (cases "conn_room (srv_conns s p) = []")
  case False
  then obtain r where r: "srv_rooms s (conn_room (srv_conns s p)) = Some r"
    using inv_room_exists [OF assms] by blast
  let ?t = "set_room (conn_room (srv_conns s p)) (remaining_room (conn_id (srv_conns s p)) r) s"
  have "server_inv (set_conn_room p [] (foldl (\<lambda>s m. SendToMany is m s) ?t ms))
      = server_inv (set_conn_room p [] ?t)" for "is" ms
    by (rule foldl_keeps) simp
  then show ?thesis
    using server_inv_leave [OF assms refl False r] False
    by (simp add: LeaveRoom_eq [OF refl False r refl])
qed (use assms in simp)

lemma HostRoom_cases:
  obtains (refused) m where "HostRoom p s = (SendTo (conn_id (srv_conns s p)) m s, None)"
      and "m = RoomError NotInRoom [] \<or> m = RoomError NotHost []"
  | (host) room where "HostRoom p s = (s, Some room)"
      and "srv_rooms s (conn_room (srv_conns s p)) = Some room"
      and "room_host room = conn_id (srv_conns s p)"
proof (cases "srv_rooms s (conn_room (srv_conns s p))")
  case None
  then show ?thesis using refused [of "RoomError NotInRoom []"] by (simp add: HostRoom_def Let_def)
next
  case (Some room)
  then show ?thesis
    using refused [of "RoomError NotHost []"] host [of room]
    by (cases "room_host room = conn_id (srv_conns s p)") (simp_all add: HostRoom_def Let_def)
qed

lemma put_limited_ok:
  assumes "put_limited limit key value data = Inr data'" and "sm_wf data" and "sm_size data \<le> limit"
  shows "data' = sm_put key value data \<and> sm_wf data' \<and> sm_size data' \<le> limit"
  using assms by (auto simp: put_limited_def sm.wf_put sm.size_put split: option.splits if_splits)

lemma room_ok_put_data:
  assumes "room_ok k r" and "\<not> bad_pair key value" and "value \<noteq> []"
    and "put_limited max_room_data_keys key value (room_data r) = Inr data"
  shows "room_ok k (r\<lparr>room_data := data\<rparr>)"
  using assms put_limited_ok [OF assms(4)] by (auto simp: room_ok_def sm_set_put)

lemma room_ok_erase_data:
  "room_ok k r \<Longrightarrow> room_ok k (r\<lparr>room_data := sm_erase key (room_data r)\<rparr>)"
  by (auto simp: room_ok_def sm.wf_erase sm.size_erase sm_set_erase)

lemma room_ok_put_member_data:
  assumes "room_ok k r" and "i \<in> set (room_members r)" and "data \<noteq> []" and "sm_wf data"
    and "sm_size data \<le> max_member_data_keys"
    and "\<forall>(key, value) \<in> set data. \<not> bad_pair key value \<and> value \<noteq> []"
  shows "room_ok k (r\<lparr>room_member_data := sm_put i data (room_member_data r)\<rparr>)"
  using assms by (auto simp: room_ok_def sm_set_put sm.wf_put)

lemma room_ok_erase_member_data:
  "room_ok k r \<Longrightarrow> room_ok k (r\<lparr>room_member_data := sm_erase i (room_member_data r)\<rparr>)"
  by (auto simp: room_ok_def sm_set_erase sm.wf_erase)

lemma room_ok_member_data:
  "room_ok k r \<Longrightarrow> sm_find (room_member_data r) i = Some data \<Longrightarrow>
   data \<noteq> [] \<and> sm_wf data \<and> sm_size data \<le> max_member_data_keys
     \<and> (\<forall>(key, value) \<in> set data. \<not> bad_pair key value \<and> value \<noteq> [])"
  by (auto simp: room_ok_def dest!: sm_find_in)

section \<open>Outcomes of the metadata handlers\<close>

lemma set_room_same: "srv_rooms s k = Some r \<Longrightarrow> set_room k (Some r) s = s"
  by (simp add: set_room_def fun_upd_idem)

lemma put_limited_cases:
  assumes "sm_wf data" and "value \<noteq> []"
  obtains (over) "put_limited limit key value data = Inl True" and "sm_find data key = None"
      and "limit \<le> sm_size data"
  | (same) "put_limited limit key value data = Inl False" and "data_write key value data = data"
  | (new) "put_limited limit key value data = Inr (data_write key value data)"
      and "sm_size data \<le> limit \<Longrightarrow> sm_size (data_write key value data) \<le> limit"
proof (cases "sm_find data key")
  case None
  then show ?thesis
    using assms over new
    by (cases "limit \<le> sm_size data") (simp_all add: put_limited_def data_write_def sm.size_put)
next
  case (Some old)
  then show ?thesis
    using assms same new
    by (cases "old = value") (simp_all add: put_limited_def data_write_def sm.size_put sm.put_found)
qed

text \<open>
  A metadata request is refused with an error, changes nothing and says nothing, or
  is applied and announced to the room.
\<close>

lemma HandleSetRoomData_cases:
  assumes inv: "server_inv s"
  obtains (refused) code x where
      "HandleSetRoomData p key value s = SendTo (conn_id (srv_conns s p)) (RoomError code x) s"
      and "x = [] \<or> x = key" and "error_byte code \<le> 8"
  | (unchanged) r where "HandleSetRoomData p key value s = s"
      and "srv_rooms s (conn_room (srv_conns s p)) = Some r"
      and "data_write key value (room_data r) = room_data r"
  | (applied) r where "srv_rooms s (conn_room (srv_conns s p)) = Some r"
      and "room_host r = conn_id (srv_conns s p)" and "\<not> bad_pair key value"
      and "sm_size (room_data r) \<le> max_room_data_keys \<Longrightarrow>
           sm_size (data_write key value (room_data r)) \<le> max_room_data_keys"
      and "HandleSetRoomData p key value s =
        SendToMany (room_members r) (RoomDataChanged key value)
          (set_room (conn_room (srv_conns s p))
            (Some (r\<lparr>room_data := data_write key value (room_data r)\<rparr>)) s)"
proof (cases rule: HostRoom_cases [of p s])
  case (refused m)
  then show ?thesis using that(1) by (auto simp: HandleSetRoomData_def Let_def)
next
  case (host r)
  have wf: "sm_wf (room_data r)" using inv_room_ok [OF inv host(2)] by (simp add: room_ok_def)
  show ?thesis
  proof (cases "bad_pair key value")
    case True
    then show ?thesis using that(1) [of BadRoomData key] host by (simp add: HandleSetRoomData_def Let_def)
  next
    case good: False
    show ?thesis
    proof (cases "value = []")
      case True
      then show ?thesis
        using that(2) [OF _ host(2)] that(3) [OF host(2,3) good] host good wf
        by (cases "sm_find (room_data r) key")
          (simp_all add: HandleSetRoomData_def Let_def data_write_absent, simp add: data_write_def sm.size_erase)
    next
      case False
      with wf show ?thesis
      proof (cases rule: put_limited_cases [of "room_data r" "value" max_room_data_keys key])
        case over
        then show ?thesis
          using that(1) [of BadRoomData key] host good False by (simp add: HandleSetRoomData_def Let_def)
      next
        case same
        then show ?thesis
          using that(2) [OF _ host(2)] host good False by (simp add: HandleSetRoomData_def Let_def)
      next
        case new
        then show ?thesis
          using that(3) [OF host(2,3) good] host good False by (simp add: HandleSetRoomData_def Let_def)
      qed
    qed
  qed
qed

text \<open>
  The member's current map; \<open>member_data[id]\<close> hands out an empty one where there is none.
\<close>

definition member_map :: "u32 \<Rightarrow> Room \<Rightarrow> (string, string) stdmap" where
  "member_map i r = (case sm_find (room_member_data r) i of None \<Rightarrow> [] | Some d \<Rightarrow> d)"

lemma member_map_ok:
  assumes "room_ok k r"
  shows "sm_wf (member_map i r)" and "sm_size (member_map i r) \<le> max_member_data_keys"
    and "\<forall>(key, value) \<in> set (member_map i r). \<not> bad_pair key value \<and> value \<noteq> []"
  using room_ok_member_data [OF assms, of i]
  by (cases "sm_find (room_member_data r) i"; force simp: member_map_def sm_size_def)+

lemma member_write_eq:
  "member_write i key value (room_member_data r) =
     (let data = data_write key value (member_map i r)
      in if data = [] then sm_erase i (room_member_data r) else sm_put i data (room_member_data r))"
  by (simp add: member_write_def member_map_def)

lemma HandleSetMemberData_cases:
  assumes inv: "server_inv s"
  obtains (refused) code x where
      "HandleSetMemberData p key value s = SendTo (conn_id (srv_conns s p)) (RoomError code x) s"
      and "x = [] \<or> x = key" and "error_byte code \<le> 8"
  | (unchanged) r where "HandleSetMemberData p key value s = s"
      and "srv_rooms s (conn_room (srv_conns s p)) = Some r"
      and "data_write key value (member_map (conn_id (srv_conns s p)) r) =
           member_map (conn_id (srv_conns s p)) r"
  | (applied) r where "srv_rooms s (conn_room (srv_conns s p)) = Some r" and "\<not> bad_pair key value"
      and "sm_size (data_write key value (member_map (conn_id (srv_conns s p)) r))
           \<le> max_member_data_keys"
      and "HandleSetMemberData p key value s =
        SendToMany (room_members r) (MemberDataChanged (conn_id (srv_conns s p)) key value)
          (set_room (conn_room (srv_conns s p))
            (Some (r\<lparr>room_member_data :=
               member_write (conn_id (srv_conns s p)) key value (room_member_data r)\<rparr>)) s)"
proof (cases "srv_rooms s (conn_room (srv_conns s p))")
  case None
  then show ?thesis using refused [of NotInRoom "[]"] by (simp add: HandleSetMemberData_def Let_def)
next
  case (Some r)
  let ?i = "conn_id (srv_conns s p)"
  let ?k = "conn_room (srv_conns s p)"
  have ok: "room_ok ?k r" using inv_room_ok [OF inv Some] by simp
  have md: "sm_wf (room_member_data r)" using ok by (simp add: room_ok_def)
  show ?thesis
  proof (cases "bad_pair key value")
    case True
    then show ?thesis using refused [of BadRoomData key] Some by (simp add: HandleSetMemberData_def Let_def)
  next
    case good: False
    note eqs = HandleSetMemberData_def Let_def member_write_eq
    show ?thesis
    proof (cases "value = []")
      case empty: True
      show ?thesis
      proof (cases "sm_find (member_map ?i r) key")
        case None
        then have "data_write key value (member_map ?i r) = member_map ?i r"
          using empty member_map_ok [OF ok] by (simp add: data_write_absent)
        moreover have "HandleSetMemberData p key value s = s"
          using empty Some good None by (auto simp: eqs member_map_def split: option.splits)
        ultimately show ?thesis using unchanged Some by blast
      next
        case (Some v)
        then obtain d where d: "sm_find (room_member_data r) ?i = Some d" "member_map ?i r = d"
          by (auto simp: member_map_def split: option.splits)
        have "sm_size (data_write key value (member_map ?i r)) \<le> max_member_data_keys"
          using empty member_map_ok(1,2) [OF ok, of ?i] by (auto simp: data_write_def sm.size_erase)
        then show ?thesis
          using applied [OF \<open>srv_rooms s ?k = Some r\<close> good] empty good d Some \<open>srv_rooms s ?k = Some r\<close>
          by (simp add: eqs data_write_def)
      qed
    next
      case False
      have same: "sm_find (room_member_data r) ?i = Some d \<Longrightarrow> sm_put ?i d (room_member_data r) = room_member_data r" for d
        using md by (rule sm.put_found)
      show ?thesis
        using member_map_ok(1) [OF ok] False
      proof (cases rule: put_limited_cases [of "member_map ?i r" "value" max_member_data_keys key])
        case over
        then obtain d where "sm_find (room_member_data r) ?i = Some d" "member_map ?i r = d"
          by (auto simp: member_map_def sm_size_def split: option.splits)
        then show ?thesis
          using refused [of BadRoomData key] over Some good False same
          by (simp add: eqs set_room_same)
      next
        case same': same
        then obtain d where "sm_find (room_member_data r) ?i = Some d" "member_map ?i r = d"
          using False by (auto simp: member_map_def data_write_def split: option.splits)
        then show ?thesis
          using unchanged [OF _ Some same'(2)] same' Some good False same
          by (simp add: eqs set_room_same)
      next
        case new
        then show ?thesis
          using applied [OF Some good new(2)] Some good False member_map_ok(2) [OF ok, of ?i] md
          by (simp add: eqs member_map_def [symmetric] sm.put_put) (simp add: data_write_def)
      qed
    qed
  qed
qed

end
