(* ===== verification/Room_View.thy ===== *)
theory Room_View
  imports Metadata
begin

text \<open>
  The contract between server and client on room state: what a client knows
  about its room, as a function of the messages it has been sent.  \<open>observe\<close> is the
  abstract meaning of one message; the client's cache refines it, and the
  server keeps every member's view equal to the room it stores.
\<close>

record RoomView =
  view_id :: u32
  view_room :: string
  view_host :: u32
  view_open :: bool
  view_passworded :: bool
  view_members :: "u32 list"
  view_data :: "(string, string) stdmap"
  view_member_data :: "(u32, (string, string) stdmap) stdmap"

definition lobby_view :: "u32 \<Rightarrow> RoomView" where
  "lobby_view i = \<lparr>view_id = i, view_room = [], view_host = 0, view_open = True,
     view_passworded = False, view_members = [], view_data = [], view_member_data = []\<rparr>"

fun observe :: "ServerMessage \<Rightarrow> RoomView \<Rightarrow> RoomView" where
  "observe (AssignClientId i) v = v\<lparr>view_id := i\<rparr>"
| "observe (AssignRoomId r) v =
     (lobby_view (view_id v))\<lparr>view_room := r, view_members := [view_id v]\<rparr>"
| "observe (PeerJoined i) v = v\<lparr>view_members := view_members v @ [i]\<rparr>"
| "observe (PeerLeft i) v =
     (if i = view_id v then lobby_view i
      else v\<lparr>view_members := filter (\<lambda>j. j \<noteq> i) (view_members v),
             view_member_data := sm_erase i (view_member_data v)\<rparr>)"
| "observe (HostChanged i) v = v\<lparr>view_host := i\<rparr>"
| "observe (RoomDataChanged k x) v = v\<lparr>view_data := data_write k x (view_data v)\<rparr>"
| "observe (MemberDataChanged i k x) v =
     v\<lparr>view_member_data := member_write i k x (view_member_data v)\<rparr>"
| "observe KickedByHost v = lobby_view (view_id v)"
| "observe BannedByHost v = lobby_view (view_id v)"
| "observe (RoomAccessChanged a b) v = v\<lparr>view_open := a, view_passworded := b\<rparr>"
| "observe _ v = v"

definition observe_all :: "ServerMessage list \<Rightarrow> RoomView \<Rightarrow> RoomView" where
  "observe_all ms v = foldl (\<lambda>v m. observe m v) v ms"

lemma observe_all_simps [simp]:
  "observe_all [] v = v"
  "observe_all (m # ms) v = observe_all ms (observe m v)"
  "observe_all (ms @ ns) v = observe_all ns (observe_all ms v)"
  by (simp_all add: observe_all_def)

section \<open>Replaying a room\<close>

lemma observe_joined:
  "observe_all (map PeerJoined ms) v = v\<lparr>view_members := view_members v @ ms\<rparr>"
  by (induction ms arbitrary: v) simp_all

lemma observe_data:
  "\<forall>(k, x) \<in> set d. x \<noteq> [] \<Longrightarrow>
   observe_all (map (\<lambda>(k, x). RoomDataChanged k x) d) v =
     v\<lparr>view_data := foldl (\<lambda>m p. sm_put (fst p) (snd p) m) (view_data v) d\<rparr>"
  by (induction d arbitrary: v) (auto simp: data_write_def)

text \<open>One member's entries, replayed onto a map with a prefix \<open>a\<close> of them.\<close>

lemma observe_member:
  assumes "sm_wf (a @ d)" and "\<forall>(k, x) \<in> set d. x \<noteq> []" and "a \<noteq> []"
    and "sm_wf md" and "view_member_data v = sm_put i a md"
  shows "observe_all (map (\<lambda>(k, x). MemberDataChanged i k x) d) v =
     v\<lparr>view_member_data := sm_put i (a @ d) md\<rparr>"
  using assms
proof (induction d arbitrary: a v)
  case Nil
  then show ?case by simp
next
  case (Cons p d)
  obtain k x where p: "p = (k, x)" by fastforce
  have put: "sm_put k x a = a @ [(k, x)]"
    using Cons.prems(1) by (intro sm_put_append_max) (auto simp: sm_wf_append p)
  have "member_write i k x (view_member_data v) = sm_put i (a @ [(k, x)]) md"
    using Cons.prems put
    by (simp add: member_write_def Let_def p data_write_def sm.find_put sm.put_put)
  then show ?case
    using Cons.IH [of "a @ [(k, x)]" "v\<lparr>view_member_data := sm_put i (a @ [(k, x)]) md\<rparr>"] Cons.prems
    by (simp add: p)
qed

lemma observe_member_new:
  assumes "sm_wf d" and "\<forall>(k, x) \<in> set d. x \<noteq> []" and "d \<noteq> []"
    and "sm_wf (view_member_data v)" and "sm_find (view_member_data v) i = None"
  shows "observe_all (map (\<lambda>(k, x). MemberDataChanged i k x) d) v =
     v\<lparr>view_member_data := sm_put i d (view_member_data v)\<rparr>"
proof -
  obtain k x d' where d: "d = (k, x) # d'" using assms(3) by (cases d) auto
  have "member_write i k x (view_member_data v) = sm_put i [(k, x)] (view_member_data v)"
    using assms d by (simp add: member_write_def data_write_def sm_put_def)
  then show ?thesis
    using observe_member [of "[(k, x)]" d' "view_member_data v"
        "v\<lparr>view_member_data := sm_put i [(k, x)] (view_member_data v)\<rparr>" i] assms d
    by simp
qed

lemma observe_members:
  assumes "sm_wf (a @ md)"
    and "\<forall>(i, d) \<in> set md. d \<noteq> [] \<and> sm_wf d \<and> (\<forall>(k, x) \<in> set d. x \<noteq> [])"
    and "view_member_data v = a"
  shows "observe_all (concat (map (\<lambda>(i, d). map (\<lambda>(k, x). MemberDataChanged i k x) d) md)) v =
     v\<lparr>view_member_data := a @ md\<rparr>"
  using assms
proof (induction md arbitrary: a v)
  case Nil
  then show ?case by simp
next
  case (Cons p md)
  obtain i d where p: "p = (i, d)" by fastforce
  have max: "\<forall>q \<in> set a. fst q < i" and wf: "sm_wf a"
    using Cons.prems(1) by (auto simp: sm_wf_append p)
  then have put: "sm_put i d a = a @ [(i, d)]" by (intro sm_put_append_max)
  have "sm_find a i = None" using max by (auto simp: sm_find_None)
  then have "observe_all (map (\<lambda>(k, x). MemberDataChanged i k x) d) v =
      v\<lparr>view_member_data := a @ [(i, d)]\<rparr>"
    using observe_member_new [of d v i] Cons.prems(2,3) wf put by (auto simp: p)
  then show ?case
    using Cons.IH [of "a @ [(i, d)]" "v\<lparr>view_member_data := a @ [(i, d)]\<rparr>"] Cons.prems
    by (simp add: p)
qed

section \<open>Views are well-typed\<close>

text \<open>
  The maps of a view are maps in the sense of \<open>std::map\<close>, no key has an empty value and no member an
  empty map: an empty value is how a deletion is announced.
\<close>

definition entries_ok :: "(string, string) stdmap \<Rightarrow> bool" where
  "entries_ok d \<longleftrightarrow> sm_wf d \<and> (\<forall>(k, x) \<in> set d. x \<noteq> [])"

definition maps_ok :: "RoomView \<Rightarrow> bool" where
  "maps_ok v \<longleftrightarrow> entries_ok (view_data v) \<and> sm_wf (view_member_data v)
     \<and> (\<forall>(i, d) \<in> set (view_member_data v). d \<noteq> [] \<and> entries_ok d)"

lemma entries_ok_write: "entries_ok d \<Longrightarrow> entries_ok (data_write k x d)"
  by (auto simp: entries_ok_def data_write_wf dest: data_write_set)

lemma entries_ok_member:
  assumes "sm_wf md" and "\<forall>(i, d) \<in> set md. d \<noteq> [] \<and> entries_ok d"
  shows "\<forall>(i, d) \<in> set (member_write j k x md). d \<noteq> [] \<and> entries_ok d"
proof -
  have "entries_ok (case sm_find md j of None \<Rightarrow> [] | Some d \<Rightarrow> d)"
    using assms(2) sm_find_in [of md j] by (cases "sm_find md j") (auto simp: entries_ok_def)
  then show ?thesis
    using assms(2) by (auto simp: member_write_def Let_def sm_set_put sm_set_erase entries_ok_write)
qed

lemma maps_ok_lobby [simp]: "maps_ok (lobby_view i)"
  by (simp add: maps_ok_def entries_ok_def lobby_view_def)

lemma maps_ok_observe: "maps_ok v \<Longrightarrow> maps_ok (observe m v)"
proof (cases m)
  case (MemberDataChanged i k x)
  then show "maps_ok v \<Longrightarrow> ?thesis"
    using entries_ok_member [of "view_member_data v" i k x] by (simp add: maps_ok_def member_write_wf)
qed (auto simp: maps_ok_def lobby_view_def entries_ok_write sm.wf_erase sm_set_erase, auto simp: entries_ok_def)

lemma maps_ok_observe_all: "maps_ok v \<Longrightarrow> maps_ok (observe_all ms v)"
  by (induction ms arbitrary: v) (simp_all add: maps_ok_observe)

end
