(* ===== verification/Server_Effects.thy ===== *)
theory Server_Effects
  imports Server_Invariant Room_View
begin

text \<open>
  What a message handler can do to the server, as a small relation: \<open>handled s s'\<close>
  holds when \<open>s'\<close> comes from \<open>s\<close> by a reply, a broadcast, an announced or silent
  room update, or by a client entering or leaving a room.  Every branch of
  every handler is of this form, so facts about the server are proved once per
  rule of the relation, not once per branch of the code.
\<close>

section \<open>Messages within the cap\<close>

lemma fits_simps [simp]:
  "fits (Heartbeat t)" "fits (AssignClientId i)" "fits (PeerJoined i)" "fits (PeerLeft i)"
  "fits (HostChanged i)" "fits KickedByHost" "fits BannedByHost" "fits (RoomAccessChanged a b)"
  "fits (AssignRoomId r) \<longleftrightarrow> length r \<le> 16379"
  "fits (RoomError c x) \<longleftrightarrow> length x \<le> 16378"
  "fits (RoomChat i x) \<longleftrightarrow> length x \<le> 16375"
  "fits (P2PSignal i kind x) \<longleftrightarrow> length x \<le> 16374"
  "fits (JoinRoom r w) \<longleftrightarrow> length r + length w \<le> 16375"
  "fits (SetRoomData k v) \<longleftrightarrow> length k + length v \<le> 16375"
  "fits (SetMemberData k v) \<longleftrightarrow> length k + length v \<le> 16375"
  "fits (RoomDataChanged k v) \<longleftrightarrow> length k + length v \<le> 16375"
  "fits (MemberDataChanged i k v) \<longleftrightarrow> length k + length v \<le> 16371"
  by (auto simp: fits_def length_message_bytes wire)

lemma length_decimal_pow: "n < 10 ^ d \<Longrightarrow> 0 < d \<Longrightarrow> length (decimal n) \<le> d"
proof (induction d arbitrary: n)
  case 0
  then show ?case by simp
next
  case (Suc d)
  show ?case
  proof (cases "n < 10")
    case True
    then show ?thesis by (simp add: decimal.simps [of n])
  next
    case False
    then have "0 < d" using Suc.prems by (cases d) auto
    moreover have "n div 10 < 10 ^ d" using Suc.prems by (simp add: less_mult_imp_div_less)
    ultimately show ?thesis using Suc.IH False by (simp add: decimal.simps [of n])
  qed
qed

lemma length_to_string: "length (to_string i) \<le> 10"
  using unat_le_pow [of i] by (intro length_decimal_pow [of "unat i" 10, folded to_string_def]) simp_all

section \<open>The view a member should have\<close>

definition room_view :: "u32 \<Rightarrow> Room \<Rightarrow> RoomView" where
  "room_view i r = \<lparr>view_id = i, view_room = room_id r, view_host = room_host r,
     view_open = room_open r, view_passworded = (room_password r \<noteq> []),
     view_members = i # filter (\<lambda>j. j \<noteq> i) (room_members r), view_data = room_data r,
     view_member_data = room_member_data r\<rparr>"

definition announces :: "ServerMessage \<Rightarrow> Room \<Rightarrow> Room \<Rightarrow> bool" where
  "announces m r r' \<longleftrightarrow> (\<forall>i. observe m (room_view i r) = room_view i r')"

fun quiet :: "ServerMessage \<Rightarrow> bool" where
  "quiet (Heartbeat t) = True"
| "quiet (RoomError c x) = (error_byte c \<le> 8)"
| "quiet (RoomChat i t) = True"
| "quiet (P2PSignal i k d) = True"
| "quiet _ = False"

lemma observe_quiet: "quiet m \<Longrightarrow> observe m v = v"
  by (cases m) simp_all

text \<open>The messages the server sends: those of its direction, with error codes the protocol names.\<close>

fun from_server :: "ServerMessage \<Rightarrow> bool" where
  "from_server CreateRoom = False"
| "from_server (JoinRoom _ _) = False"
| "from_server LeaveRoom = False"
| "from_server (SetRoomData _ _) = False"
| "from_server (SetMemberData _ _) = False"
| "from_server (KickMember _) = False"
| "from_server (BanMember _) = False"
| "from_server (TransferHost _) = False"
| "from_server (SetRoomJoinable _) = False"
| "from_server (SetRoomPassword _) = False"
| "from_server (RoomError code _) = (error_byte code \<le> 8)"
| "from_server _ = True"

definition sendable :: "ServerMessage \<Rightarrow> bool" where
  [simp]: "sendable m \<longleftrightarrow> fits m \<and> from_server m"

lemma sendable_fits: "list_all sendable ms \<Longrightarrow> list_all fits ms"
  by (simp add: list_all_iff)

lemma quiet_from_server: "quiet m \<Longrightarrow> from_server m"
  by (cases m) simp_all

section \<open>Effects\<close>

inductive handled :: "Server \<Rightarrow> Server \<Rightarrow> bool" where
  handled_same: "handled s s"
| handled_reply: "quiet m \<Longrightarrow> fits m \<Longrightarrow> handled s (SendTo i m s)"
| handled_broadcast: "quiet m \<Longrightarrow> fits m \<Longrightarrow> handled s (SendToMany is m s)"
| handled_silent:
    "srv_rooms s k = Some r \<Longrightarrow> room_ok k r' \<Longrightarrow> room_members r' = room_members r \<Longrightarrow>
     (\<And>i. room_view i r' = room_view i r) \<Longrightarrow> room_banned_members r' = room_banned_members r \<Longrightarrow>
     handled s (set_room k (Some r') s)"
| handled_announced:
    "srv_rooms s k = Some r \<Longrightarrow> room_ok k r' \<Longrightarrow> room_members r' = room_members r \<Longrightarrow>
     sendable m \<Longrightarrow> announces m r r' \<Longrightarrow> room_banned_members r' = room_banned_members r \<Longrightarrow>
     handled s (SendToMany (room_members r) m (set_room k (Some r') s))"
| handled_created:
    "p \<in> srv_live s \<Longrightarrow> conn_room (srv_conns s p) = [] \<Longrightarrow> srv_rooms s k = None \<Longrightarrow> k \<noteq> [] \<Longrightarrow>
     length k = unat (cfg_room_code_length (srv_config s)) \<Longrightarrow> i = conn_id (srv_conns s p) \<Longrightarrow>
     handled s (SendTo i (HostChanged i) (SendTo i (AssignRoomId k)
       (set_conn_room p k (set_room k (Some (new_room k i)) (s\<lparr>srv_rng := rng\<rparr>)))))"
| handled_joined:
    "p \<in> srv_live s \<Longrightarrow> admitted s p k w r \<Longrightarrow> handled s (HandleJoinRoom p k w s)"
| handled_left:
    "p \<in> srv_live s \<Longrightarrow> conn_room (srv_conns s p) \<noteq> [] \<Longrightarrow> i = conn_id (srv_conns s p) \<Longrightarrow>
     m \<in> {PeerLeft i, KickedByHost, BannedByHost} \<Longrightarrow>
     handled s (Server_LeaveRoom p (SendTo i m s))"
| handled_banned:
    "srv_rooms s k = Some r \<Longrightarrow> p \<in> srv_live s \<Longrightarrow> conn_room (srv_conns s p) = k \<Longrightarrow>
     i = conn_id (srv_conns s p) \<Longrightarrow> r' = r\<lparr>room_banned_members := B\<rparr> \<Longrightarrow>
     set B = insert i (set (room_banned_members r)) \<Longrightarrow>
     handled s (Server_LeaveRoom p (SendTo i BannedByHost (set_room k (Some r') s)))"

text \<open>Room codes, and so every message that quotes one, stay within the cap.\<close>

definition codes_ok :: "Server \<Rightarrow> bool" where
  "codes_ok s \<longleftrightarrow> unat (cfg_room_code_length (srv_config s)) \<le> 16000
     \<and> (\<forall>k r. srv_rooms s k = Some r \<longrightarrow> length k = unat (cfg_room_code_length (srv_config s)))"

definition config_ok :: "ServerConfig \<Rightarrow> bool" where
  "config_ok cfg \<longleftrightarrow> unat (cfg_room_code_length cfg) \<le> 16000 \<and> fits (IceServersMsg (cfg_ice cfg))"

lemma code_bound:
  assumes "server_inv s" and "codes_ok s" and "p \<in> srv_live s"
  shows "length (conn_room (srv_conns s p)) \<le> 16000"
  using inv_room_exists [OF assms(1,3)] assms(2)
  by (cases "conn_room (srv_conns s p) = []") (auto simp: codes_ok_def)

section \<open>Every handler is one of the effects\<close>

lemma fresh_code_new:
  assumes "fresh_code rooms len rng = Some (code, rng')"
  shows "rooms code = None \<and> length code = len"
proof -
  have "case y of (code, _) \<Rightarrow> rooms code = None \<and> length code = len"
    if "fresh_code rooms len rng = Some y" for y
    using that
  proof (rule fresh_code.raw_induct [rotated, where P = "\<lambda>rooms len rng y.
        case y of (code, _) \<Rightarrow> rooms code = None \<and> length code = len"])
  qed (auto simp: MakeRoomCode_def split: if_splits)
  then show ?thesis using assms by fastforce
qed

lemma MakeRoomCode_alphabet: "MakeRoomCode len rng = (code, rng') \<Longrightarrow> set code \<subseteq> set alphabet"
proof -
  have "alphabet ! (n mod 32) \<in> set alphabet" for n by (rule nth_mem) (simp add: alphabet_def)
  then show "MakeRoomCode len rng = (code, rng') \<Longrightarrow> set code \<subseteq> set alphabet"
    by (auto simp: MakeRoomCode_def)
qed

lemma fresh_code_alphabet:
  assumes "fresh_code rooms len rng = Some (code, rng')"
  shows "set code \<subseteq> set alphabet"
proof -
  have "set (fst y) \<subseteq> set alphabet" if "fresh_code rooms len rng = Some y" for y
    using that
    by (rule fresh_code.raw_induct [rotated, where P = "\<lambda>rooms len rng y. set (fst y) \<subseteq> set alphabet"])
      (auto split: prod.splits if_splits dest!: MakeRoomCode_alphabet)
  from this [OF assms] show ?thesis by simp
qed

text \<open>The retry loop ends as soon as the engine yields an unused code.\<close>

lemma fresh_code_terminates:
  "rooms (fst (MakeRoomCode len (\<lambda>i. rng (i + n * len)))) = None \<Longrightarrow> fresh_code rooms len rng \<noteq> None"
proof (induction n arbitrary: rng)
  case 0
  then show ?case by (subst fresh_code.simps) (simp add: MakeRoomCode_def)
next
  case (Suc n)
  have "fresh_code rooms len (\<lambda>i. rng (i + len)) \<noteq> None"
    using Suc.prems by (intro Suc.IH) (simp add: ac_simps)
  then show ?case by (subst fresh_code.simps) (simp add: MakeRoomCode_def)
qed

lemma HandleCreateRoom_handled:
  assumes "server_inv s" and "codes_ok s" and "p \<in> srv_live s" and "HandleCreateRoom p s = Some s'"
  shows "handled s s'"
proof (cases "conn_room (srv_conns s p) = []")
  case False
  then show ?thesis
    using assms(4) code_bound [OF assms(1-3)]
    by (auto simp: HandleCreateRoom_def Let_def intro!: handled_reply)
next
  case True
  obtain code rng where fresh:
    "fresh_code (srv_rooms s) (unat (cfg_room_code_length (srv_config s))) (srv_rng s) = Some (code, rng)"
    using assms(4) True by (auto simp: HandleCreateRoom_def Let_def split: option.splits)
  have code: "srv_rooms s code = None" "length code = unat (cfg_room_code_length (srv_config s))"
    using fresh_code_new [OF fresh] by auto
  moreover have "code \<noteq> []"
    using code assms(1) by (auto simp: server_inv_def unat_eq_0)
  ultimately show ?thesis
    using assms(3,4) True fresh
    by (auto simp: HandleCreateRoom_def Let_def intro!: handled_created)
qed

lemma HandleJoinRoom_handled:
  assumes "server_inv s" and "codes_ok s" and "p \<in> srv_live s" and "fits (JoinRoom k w)"
  shows "handled s (HandleJoinRoom p k w s)"
proof (cases "\<exists>r. admitted s p k w r")
  case True
  then show ?thesis using assms(3) handled_joined by blast
next
  case False
  then show ?thesis
    using HandleJoinRoom_refused [of s p k w] code_bound [OF assms(1-3)] assms(4)
    by (auto intro!: handled_reply)
qed

lemma HandleLeaveRoom_handled:
  "p \<in> srv_live s \<Longrightarrow> handled s (HandleLeaveRoom p s)"
  by (auto simp: HandleLeaveRoom_def Let_def intro!: handled_reply handled_left)

lemma HandleRoomChat_handled:
  "fits (RoomChat j t) \<Longrightarrow> handled s (HandleRoomChat p t s)"
  by (auto simp: HandleRoomChat_def Let_def split: option.splits intro!: handled_reply handled_broadcast)

lemma HandleP2PSignal_handled:
  "fits (P2PSignal j k d) \<Longrightarrow> handled s (Server_HandleP2PSignal p j k d s)"
  by (auto simp: Server_HandleP2PSignal_def Let_def split: option.splits
      intro!: handled_reply handled_same)

lemma good_pair_fits:
  "\<not> bad_pair k v \<Longrightarrow> fits (RoomDataChanged k v) \<and> fits (MemberDataChanged i k v)"
  by (auto simp: bad_pair_def)

lemma room_ok_data_write:
  assumes "room_ok k r" and "\<not> bad_pair key value"
    and "sm_size (data_write key value (room_data r)) \<le> max_room_data_keys"
  shows "room_ok k (r\<lparr>room_data := data_write key value (room_data r)\<rparr>)"
  using assms by (fastforce simp: room_ok_def data_write_wf dest: data_write_set)

lemma HandleSetRoomData_handled:
  assumes inv: "server_inv s" and fits: "fits (SetRoomData key value)"
  shows "handled s (HandleSetRoomData p key value s)"
proof -
  show ?thesis
    using inv
  proof (cases rule: HandleSetRoomData_cases [of s p key "value"])
    case (refused code x)
    then show ?thesis using fits by (auto intro!: handled_reply)
  next
    case (unchanged r)
    then show ?thesis by (simp add: handled_same)
  next
    case (applied r)
    have ok: "room_ok (conn_room (srv_conns s p)) r" using inv_room_ok [OF inv applied(1)] by simp
    then have "sm_size (room_data r) \<le> max_room_data_keys" by (simp add: room_ok_def)
    then show ?thesis
      unfolding applied(5) using applied room_ok_data_write [OF ok applied(3)] good_pair_fits [OF applied(3)]
      by (intro handled_announced) (auto simp: announces_def room_view_def)
  qed
qed

lemma room_ok_member_write:
  assumes ok: "room_ok k r" and good: "\<not> bad_pair key value" and i: "i \<in> set (room_members r)"
    and size: "sm_size (data_write key value (member_map i r)) \<le> max_member_data_keys"
  shows "room_ok k (r\<lparr>room_member_data := member_write i key value (room_member_data r)\<rparr>)"
proof -
  have "\<forall>(k, v) \<in> set (data_write key value (member_map i r)). \<not> bad_pair k v \<and> v \<noteq> []"
    using member_map_ok(3) [OF ok, of i] good by (auto dest!: data_write_set)
  then show ?thesis
    using room_ok_erase_member_data [OF ok, of i] size
      room_ok_put_member_data [OF ok i, of "data_write key value (member_map i r)"]
      data_write_wf [OF member_map_ok(1) [OF ok, of i], of key "value"]
    by (auto simp: member_write_eq Let_def)
qed

lemma HandleSetMemberData_handled:
  assumes inv: "server_inv s" and p: "p \<in> srv_live s" and fits: "fits (SetMemberData key value)"
  shows "handled s (HandleSetMemberData p key value s)"
proof -
  have ok: "srv_rooms s (conn_room (srv_conns s p)) = Some r \<Longrightarrow> room_ok (conn_room (srv_conns s p)) r" for r
    using inv_room_ok [OF inv] by simp
  show ?thesis
    using inv
  proof (cases rule: HandleSetMemberData_cases [of s p key "value"])
    case (refused code x)
    then show ?thesis using fits by (auto intro!: handled_reply)
  next
    case (unchanged r)
    then show ?thesis by (simp add: handled_same)
  next
    case (applied r)
    have mem: "conn_id (srv_conns s p) \<in> set (room_members r)"
      using inv_member_iff [OF inv applied(1) p] by simp
    show ?thesis
      unfolding applied(4)
      using applied room_ok_member_write [OF ok [OF applied(1)] applied(2) mem applied(3)]
        good_pair_fits [OF applied(2)]
      by (intro handled_announced) (auto simp: announces_def room_view_def)
  qed
qed

lemma removable_Some:
  assumes inv: "server_inv s" and r: "srv_rooms s k = Some r" and q: "removable target r s = Some q"
  shows "q \<in> srv_live s \<and> conn_id (srv_conns s q) = target \<and> conn_room (srv_conns s q) = k
     \<and> k \<noteq> [] \<and> target \<noteq> room_host r \<and> target \<in> set (room_members r)"
proof -
  have "srv_connections s target = Some q" "conn_room (srv_conns s q) = room_id r" "target \<noteq> room_host r"
    using q by (auto simp: removable_def split: if_splits option.splits)
  moreover have "room_id r = k" "k \<noteq> []" using inv_room_ok [OF inv r] by (auto simp: room_ok_def)
  ultimately show ?thesis
    using inv_lookup [OF inv] inv_member_iff [OF inv r] by fastforce
qed

lemma no_member_fits: "fits (RoomError NoSuchMember (to_string i))"
  using length_to_string [of i] by simp

lemma HandleKickMember_handled:
  assumes inv: "server_inv s"
  shows "handled s (HandleKickMember p target s)"
proof (cases rule: HostRoom_cases [of p s])
  case (refused m)
  then show ?thesis by (auto simp: HandleKickMember_def Let_def intro!: handled_reply)
next
  case (host r)
  show ?thesis
  proof (cases "removable target r s")
    case None
    then show ?thesis
      using host no_member_fits by (simp add: HandleKickMember_def Let_def handled_reply)
  next
    case (Some q)
    then show ?thesis
      using host removable_Some [OF inv host(2) Some] handled_left [of q s target KickedByHost]
      by (simp add: HandleKickMember_def Let_def)
  qed
qed

lemma HandleBanMember_handled:
  assumes inv: "server_inv s"
  shows "handled s (HandleBanMember p target s)"
proof (cases rule: HostRoom_cases [of p s])
  case (refused m)
  then show ?thesis by (auto simp: HandleBanMember_def Let_def intro!: handled_reply)
next
  case (host r)
  let ?k = "conn_room (srv_conns s p)"
  show ?thesis
  proof (cases "removable target r s")
    case None
    then show ?thesis
      using host no_member_fits by (simp add: HandleBanMember_def Let_def handled_reply)
  next
    case (Some q)
    define B where "B = (if target \<in> set (room_banned_members r) then room_banned_members r
       else room_banned_members r @ [target])"
    define r1 where "r1 = r\<lparr>room_banned_members := B\<rparr>"
    have r1: "r1 = (if target \<in> set (room_banned_members r) then r
       else r\<lparr>room_banned_members := room_banned_members r @ [target]\<rparr>)"
      by (simp add: r1_def B_def)
    have "set B = insert target (set (room_banned_members r))" by (auto simp: B_def)
    then have "handled s (Server_LeaveRoom q (SendTo target BannedByHost (set_room ?k (Some r1) s)))"
      using removable_Some [OF inv host(2) Some] host(2)
      by (intro handled_banned [where r = r and B = B]) (auto simp: r1_def)
    then show ?thesis
      using host Some by (simp add: HandleBanMember_def Let_def r1 [symmetric])
  qed
qed

lemma HandleTransferHost_handled:
  assumes inv: "server_inv s"
  shows "handled s (HandleTransferHost p target s)"
proof (cases rule: HostRoom_cases [of p s])
  case (refused m)
  then show ?thesis by (auto simp: HandleTransferHost_def Let_def intro!: handled_reply)
next
  case (host r)
  have "target \<in> set (room_members r) \<Longrightarrow> room_ok (conn_room (srv_conns s p)) (r\<lparr>room_host := target\<rparr>)"
    using inv_room_ok [OF inv host(2)] by (simp add: room_ok_def)
  then show ?thesis
    using host no_member_fits
    by (auto simp: HandleTransferHost_def Let_def announces_def room_view_def
        intro!: handled_same handled_reply handled_announced)
qed

lemma HandleSetRoomJoinable_handled:
  assumes inv: "server_inv s"
  shows "handled s (HandleSetRoomJoinable p b s)"
proof (cases rule: HostRoom_cases [of p s])
  case (refused m)
  then show ?thesis by (auto simp: HandleSetRoomJoinable_def Let_def intro!: handled_reply)
next
  case (host r)
  have "room_ok (conn_room (srv_conns s p)) (r\<lparr>room_open := b\<rparr>)"
    using inv_room_ok [OF inv host(2)] by (simp add: room_ok_def)
  then show ?thesis
    using host
    by (auto simp: HandleSetRoomJoinable_def Let_def announces_def room_view_def
        intro!: handled_same handled_announced)
qed

lemma HandleSetRoomPassword_handled:
  assumes inv: "server_inv s"
  shows "handled s (HandleSetRoomPassword p w s)"
proof (cases rule: HostRoom_cases [of p s])
  case (refused m)
  then show ?thesis by (auto simp: HandleSetRoomPassword_def Let_def intro!: handled_reply)
next
  case (host r)
  have ok: "length w \<le> max_room_password \<Longrightarrow>
      room_ok (conn_room (srv_conns s p)) (r\<lparr>room_password := w\<rparr>)"
    using inv_room_ok [OF inv host(2)] by (simp add: room_ok_def)
  show ?thesis
  proof (cases "(room_password r \<noteq> []) \<noteq> (w \<noteq> [])")
    case True
    then show ?thesis
      using host ok
      by (auto simp: HandleSetRoomPassword_def Let_def announces_def room_view_def
          intro!: handled_same handled_reply handled_announced)
  next
    case False
    then show ?thesis
      using host ok
      by (auto simp: HandleSetRoomPassword_def Let_def room_view_def
          intro!: handled_same handled_reply handled_silent)
  qed
qed

theorem HandleMessage_handled:
  assumes "server_inv s" and "codes_ok s" and "p \<in> srv_live s" and "fits m"
    and "HandleMessage p m s = Some s'"
  shows "handled s s'"
  using assms
  by (cases m)
    (auto simp del: fits_simps intro!: handled_same HandleCreateRoom_handled HandleJoinRoom_handled
      HandleLeaveRoom_handled HandleRoomChat_handled HandleP2PSignal_handled
      HandleSetRoomData_handled HandleSetMemberData_handled HandleKickMember_handled
      HandleBanMember_handled HandleTransferHost_handled HandleSetRoomJoinable_handled
      HandleSetRoomPassword_handled handled_reply)

section \<open>Every effect keeps the tables intact\<close>

lemma server_inv_rng [simp]: "server_inv (s\<lparr>srv_rng := g\<rparr>) = server_inv s"
  by (simp add: server_inv_def ids_ok_def agree_def)

lemma HandleJoinRoom_inv:
  assumes inv: "server_inv s" and p: "p \<in> srv_live s" and adm: "admitted s p k w r"
  shows "server_inv (HandleJoinRoom p k w s)"
proof -
  let ?i = "conn_id (srv_conns s p)"
  have "server_inv (set_conn_room p k
      (set_room k (Some (r\<lparr>room_members := room_members r @ [?i]\<rparr>))
        (SendAll ?i (hydration k r) (SendToMany (room_members r) (PeerJoined ?i) s))))"
    using adm server_inv_enter [of "SendAll ?i (hydration k r) (SendToMany (room_members r) (PeerJoined ?i) s)"
        p k r] inv p
    by (simp add: admitted_def)
  then show ?thesis by (simp add: HandleJoinRoom_admitted [OF adm] Let_def)
qed

lemma server_inv_banned:
  assumes "server_inv s" and "srv_rooms s k = Some r"
  shows "server_inv (set_room k (Some (r\<lparr>room_banned_members := B\<rparr>)) s)"
  using inv_room_ok [OF assms] by (intro server_inv_set_room [OF assms]) (simp_all add: room_ok_def)

lemma handled_inv: "handled s s' \<Longrightarrow> server_inv s \<Longrightarrow> server_inv s'"
proof (induction rule: handled.induct)
  case (handled_banned s k r p i r' B)
  then show ?case
    using server_inv_LeaveRoom [of "SendTo i BannedByHost (set_room k (Some r') s)" p]
      server_inv_banned [of s k r B] by simp
next
  case (handled_created p s k i rng)
  then show ?case
    using server_inv_enter_new [of "s\<lparr>srv_rng := rng\<rparr>" p k] by simp
next
  case (handled_left p s i m)
  then show ?case
    using server_inv_LeaveRoom [of "SendTo i m s" p] by simp
qed (auto simp: server_inv_set_room HandleJoinRoom_inv)

lemma LeaveRoom_frame:
  "srv_live (Server_LeaveRoom p s) = srv_live s"
  "srv_alloc (Server_LeaveRoom p s) = srv_alloc s"
  "srv_config (Server_LeaveRoom p s) = srv_config s"
  "srv_connections (Server_LeaveRoom p s) = srv_connections s"
  "srv_next_id (Server_LeaveRoom p s) = srv_next_id s"
  "conn_id (srv_conns (Server_LeaveRoom p s) q) = conn_id (srv_conns s q)"
  "conn_in (srv_conns (Server_LeaveRoom p s) q) = conn_in (srv_conns s q)"
  "conn_body (srv_conns (Server_LeaveRoom p s) q) = conn_body (srv_conns s q)"
  "conn_sent (srv_conns (Server_LeaveRoom p s) q) = conn_sent (srv_conns s q)"
  by (simp_all add: Server_LeaveRoom_def Let_def split: option.splits)

lemma LeaveRoom_rooms:
  "srv_rooms (Server_LeaveRoom p s) k = Some r \<Longrightarrow> \<exists>r'. srv_rooms s k = Some r'"
  by (auto simp: Server_LeaveRoom_def Let_def split: option.splits if_splits)

lemma LeaveRoom_dom: "dom (srv_rooms (Server_LeaveRoom p s)) \<subseteq> dom (srv_rooms s)"
proof
  fix k
  assume "k \<in> dom (srv_rooms (Server_LeaveRoom p s))"
  then show "k \<in> dom (srv_rooms s)" using LeaveRoom_rooms [of p s k] by auto
qed

lemma handled_frame:
  "handled s s' \<Longrightarrow> srv_live s' = srv_live s \<and> srv_alloc s' = srv_alloc s
     \<and> srv_config s' = srv_config s \<and> srv_connections s' = srv_connections s
     \<and> (\<forall>q. conn_id (srv_conns s' q) = conn_id (srv_conns s q)
           \<and> conn_body (srv_conns s' q) = conn_body (srv_conns s q))"
  by (induction rule: handled.induct)
    (simp_all add: LeaveRoom_frame HandleJoinRoom_admitted Let_def)

lemma codes_ok_mono:
  assumes "codes_ok s" and "srv_config s' = srv_config s"
    and "dom (srv_rooms s') \<subseteq> dom (srv_rooms s) \<union> {k. length k = unat (cfg_room_code_length (srv_config s))}"
  shows "codes_ok s'"
  using assms unfolding codes_ok_def by fastforce

lemma handled_codes: "handled s s' \<Longrightarrow> codes_ok s \<Longrightarrow> codes_ok s'"
proof (induction rule: handled.induct)
  case (handled_joined p s k w r)
  then have "k \<in> dom (srv_rooms s)" by (auto simp: admitted_def)
  then have "dom ((srv_rooms s)(k \<mapsto> r')) \<subseteq> dom (srv_rooms s)" for r' by auto
  then show ?case
    unfolding HandleJoinRoom_admitted [OF handled_joined(2)] Let_def
    by (intro codes_ok_mono [OF handled_joined(3)]) (simp_all add: le_supI1)
next
  case (handled_left p s i m)
  show ?case
    using LeaveRoom_dom [of p "SendTo i m s"]
    by (intro codes_ok_mono [OF handled_left(5)]) (simp_all add: LeaveRoom_frame le_supI1)
next
  case (handled_banned s k r p i r' B)
  let ?t = "SendTo i BannedByHost (set_room k (Some r') s)"
  have "dom (srv_rooms ?t) \<subseteq> dom (srv_rooms s)" using handled_banned(1) by auto
  then have "dom (srv_rooms (Server_LeaveRoom p ?t)) \<subseteq> dom (srv_rooms s)"
    by (rule subset_trans [OF LeaveRoom_dom])
  then show ?case
    by (intro codes_ok_mono [OF handled_banned(7)]) (simp_all add: LeaveRoom_frame le_supI1)
next
  case (handled_created p s k i rng)
  have "dom ((srv_rooms s)(k \<mapsto> new_room k i)) \<subseteq> dom (srv_rooms s) \<union> {k}" by auto
  then show ?case
    using handled_created(5) by (intro codes_ok_mono [OF handled_created(7)]) auto
qed (simp_all add: codes_ok_def)

end
