(* ===== verification/Server_Runs.thy ===== *)
theory Server_Runs
  imports Server_Effects
begin

text \<open>
  The invariant along runs: each step of the server, whatever bytes the clients
  send and however the coroutines interleave, is an effect of the previous
  theory framed by the bookkeeping of its coroutine.
\<close>

section \<open>Steps that only touch a connection's buffers\<close>

lemma server_inv_set_conn:
  "conn_id c = conn_id (srv_conns s p) \<Longrightarrow> conn_room c = conn_room (srv_conns s p) \<Longrightarrow>
   server_inv (set_conn p c s) = server_inv s"
  by (auto simp: server_inv_def ids_ok_def agree_def)

lemma codes_ok_set_conn [simp]: "codes_ok (set_conn p c s) = codes_ok s"
  by (simp add: codes_ok_def)

lemma arrive_inv: "server_inv (arrive p bs s) = server_inv s"
  by (simp add: arrive_def server_inv_set_conn)

lemma WriteLoop_inv: "server_inv (WriteLoop_turn p s) = server_inv s"
  by (simp add: WriteLoop_turn_def Let_def server_inv_set_conn split: list.splits)

lemma WriteLoop_resume_inv: "server_inv (WriteLoop_resume b p s) = server_inv s"
  by (simp add: WriteLoop_resume_def Let_def server_inv_set_conn split: option.splits)

section \<open>Reading\<close>

text \<open>A turn that goes on has either stored a fragment or handled one message within the cap.\<close>

lemma ReadLoop_next:
  assumes "ReadLoop_turn p s = Read_next s'"
  obtains (fragment) c where "s' = set_conn p c s" and "conn_id c = conn_id (srv_conns s p)"
      and "conn_room c = conn_room (srv_conns s p)" and "conn_sent c = conn_sent (srv_conns s p)"
      and "conn_out c = conn_out (srv_conns s p)" and "conn_flight c = conn_flight (srv_conns s p)"
      and "conn_writing c = conn_writing (srv_conns s p)"
  | (message) c m where "HandleMessage p m (set_conn p c s) = Some s'" and "fits m"
      and "conn_id c = conn_id (srv_conns s p)"
      and "conn_room c = conn_room (srv_conns s p)" and "conn_sent c = conn_sent (srv_conns s p)"
      and "conn_out c = conn_out (srv_conns s p)" and "conn_flight c = conn_flight (srv_conns s p)"
      and "conn_writing c = conn_writing (srv_conns s p)"
proof -
  define c where "c = srv_conns s p"
  obtain len more' where head: "DecodeFrameHeader (take frame_header_size (conn_in c)) = Some (len, more')"
    and cap: "length (conn_body c) + len \<le> max_reassembled_size"
    and all: "frame_header_size + len \<le> length (conn_in c)"
    using assms
    by (auto simp: ReadLoop_turn_def Let_def c_def split: if_splits option.splits)
  define body where "body = conn_body c @ take len (drop frame_header_size (conn_in c))"
  define c1 where "c1 = c\<lparr>conn_in := drop (frame_header_size + len) (conn_in c), conn_body := body\<rparr>"
  have turn: "ReadLoop_turn p s =
      (if more' then Read_next (set_conn p c1 s)
       else case in_ServerMessage body of
              Inl (Errc _) \<Rightarrow> Read_end
            | Inl (Undefined_bool _) \<Rightarrow> Read_undefined
            | Inr (msg, _) \<Rightarrow>
                (case HandleMessage p msg (set_conn p (c1\<lparr>conn_body := []\<rparr>) s) of
                   None \<Rightarrow> Read_stuck | Some s' \<Rightarrow> Read_next s'))"
    unfolding c1_def body_def using head cap all
    by (simp add: ReadLoop_turn_def Let_def c_def [symmetric]
        del: frame_header_size_def max_reassembled_size_def)
  show ?thesis
  proof (cases more')
    case True
    then show ?thesis using fragment [of c1] assms turn by (simp add: c1_def c_def)
  next
    case False
    then obtain m rest where m: "in_ServerMessage body = Inr (m, rest)"
      and h: "HandleMessage p m (set_conn p (c1\<lparr>conn_body := []\<rparr>) s) = Some s'"
      using assms turn by (auto split: sum.splits in_fault.splits option.splits)
    have "length body \<le> max_reassembled_size" using cap all by (simp add: body_def)
    then have "fits m" using m by (auto simp: in_ServerMessage_iff fits_def)
    then show ?thesis using message [OF h] by (simp add: c1_def c_def)
  qed
qed

lemma ReadLoop_inv:
  assumes "server_inv s" and "codes_ok s" and "p \<in> srv_live s" and "ReadLoop_turn p s = Read_next s'"
  shows "server_inv s' \<and> codes_ok s' \<and> srv_alloc s' = srv_alloc s \<and> srv_config s' = srv_config s"
  using assms(4)
proof (cases rule: ReadLoop_next)
  case (fragment c)
  then show ?thesis using assms by (simp add: server_inv_set_conn)
next
  case (message c m)
  let ?t = "set_conn p c s"
  have t: "server_inv ?t" "codes_ok ?t" "p \<in> srv_live ?t"
    using message assms by (simp_all add: server_inv_set_conn)
  have "handled ?t s'" by (rule HandleMessage_handled [OF t message(2,1)])
  then show ?thesis using handled_inv handled_codes handled_frame t by fastforce
qed

section \<open>Accepting\<close>

lemma of_nat_id_inject:
  assumes "p < 2 ^ 32" and "q < 2 ^ 32" and "(of_nat (Suc p) :: u32) = of_nat (Suc q)"
  shows "p = q"
proof -
  have "(of_nat p :: u32) = of_nat q" using assms(3) by simp
  then have "p mod 2 ^ 32 = q mod 2 ^ 32" by (simp add: word_of_nat_eq_iff take_bit_eq_mod)
  then show ?thesis using assms by simp
qed

lemma next_id_free:
  assumes inv: "server_inv s" and "ids_left s"
  shows "srv_connections s (srv_next_id s) = None"
proof (rule ccontr)
  assume "srv_connections s (srv_next_id s) \<noteq> None"
  then obtain p where p: "srv_connections s (srv_next_id s) = Some p" by blast
  have "p < srv_alloc s" "(of_nat (Suc p) :: u32) = of_nat (Suc (srv_alloc s))"
    using inv inv_lookup [OF inv p] by (auto simp: server_inv_def ids_ok_def)
  then show False using of_nat_id_inject [of p "srv_alloc s"] assms(2) by (simp add: ids_left_def)
qed

definition accepted :: "Server \<Rightarrow> Server" where
  "accepted s = set_conn (srv_alloc s) (new_connection (srv_next_id s))
     (s\<lparr>srv_next_id := srv_next_id s + 1, srv_alloc := Suc (srv_alloc s),
        srv_live := insert (srv_alloc s) (srv_live s),
        srv_connections := (srv_connections s)(srv_next_id s \<mapsto> srv_alloc s)\<rparr>)"

lemma AcceptLoop_eq:
  assumes "srv_connections s (srv_next_id s) = None"
  shows "AcceptLoop_turn s =
    SendTo (srv_next_id s) (IceServersMsg (cfg_ice (srv_config s)))
      (SendTo (srv_next_id s) (AssignClientId (srv_next_id s)) (accepted s))"
  using assms
  by (simp add: AcceptLoop_turn_def Session_begin_def Let_def accepted_def new_connection_def)

lemma accepted_inv:
  assumes inv: "server_inv s" and ids: "ids_left s"
  shows "server_inv (accepted s)"
proof -
  let ?i = "srv_next_id s"
  have new: "srv_alloc s \<notin> srv_live s" and alloc: "\<And>p. p \<in> srv_live s \<Longrightarrow> p < srv_alloc s"
    and id: "?i = of_nat (Suc (srv_alloc s))"
    using inv by (auto simp: server_inv_def ids_ok_def)
  have free: "srv_connections s ?i = None" by (rule next_id_free [OF inv ids])
  have other: "p \<in> srv_live s \<Longrightarrow> conn_id (srv_conns s p) \<noteq> ?i" for p
    using inv_registered [OF inv] free by fastforce
  have stranger: "\<not> (\<exists>r. srv_rooms s k = Some r \<and> ?i \<in> set (room_members r))" for k
    using inv free by (fastforce simp: server_inv_def agree_def)
  have "ids_ok (accepted s)"
    using inv free id alloc new other
    by (auto simp: server_inv_def ids_ok_def accepted_def new_connection_def less_Suc_eq)
  moreover have "agree (accepted s)"
    using inv stranger alloc
    by (auto simp: server_inv_def agree_def accepted_def new_connection_def)
  ultimately show ?thesis using inv by (simp add: server_inv_def accepted_def)
qed

lemma AcceptLoop_inv:
  assumes "server_inv s" and "ids_left s"
  shows "server_inv (AcceptLoop_turn s)"
  using accepted_inv [OF assms] by (simp add: AcceptLoop_eq [OF next_id_free [OF assms]])

section \<open>Ending a session\<close>

lemma LeaveRoom_conn_room:
  "conn_room (srv_conns (Server_LeaveRoom p s) q) = (if q = p then [] else conn_room (srv_conns s q))"
  by (auto simp: Server_LeaveRoom_def Let_def split: option.splits)

lemma server_inv_remove:
  assumes inv: "server_inv s" and p: "p \<in> srv_live s" and out: "conn_room (srv_conns s p) = []"
  shows "server_inv (s\<lparr>srv_connections := (srv_connections s)(conn_id (srv_conns s p) := None),
     srv_live := srv_live s - {p}\<rparr>)" (is "server_inv ?t")
proof -
  have "ids_ok ?t"
    using inv inv_id_inject [OF inv _ p] by (auto simp: server_inv_def ids_ok_def)
  moreover have "conn_id (srv_conns s p) \<notin> set (room_members r)" if "srv_rooms s k = Some r" for k r
    using inv_member_iff [OF inv that p] inv_room_ok [OF inv that] out by auto
  then have "agree ?t"
    using inv by (auto simp: server_inv_def agree_def)
  ultimately show ?thesis using inv by (simp add: server_inv_def)
qed

lemma Session_end_inv:
  assumes inv: "server_inv s" and p: "p \<in> srv_live s"
  shows "server_inv (Session_end p s)"
proof -
  let ?s1 = "set_conn p ((srv_conns s p)\<lparr>conn_closing := True, conn_waiting := False\<rparr>) s"
  have "server_inv (Server_LeaveRoom p ?s1)"
    using inv p by (intro server_inv_LeaveRoom) (simp_all add: server_inv_set_conn)
  then show ?thesis
    using p server_inv_remove [of "Server_LeaveRoom p ?s1" p]
    by (simp add: Session_end_def Let_def LeaveRoom_conn_room LeaveRoom_frame)
qed

lemma Session_end_frame:
  "srv_config (Session_end p s) = srv_config s" "srv_alloc (Session_end p s) = srv_alloc s"
  by (simp_all add: Session_end_def Let_def LeaveRoom_frame)

lemma Session_end_codes:
  assumes "codes_ok s"
  shows "codes_ok (Session_end p s)"
proof -
  let ?s1 = "set_conn p ((srv_conns s p)\<lparr>conn_closing := True, conn_waiting := False\<rparr>) s"
  have "dom (srv_rooms (Server_LeaveRoom p ?s1)) \<subseteq> dom (srv_rooms s)"
    using LeaveRoom_dom [of p ?s1] by simp
  then show ?thesis
    by (intro codes_ok_mono [OF assms]) (simp_all add: Session_end_def Let_def LeaveRoom_frame le_supI1)
qed

section \<open>Runs\<close>

inductive_cases server_stepE: "server_step s s'"

text \<open>No handler creates a connection.\<close>

lemma HostRoom_alloc: "HostRoom p s = (s', r) \<Longrightarrow> srv_alloc s' = srv_alloc s"
  by (auto simp: HostRoom_def Let_def split: option.splits if_splits)

lemma HandleJoinRoom_alloc: "srv_alloc (HandleJoinRoom p k w s) = srv_alloc s"
proof (cases "\<exists>r. admitted s p k w r")
  case True
  then obtain r where "admitted s p k w r" by blast
  then show ?thesis by (simp add: HandleJoinRoom_admitted Let_def)
next
  case False
  from HandleJoinRoom_refused [OF this] show ?thesis by auto
qed

lemma handler_alloc:
  "srv_alloc (HandleLeaveRoom p s) = srv_alloc s"
  "srv_alloc (HandleRoomChat p t s) = srv_alloc s"
  "srv_alloc (Server_HandleP2PSignal p i kind d s) = srv_alloc s"
  "srv_alloc (HandleSetRoomData p k v s) = srv_alloc s"
  "srv_alloc (HandleSetMemberData p k v s) = srv_alloc s"
  "srv_alloc (HandleKickMember p i s) = srv_alloc s"
  "srv_alloc (HandleBanMember p i s) = srv_alloc s"
  "srv_alloc (HandleTransferHost p i s) = srv_alloc s"
  "srv_alloc (HandleSetRoomJoinable p b s) = srv_alloc s"
  "srv_alloc (HandleSetRoomPassword p w s) = srv_alloc s"
  by (simp_all add: HandleLeaveRoom_def HandleRoomChat_def Server_HandleP2PSignal_def
      HandleSetRoomData_def HandleSetMemberData_def HandleKickMember_def HandleBanMember_def
      HandleTransferHost_def HandleSetRoomJoinable_def HandleSetRoomPassword_def Let_def
      LeaveRoom_frame HostRoom_alloc split: option.split prod.split sum.split bool.split)

lemma HandleMessage_alloc: "HandleMessage p m s = Some s' \<Longrightarrow> srv_alloc s' = srv_alloc s"
  by (cases m)
    (auto simp: handler_alloc HandleJoinRoom_alloc HandleCreateRoom_def Let_def split: if_splits option.splits)

lemma server_step_alloc: "server_step s s' \<Longrightarrow> srv_alloc s \<le> srv_alloc s'"
proof (induction rule: server_step.induct)
  case (step_accept s)
  then show ?case by (simp add: AcceptLoop_turn_def Session_begin_def Let_def)
next
  case (step_read p s s')
  then show ?case by (auto elim!: ReadLoop_next dest: HandleMessage_alloc)
qed (simp_all add: arrive_def Session_end_frame WriteLoop_turn_def WriteLoop_resume_def Let_def split: list.splits option.splits)

lemma server_step_inv:
  assumes "server_step s s'" and "server_inv s" and "codes_ok s" and "ids_left s'"
  shows "server_inv s' \<and> codes_ok s' \<and> srv_config s' = srv_config s"
  using assms
proof (induction rule: server_step.induct)
  case (step_accept s)
  then have "ids_left s" by (simp add: ids_left_def AcceptLoop_turn_def Session_begin_def Let_def)
  then show ?case
    using step_accept AcceptLoop_inv [of s]
    by (simp add: codes_ok_def AcceptLoop_turn_def Session_begin_def Let_def)
next
  case (step_receive p s bs)
  then show ?case by (simp add: arrive_inv, simp add: arrive_def)
next
  case (step_read p s s')
  then show ?case using ReadLoop_inv by blast
next
  case (step_finish p s)
  then show ?case by (simp add: Session_end_inv Session_end_codes, simp add: Session_end_frame)
next
  case (step_write p s)
  then show ?case by (simp add: WriteLoop_inv, simp add: WriteLoop_turn_def Let_def split: list.splits)
next
  case (step_written p s written)
  then show ?case
    by (simp add: WriteLoop_resume_inv, simp add: WriteLoop_resume_def Let_def split: option.splits)
qed

text \<open>Invariants of bounded runs, from any property the steps keep.\<close>

lemma server_run_inv:
  assumes "server_run s0 s" and "ids_left s" and "server_inv s0" and "codes_ok s0"
  shows "server_inv s \<and> codes_ok s \<and> srv_config s = srv_config s0"
  using assms
proof (induction rule: server_run.induct)
  case (run_refl s)
  then show ?case by simp
next
  case (run_step s t u)
  have "ids_left t" using server_step_alloc [OF run_step.hyps(2)] run_step.prems(1) by (simp add: ids_left_def)
  then show ?case using run_step server_step_inv by simp
qed

text \<open>The state a server starts from.\<close>

lemma server_inv_Init: "server_inv (fst (Server_Init cfg a b c d (new_server rng cfg')))"
  by (simp add: Server_Init_def Let_def init_config_def new_server_def server_inv_def ids_ok_def agree_def)

lemma codes_ok_Init:
  "config_ok cfg \<Longrightarrow> codes_ok (fst (Server_Init cfg a b c d (new_server rng cfg')))"
  by (simp add: Server_Init_def Let_def init_config_def new_server_def codes_ok_def config_ok_def)

text \<open>
  A further invariant of the server: true at the start and kept by every step from a consistent state.
  Such a property holds in every state a started server can reach before its ids run out.
\<close>

locale server_policy =
  fixes Q :: "Server \<Rightarrow> bool"
  assumes at_start: "Q (fst (Server_Init cfg a b c d (new_server rng cfg')))"
    and kept: "server_step s s' \<Longrightarrow> server_inv s \<Longrightarrow> codes_ok s \<Longrightarrow> Q s \<Longrightarrow> Q s'"
begin

lemma reachable:
  assumes "config_ok cfg" and "server_run (fst (Server_Init cfg a b c d (new_server rng cfg'))) s" and "ids_left s"
  shows "server_inv s \<and> codes_ok s \<and> Q s"
  using assms(2,3)
proof (induction "fst (Server_Init cfg a b c d (new_server rng cfg'))" s rule: server_run.induct)
  case run_refl
  then show ?case using at_start server_inv_Init codes_ok_Init [OF assms(1)] by blast
next
  case (run_step t u)
  have "ids_left t"
    using server_step_alloc [OF run_step.hyps(3)] run_step.prems by (simp add: ids_left_def)
  from run_step.hyps(2) [OF this] show ?case
    using kept [OF run_step.hyps(3)] server_step_inv [OF run_step.hyps(3)] run_step.prems by blast
qed

end

end
