(* ===== verification/Coherence.thy ===== *)
theory Coherence
  imports Server_Runs
begin

text \<open>
  The server's side of the contract of \<open>Room_View\<close>: whatever has been written to a
  client's socket, is being written or still waits in its queue, read in order, is a
  sequence of messages within the cap whose replay is exactly the room the
  server has the client in, or the empty view of a client outside every room.
\<close>

definition stream :: "Server \<Rightarrow> nat \<Rightarrow> bytes list" where
  "stream s p = conn_sent (srv_conns s p)
     @ (case conn_flight (srv_conns s p) of None \<Rightarrow> [] | Some f \<Rightarrow> [f]) @ conn_out (srv_conns s p)"

fun view_in :: "u32 \<Rightarrow> Room option \<Rightarrow> RoomView" where
  "view_in i None = lobby_view i"
| "view_in i (Some r) = room_view i r"

definition expected_view :: "Server \<Rightarrow> nat \<Rightarrow> RoomView" where
  "expected_view s p =
     view_in (conn_id (srv_conns s p)) (srv_rooms s (conn_room (srv_conns s p)))"

definition coherent_conn :: "Server \<Rightarrow> nat \<Rightarrow> bool" where
  "coherent_conn s p \<longleftrightarrow>
     (\<exists>ms. stream s p = map FrameMessage ms \<and> list_all sendable ms
        \<and> observe_all ms (lobby_view 0) = expected_view s p)"

definition coherent :: "Server \<Rightarrow> bool" where
  "coherent s \<longleftrightarrow> (\<forall>p \<in> srv_live s. conn_writing (srv_conns s p) \<longrightarrow> coherent_conn s p)"

text \<open>A connection that gets \<open>ms\<close> appended and whose expected view moves accordingly.\<close>

definition advances :: "Server \<Rightarrow> Server \<Rightarrow> nat \<Rightarrow> ServerMessage list \<Rightarrow> bool" where
  "advances s s' p ms \<longleftrightarrow>
     stream s' p = stream s p @ map FrameMessage ms \<and> list_all sendable ms
     \<and> observe_all ms (expected_view s p) = expected_view s' p
     \<and> conn_writing (srv_conns s' p) = conn_writing (srv_conns s p)"

lemma coherent_advance: "coherent_conn s p \<Longrightarrow> advances s s' p ms \<Longrightarrow> coherent_conn s' p"
  unfolding coherent_conn_def advances_def
  by (metis list_all_append map_append observe_all_simps(3))

lemma coherent_step:
  assumes "coherent s" and "srv_live s' = srv_live s"
    and "\<And>p. p \<in> srv_live s \<Longrightarrow> \<exists>ms. advances s s' p ms"
  shows "coherent s'"
  using assms coherent_advance unfolding coherent_def by (metis advances_def)

section \<open>What sending adds to a stream\<close>

lemma stream_SendFrame:
  "stream (SendFrame i f s) p = stream s p @ (if srv_connections s i = Some p then [f] else [])"
  by (auto simp: stream_def SendFrame_def Enqueue_def split: option.splits)

lemma stream_SendTo:
  "stream (SendTo i m s) p = stream s p @ map FrameMessage (if srv_connections s i = Some p then [m] else [])"
  by (simp add: SendTo_def stream_SendFrame)

lemma stream_SendAll:
  "stream (SendAll i ms s) p =
     stream s p @ map FrameMessage (if srv_connections s i = Some p then ms else [])"
  by (induction ms arbitrary: s) (simp_all add: SendAll_def stream_SendTo)

definition copies :: "Server \<Rightarrow> nat \<Rightarrow> u32 list \<Rightarrow> ServerMessage \<Rightarrow> ServerMessage list" where
  "copies s p ids m = concat (map (\<lambda>i. if srv_connections s i = Some p then [m] else []) ids)"

lemma stream_SendToMany: "stream (SendToMany ids m s) p = stream s p @ map FrameMessage (copies s p ids m)"
proof -
  have "stream (foldl (\<lambda>s i. SendFrame i (FrameMessage m) s) s ids) p =
      stream s p @ map FrameMessage (copies s p ids m)"
    by (induction ids arbitrary: s) (simp_all add: copies_def stream_SendFrame)
  then show ?thesis by (simp add: SendToMany_def Let_def)
qed

lemma stream_set_room [simp]: "stream (set_room k r s) p = stream s p"
  by (simp add: stream_def)

lemma stream_set_conn_room [simp]: "stream (set_conn_room q k s) p = stream s p"
  by (simp add: stream_def)

lemma stream_rng [simp]: "stream (s\<lparr>srv_rng := g\<rparr>) p = stream s p"
  by (simp add: stream_def)

lemma copies_absent: "(\<And>i. i \<in> set ids \<Longrightarrow> srv_connections s i \<noteq> Some p) \<Longrightarrow> copies s p ids m = []"
  by (auto simp: copies_def)

lemma registered_iff:
  "server_inv s \<Longrightarrow> p \<in> srv_live s \<Longrightarrow> srv_connections s i = Some p \<longleftrightarrow> conn_id (srv_conns s p) = i"
  using inv_lookup [of s i p] inv_registered [of s p] by auto

lemma copies_inv:
  assumes inv: "server_inv s" and p: "p \<in> srv_live s" and "distinct ids"
  shows "copies s p ids m = (if conn_id (srv_conns s p) \<in> set ids then [m] else [])"
proof -
  have eq: "srv_connections s i = Some p \<longleftrightarrow> i = conn_id (srv_conns s p)" for i
    using registered_iff [OF inv p, of i] by auto
  from assms(3) show ?thesis
    by (induction ids) (auto simp: copies_def eq)
qed

lemma copies_all: "set (copies s p ids m) \<subseteq> {m}"
  by (auto simp: copies_def)

lemma conn_writing_set_conn_room [simp]:
  "conn_writing (srv_conns (set_conn_room q k s) p) = conn_writing (srv_conns s p)"
  by (simp add: set_conn_room_def)

lemma conn_writing_SendAll [simp]:
  "conn_writing (srv_conns (SendAll i ms s) p) = conn_writing (srv_conns s p)"
  unfolding SendAll_def by (rule foldl_keeps) simp

section \<open>Effects keep every client's view\<close>

lemma observe_all_quiet: "(\<And>m. m \<in> set ms \<Longrightarrow> quiet m) \<Longrightarrow> observe_all ms v = v"
  by (induction ms arbitrary: v) (simp_all add: observe_quiet)

lemma expected_view_eqI:
  "conn_room (srv_conns s' p) = conn_room (srv_conns s p) \<Longrightarrow>
   conn_id (srv_conns s' p) = conn_id (srv_conns s p) \<Longrightarrow>
   srv_rooms s' (conn_room (srv_conns s p)) = srv_rooms s (conn_room (srv_conns s p)) \<Longrightarrow>
   expected_view s' p = expected_view s p"
  by (simp add: expected_view_def)

lemma advances_quiet:
  assumes "stream s' p = stream s p @ map FrameMessage ms" and "\<And>m. m \<in> set ms \<Longrightarrow> quiet m \<and> fits m"
    and "expected_view s' p = expected_view s p" and "conn_writing (srv_conns s' p) = conn_writing (srv_conns s p)"
  shows "advances s s' p ms"
  using assms observe_all_quiet [of ms] by (simp add: advances_def list_all_iff quiet_from_server)

lemma advances_SendTo: "quiet m \<Longrightarrow> fits m \<Longrightarrow> \<exists>ms. advances s (SendTo i m s) p ms"
  by (rule exI, rule advances_quiet, rule stream_SendTo)
    (auto simp: expected_view_def split: if_splits)

lemma advances_SendToMany: "quiet m \<Longrightarrow> fits m \<Longrightarrow> \<exists>ms. advances s (SendToMany is m s) p ms"
  by (rule exI, rule advances_quiet, rule stream_SendToMany)
    (auto simp: expected_view_def dest!: subsetD [OF copies_all])

lemma advances_update:
  assumes inv: "server_inv s" and p: "p \<in> srv_live s" and r: "srv_rooms s k = Some r"
    and m: "sendable m" "announces m r r'"
  shows "\<exists>ms. advances s (SendToMany (room_members r) m (set_room k (Some r') s)) p ms"
proof -
  let ?i = "conn_id (srv_conns s p)"
  have d: "distinct (room_members r)" using inv_room_ok [OF inv r] by (simp add: room_ok_def)
  have "copies (set_room k (Some r') s) p (room_members r) m = copies s p (room_members r) m"
    by (simp add: copies_def)
  then have "advances s (SendToMany (room_members r) m (set_room k (Some r') s)) p
      (if ?i \<in> set (room_members r) then [m] else [])"
    using m r copies_inv [OF inv p d, of m] inv_member_iff [OF inv r p]
    by (auto simp: advances_def stream_SendToMany expected_view_def announces_def)
  then show ?thesis ..
qed

lemma advances_create:
  assumes inv: "server_inv s" and q: "q \<in> srv_live s" and p: "p \<in> srv_live s"
    and out: "conn_room (srv_conns s p) = []" and k: "srv_rooms s k = None" "k \<noteq> []"
    and len: "length k \<le> 16379" and i: "i = conn_id (srv_conns s p)"
  shows "\<exists>ms. advances s (SendTo i (HostChanged i) (SendTo i (AssignRoomId k)
       (set_conn_room p k (set_room k (Some (new_room k i)) (s\<lparr>srv_rng := rng\<rparr>))))) q ms"
proof -
  have none: "srv_rooms s [] = None" by (rule inv_no_empty_room [OF inv])
  have q_k: "conn_room (srv_conns s q) \<noteq> k"
    using inv_room_exists [OF inv q] k by fastforce
  have "advances s (SendTo i (HostChanged i) (SendTo i (AssignRoomId k)
       (set_conn_room p k (set_room k (Some (new_room k i)) (s\<lparr>srv_rng := rng\<rparr>))))) q
       (if q = p then [AssignRoomId k, HostChanged i] else [])" (is "advances s ?s' q _")
  proof (cases "q = p")
    case True
    then show ?thesis
      using registered_iff [OF inv q, of i] none out i len
      by (simp add: advances_def stream_SendTo expected_view_def room_view_def lobby_view_def new_room_def)
  next
    case False
    then have "srv_connections s i \<noteq> Some q"
      using registered_iff [OF inv q, of i] inv_id_inject [OF inv q p] i by simp
    moreover have "expected_view ?s' q = expected_view s q"
      using False q_k none k by (intro expected_view_eqI) auto
    ultimately show ?thesis using False by (simp add: advances_def stream_SendTo)
  qed
  then show ?thesis ..
qed

section \<open>Joining\<close>

lemma observe_hydration:
  assumes ok: "room_ok k r" and i: "i \<notin> set (room_members r)"
  shows "observe_all (hydration k r) (lobby_view i) =
     room_view i (r\<lparr>room_members := room_members r @ [i]\<rparr>)"
proof -
  have data: "\<forall>(key, value) \<in> set (room_data r). value \<noteq> []"
    and rebuild: "foldl (\<lambda>m p. sm_put (fst p) (snd p) m) [] (room_data r) = room_data r"
    using ok sm_rebuild [of "[]" "room_data r"] by (auto simp: room_ok_def)
  have md: "sm_wf ([] @ room_member_data r)"
    "\<forall>(i, d) \<in> set (room_member_data r). d \<noteq> [] \<and> sm_wf d \<and> (\<forall>(k, x) \<in> set d. x \<noteq> [])"
    using ok by (fastforce simp: room_ok_def)+
  show ?thesis
    using ok i
    by (simp add: hydration_def observe_joined observe_data [OF data] rebuild observe_members [OF md]
        lobby_view_def room_view_def room_ok_def)
qed

lemma sendable_hydration:
  assumes ok: "room_ok k r" and k: "length k \<le> 16379"
  shows "list_all sendable (hydration k r)"
proof -
  have "\<forall>(key, value) \<in> set (room_data r). fits (RoomDataChanged key value)"
    using ok good_pair_fits by (fastforce simp: room_ok_def simp del: fits_simps)
  moreover have "\<forall>(i, d) \<in> set (room_member_data r). \<forall>(key, value) \<in> set d. fits (MemberDataChanged i key value)"
    using ok good_pair_fits by (fastforce simp: room_ok_def simp del: fits_simps)
  ultimately show ?thesis
    using k by (fastforce simp: hydration_def list_all_iff)
qed

lemma advances_join:
  assumes inv: "server_inv s" and p: "p \<in> srv_live s" and adm: "admitted s p k w r"
    and q: "q \<in> srv_live s" and len: "length k \<le> 16379"
  shows "\<exists>ms. advances s (HandleJoinRoom p k w s) q ms"
proof -
  let ?i = "conn_id (srv_conns s p)" and ?j = "conn_id (srv_conns s q)"
  have r: "srv_rooms s k = Some r" and out: "conn_room (srv_conns s p) = []"
    using adm by (auto simp: admitted_def)
  have ok: "room_ok k r" "k \<noteq> []" using inv_room_ok [OF inv r] by auto
  then have d: "distinct (room_members r)" by (simp add: room_ok_def)
  have i: "?i \<notin> set (room_members r)" using inv_member_iff [OF inv r p] out ok by simp
  have none: "srv_rooms s [] = None" by (rule inv_no_empty_room [OF inv])
  note parts = HandleJoinRoom_admitted [OF adm] Let_def advances_def stream_SendAll stream_SendToMany
    copies_inv [OF inv q d] expected_view_def
  have "advances s (HandleJoinRoom p k w s) q
      (if q = p then hydration k r else if ?j \<in> set (room_members r) then [PeerJoined ?i] else [])"
  proof (cases "q = p")
    case True
    then show ?thesis
      using i out none inv_registered [OF inv p] sendable_hydration [OF ok(1) len] observe_hydration [OF ok(1) i]
      by (simp add: parts [unfolded True] copies_inv [OF inv p d])
  next
    case False
    then have "srv_connections s ?i \<noteq> Some q" "?j \<noteq> ?i"
      using registered_iff [OF inv q, of ?i] inv_id_inject [OF inv q p] by auto
    then show ?thesis
      using False inv_member_iff [OF inv r q] r by (auto simp: parts room_view_def)
  qed
  then show ?thesis ..
qed

section \<open>Leaving\<close>

lemma foldl_SendToMany_frame:
  "srv_rooms (foldl (\<lambda>s m. SendToMany ids m s) s ms) = srv_rooms s"
  "conn_id (srv_conns (foldl (\<lambda>s m. SendToMany ids m s) s ms) q) = conn_id (srv_conns s q)"
  "conn_room (srv_conns (foldl (\<lambda>s m. SendToMany ids m s) s ms) q) = conn_room (srv_conns s q)"
  "conn_writing (srv_conns (foldl (\<lambda>s m. SendToMany ids m s) s ms) q) = conn_writing (srv_conns s q)"
  by (rule foldl_keeps, simp)+

lemma stream_foldl:
  "stream (foldl (\<lambda>s m. SendToMany ids m s) s ms) q =
     stream s q @ map FrameMessage (concat (map (copies s q ids) ms))"
proof (induction ms arbitrary: s)
  case Nil
  then show ?case by simp
next
  case (Cons m ms)
  have "copies (SendToMany ids m s) q ids = copies s q ids" by (simp add: copies_def fun_eq_iff)
  then show ?case by (simp add: Cons.IH stream_SendToMany)
qed

lemma observe_leave_notices:
  assumes "i \<noteq> j" and "room_ok k r" and "j \<in> set (room_members r)"
  shows "observe_all (leave_notices i r) (room_view j r) = room_view j (without_member i r)"
  using assms by (auto simp: leave_notices_def room_view_def without_member_def Let_def conj_commute)

lemma concat_map_single: "concat (map (\<lambda>m. if b then [m] else []) ms) = (if b then ms else [])"
  by (induction ms) auto

lemma leave_other:
  assumes inv: "server_inv s" and p: "p \<in> srv_live s" and q: "q \<in> srv_live s" "q \<noteq> p"
    and k: "conn_room (srv_conns s p) \<noteq> []"
  shows "\<exists>ms. advances s (Server_LeaveRoom p s) q ms"
proof -
  let ?i = "conn_id (srv_conns s p)" and ?j = "conn_id (srv_conns s q)" and ?k = "conn_room (srv_conns s p)"
  obtain r where r: "srv_rooms s ?k = Some r" using inv_room_exists [OF inv p k] by blast
  have ok: "room_ok ?k r" using inv_room_ok [OF inv r] by auto
  then have d: "distinct (filter (\<lambda>j. j \<noteq> ?i) (room_members r))" by (simp add: room_ok_def)
  have ne: "?j \<noteq> ?i" using inv_id_inject [OF inv q(1) p] q(2) by simp
  have copies: "copies (set_room ?k x s) q (filter (\<lambda>j. j \<noteq> ?i) (room_members r)) m =
      (if ?j \<in> set (room_members r) then [m] else [])" for x m
    using copies_inv [OF inv q(1) d, of m] ne by (simp add: copies_def)
  have mem: "?j \<in> set (room_members r) \<longleftrightarrow> conn_room (srv_conns s q) = ?k"
    by (rule inv_member_iff [OF inv r q(1)])
  have rem: "?j \<in> set (room_members r) \<Longrightarrow> remaining_room ?i r = Some (without_member ?i r)"
    using ne by (auto simp: remaining_room_def)
  have "advances s (Server_LeaveRoom p s) q
      (if ?j \<in> set (room_members r) then leave_notices ?i r else [])"
    using q(2) mem rem ok r ne observe_leave_notices [of ?i ?j ?k r]
    by (auto simp: LeaveRoom_eq [OF refl k r refl] advances_def stream_foldl copies concat_map_single
        expected_view_def foldl_SendToMany_frame leave_notices_def simp del: observe_all_simps(2))
  then show ?thesis ..
qed

lemma leave_self:
  assumes inv: "server_inv s" and p: "p \<in> srv_live s" and k: "conn_room (srv_conns s p) \<noteq> []"
    and i: "i = conn_id (srv_conns s p)" and m: "m \<in> {PeerLeft i, KickedByHost, BannedByHost}"
  shows "\<exists>ms. advances s (Server_LeaveRoom p (SendTo i m s)) p ms"
proof -
  let ?k = "conn_room (srv_conns s p)" and ?t = "SendTo i m s"
  obtain r where r: "srv_rooms s ?k = Some r" using inv_room_exists [OF inv p k] by blast
  have none: "srv_rooms s [] = None" by (rule inv_no_empty_room [OF inv])
  have own: "srv_connections s j = Some p \<longleftrightarrow> i = j" for j
    using registered_iff [OF inv p, of j] i by simp
  have copies: "copies (set_room ?k x ?t) p (filter (\<lambda>j. j \<noteq> i) (room_members r)) n = []" for x n
    by (rule copies_absent) (auto simp: own)
  have leave: "Server_LeaveRoom p ?t = set_conn_room p []
      (foldl (\<lambda>s m. SendToMany (filter (\<lambda>j. j \<noteq> i) (room_members r)) m s)
         (set_room ?k (remaining_room i r) ?t)
         (if set (room_members r) \<subseteq> {i} then [] else leave_notices i r))"
    by (rule LeaveRoom_eq) (simp_all add: k r i)
  have "observe m (room_view i r) = lobby_view i" and "sendable m"
    using m by (auto simp: room_view_def)
  then have "advances s (Server_LeaveRoom p ?t) p [m]"
    using r none k
    by (simp add: leave advances_def stream_foldl copies stream_SendTo own expected_view_def
        foldl_SendToMany_frame i [symmetric])
  then show ?thesis ..
qed

section \<open>Every effect, every step\<close>

lemma advances_frame:
  assumes "advances t u q ms" and "stream t q = stream s q" and "expected_view t q = expected_view s q"
    and "conn_writing (srv_conns t q) = conn_writing (srv_conns s q)"
  shows "advances s u q ms"
  using assms by (simp add: advances_def)

lemma advances_left:
  assumes inv: "server_inv s" and p: "p \<in> srv_live s" and k: "conn_room (srv_conns s p) \<noteq> []"
    and i: "i = conn_id (srv_conns s p)" and m: "m \<in> {PeerLeft i, KickedByHost, BannedByHost}"
    and q: "q \<in> srv_live s"
  shows "\<exists>ms. advances s (Server_LeaveRoom p (SendTo i m s)) q ms"
proof (cases "q = p")
  case True
  then show ?thesis using leave_self [OF assms(1-5)] by simp
next
  case False
  then have "srv_connections s i \<noteq> Some q"
    using registered_iff [OF inv q, of i] inv_id_inject [OF inv q p] i by simp
  then have same: "stream (SendTo i m s) q = stream s q" by (simp add: stream_SendTo)
  obtain ms where "advances (SendTo i m s) (Server_LeaveRoom p (SendTo i m s)) q ms"
    using leave_other [of "SendTo i m s" p q] inv p q False k by auto
  from advances_frame [OF this same] show ?thesis by (auto simp: expected_view_def)
qed

lemma handled_coherent:
  assumes "handled s s'" and "server_inv s" and "codes_ok s" and "coherent s"
  shows "coherent s'"
  using assms
proof (induction rule: handled.induct)
  case (handled_same s)
  then show ?case by simp
next
  case (handled_reply m s i)
  show ?case by (rule coherent_step [OF handled_reply(5)]) (simp_all add: advances_SendTo handled_reply)
next
  case (handled_broadcast m s "is")
  show ?case by (rule coherent_step [OF handled_broadcast(5)]) (simp_all add: advances_SendToMany handled_broadcast)
next
  case (handled_silent s k r r')
  then have "advances s (set_room k (Some r') s) p []" for p
    by (simp add: advances_def expected_view_def)
  then show ?case by (intro coherent_step [OF handled_silent(8)]) auto
next
  case (handled_announced s k r r' m)
  show ?case
    by (rule coherent_step [OF handled_announced(9)])
      (simp_all add: advances_update [OF handled_announced(7) _ handled_announced(1,4,5)])
next
  case (handled_created p s k i rng)
  then have "length k \<le> 16379" by (simp add: codes_ok_def)
  from advances_create [OF handled_created(7) _ handled_created(1-4) this handled_created(6)]
  show ?case by (intro coherent_step [OF handled_created(9)]) simp_all
next
  case (handled_joined p s k w r)
  then have "srv_rooms s k = Some r" by (simp add: admitted_def)
  then have "length k \<le> 16379" using handled_joined by (auto simp: codes_ok_def)
  then show ?case
    using handled_joined handled_frame [OF handled.handled_joined [OF handled_joined(1,2)]]
    by (intro coherent_step [OF handled_joined(5)] advances_join) auto
next
  case (handled_left p s i m)
  show ?case
    by (rule coherent_step [OF handled_left(7)])
      (simp_all add: LeaveRoom_frame advances_left [OF handled_left(5,1-4)])
next
  case (handled_banned s k r p i r' B)
  let ?t = "set_room k (Some r') s"
  have t: "server_inv ?t" using server_inv_banned handled_banned by simp
  have same: "stream ?t q = stream s q" "expected_view ?t q = expected_view s q" for q
    using handled_banned by (simp_all add: expected_view_def room_view_def)
  have "k \<noteq> []" using inv_room_ok handled_banned by blast
  then have "\<exists>ms. advances ?t (Server_LeaveRoom p (SendTo i BannedByHost ?t)) q ms" if "q \<in> srv_live s" for q
    using handled_banned that by (intro advances_left [OF t]) simp_all
  then show ?case
    using advances_frame [OF _ same]
    by (intro coherent_step [OF handled_banned(9)]) (simp add: LeaveRoom_frame, fastforce)
qed

lemma coherent_set_conn:
  assumes "conn_id c = conn_id (srv_conns s p)" and "conn_room c = conn_room (srv_conns s p)"
    and "conn_sent c @ (case conn_flight c of None \<Rightarrow> [] | Some f \<Rightarrow> [f]) @ conn_out c = stream s p"
    and "conn_writing c \<Longrightarrow> conn_writing (srv_conns s p)"
    and "coherent s"
  shows "coherent (set_conn p c s)"
proof -
  have "expected_view (set_conn p c s) q = expected_view s q"
    and "stream (set_conn p c s) q = stream s q" for q
    using assms by (auto simp: expected_view_def stream_def)
  then show ?thesis using assms(4,5) by (auto simp: coherent_def coherent_conn_def)
qed

text \<open>A connection whose writing has stopped is promised nothing any more.\<close>

lemma coherent_stop:
  assumes "conn_id c = conn_id (srv_conns s p)" and "conn_room c = conn_room (srv_conns s p)"
    and "\<not> conn_writing c" and "coherent s"
  shows "coherent (set_conn p c s)"
proof -
  have "q \<noteq> p \<Longrightarrow> expected_view (set_conn p c s) q = expected_view s q \<and> stream (set_conn p c s) q = stream s q" for q
    by (simp add: expected_view_def stream_def)
  then show ?thesis using assms(3,4) by (simp add: coherent_def coherent_conn_def)
qed

lemma arrive_coherent: "coherent s \<Longrightarrow> coherent (arrive p bs s)"
  unfolding arrive_def by (rule coherent_set_conn) (simp_all add: stream_def)

lemma WriteLoop_coherent:
  assumes co: "coherent s"
  shows "coherent (WriteLoop_turn p s)"
proof (cases "conn_writing (srv_conns s p) \<and> conn_flight (srv_conns s p) = None \<and> \<not> conn_closing (srv_conns s p)")
  case True
  show ?thesis
  proof (cases "conn_out (srv_conns s p)")
    case (Cons f fs)
    then have "coherent (set_conn p ((srv_conns s p)\<lparr>conn_out := fs, conn_flight := Some f\<rparr>) s)"
      using co True by (intro coherent_set_conn) (simp_all add: stream_def)
    then show ?thesis using True Cons co by (simp add: WriteLoop_turn_def Let_def)
  next
    case Nil
    have "coherent (set_conn p ((srv_conns s p)\<lparr>conn_waiting := True\<rparr>) s)"
      using co by (intro coherent_set_conn) (simp_all add: stream_def)
    then show ?thesis using True Nil co by (simp add: WriteLoop_turn_def Let_def)
  qed
next
  case False
  then show ?thesis using co by (auto simp: WriteLoop_turn_def Let_def intro: coherent_stop)
qed

lemma WriteLoop_resume_coherent:
  assumes co: "coherent s"
  shows "coherent (WriteLoop_resume b p s)"
proof (cases "conn_flight (srv_conns s p)")
  case (Some f)
  have "coherent (set_conn p ((srv_conns s p)\<lparr>conn_flight := None, conn_sent := conn_sent (srv_conns s p) @ [f]\<rparr>) s)"
    using co Some by (intro coherent_set_conn) (simp_all add: stream_def)
  then show ?thesis
    using co Some by (auto simp: WriteLoop_resume_def Let_def intro: coherent_stop)
qed (use co in \<open>simp add: WriteLoop_resume_def\<close>)

lemma ReadLoop_coherent:
  assumes "server_inv s" and "codes_ok s" and "p \<in> srv_live s" and "coherent s"
    and "ReadLoop_turn p s = Read_next s'"
  shows "coherent s'"
  using assms(5)
proof (cases rule: ReadLoop_next)
  case (fragment c)
  then show ?thesis using assms(4) coherent_set_conn [of c s p] by (simp add: stream_def)
next
  case (message c m)
  have t: "server_inv (set_conn p c s)" "codes_ok (set_conn p c s)" "p \<in> srv_live (set_conn p c s)"
    using message assms by (simp_all add: server_inv_set_conn)
  have "coherent (set_conn p c s)"
    using assms(4) message coherent_set_conn [of c s p] by (simp add: stream_def)
  then show ?thesis
    using handled_coherent [OF HandleMessage_handled [OF t message(2,1)] t(1,2)] by simp
qed

lemma AcceptLoop_coherent:
  assumes inv: "server_inv s" and ids: "ids_left s" and cfg: "config_ok (srv_config s)" and co: "coherent s"
  shows "coherent (AcceptLoop_turn s)"
proof -
  let ?n = "srv_alloc s" and ?i = "srv_next_id s" and ?ice = "cfg_ice (srv_config s)"
  let ?t = "accepted s" and ?u = "AcceptLoop_turn s"
  have new: "?n \<notin> srv_live s" using inv by (auto simp: server_inv_def ids_ok_def)
  have none: "srv_rooms s [] = None" by (rule inv_no_empty_room [OF inv])
  have table: "srv_connections ?t ?i = Some ?n"
    by (simp add: accepted_def)
  have u: "?u = SendTo ?i (IceServersMsg ?ice) (SendTo ?i (AssignClientId ?i) ?t)"
    by (rule AcceptLoop_eq [OF next_id_free [OF inv ids]])
  have "stream ?u ?n = map FrameMessage [AssignClientId ?i, IceServersMsg ?ice]"
    by (simp add: u stream_SendTo table, simp add: stream_def accepted_def new_connection_def)
  moreover have "expected_view ?u ?n = lobby_view ?i"
    using none by (simp add: u expected_view_def accepted_def new_connection_def)
  ultimately have "coherent_conn ?u ?n"
    using cfg unfolding coherent_conn_def
    by (intro exI [of _ "[AssignClientId ?i, IceServersMsg ?ice]"]) (simp add: config_ok_def lobby_view_def)
  moreover have "coherent_conn ?u q" if "q \<in> srv_live s" "conn_writing (srv_conns ?u q)" for q
  proof -
    have "q \<noteq> ?n" using new that by blast
    then have "stream ?u q = stream s q" "expected_view ?u q = expected_view s q"
      "conn_writing (srv_conns ?u q) = conn_writing (srv_conns s q)"
      by (simp_all add: u stream_SendTo table, simp_all add: stream_def expected_view_def accepted_def)
    then show ?thesis using co that by (simp add: coherent_def coherent_conn_def)
  qed
  moreover have "srv_live ?u = insert ?n (srv_live s)" by (simp add: u accepted_def)
  ultimately show ?thesis by (auto simp: coherent_def)
qed

lemma Session_end_coherent:
  assumes inv: "server_inv s" and p: "p \<in> srv_live s" and co: "coherent s"
  shows "coherent (Session_end p s)"
proof -
  define t where "t = set_conn p ((srv_conns s p)\<lparr>conn_closing := True, conn_waiting := False\<rparr>) s"
  have t: "server_inv t" "p \<in> srv_live t" "coherent t" "srv_live t = srv_live s"
    using inv p co unfolding t_def
    by (simp_all add: server_inv_set_conn) (rule coherent_set_conn; simp add: stream_def)
  let ?u = "Server_LeaveRoom p t"
  have "coherent_conn ?u q" if q: "q \<in> srv_live s" "q \<noteq> p" "conn_writing (srv_conns ?u q)" for q
  proof (cases "conn_room (srv_conns t p) = []")
    case True
    then show ?thesis using t q by (simp add: coherent_def)
  next
    case False
    obtain ms where ms: "advances t ?u q ms" using leave_other [OF t(1,2) _ q(2) False] q t by auto
    then have "coherent_conn t q" using t q by (simp add: coherent_def advances_def)
    then show ?thesis using ms by (rule coherent_advance)
  qed
  then show ?thesis
    by (simp add: Session_end_def Let_def t_def [symmetric] coherent_def coherent_conn_def stream_def
        expected_view_def LeaveRoom_frame t)
qed

lemma server_step_coherent:
  assumes "server_step s s'" and "server_inv s" and "codes_ok s" and "ids_left s'"
    and "config_ok (srv_config s)" and "coherent s"
  shows "coherent s'"
  using assms
proof (induction rule: server_step.induct)
  case (step_accept s)
  then have "ids_left s" by (simp add: ids_left_def AcceptLoop_turn_def Session_begin_def Let_def)
  then show ?case using step_accept AcceptLoop_coherent by simp
qed (simp_all add: arrive_coherent ReadLoop_coherent Session_end_coherent WriteLoop_coherent
      WriteLoop_resume_coherent)

lemma server_run_coherent:
  assumes "server_run s0 s" and "ids_left s" and "server_inv s0" and "codes_ok s0"
    and "config_ok (srv_config s0)" and "coherent s0"
  shows "coherent s"
  using assms
proof (induction rule: server_run.induct)
  case (run_refl s)
  then show ?case by simp
next
  case (run_step s t u)
  have ids: "ids_left t"
    using server_step_alloc [OF run_step.hyps(2)] run_step.prems(1) by (simp add: ids_left_def)
  have inv: "server_inv t \<and> codes_ok t \<and> srv_config t = srv_config s"
    by (rule server_run_inv [OF run_step.hyps(1) ids run_step.prems(2,3)])
  then show ?case
    using server_step_coherent [OF run_step.hyps(2)] run_step.IH [OF ids] run_step.prems by simp
qed

lemma coherent_Init: "coherent (fst (Server_Init cfg a b c d (new_server rng cfg')))"
  by (simp add: Server_Init_def Let_def new_server_def coherent_def)

lemma config_ok_Init:
  "config_ok cfg \<Longrightarrow> config_ok (srv_config (fst (Server_Init cfg a b c d (new_server rng cfg'))))"
  by (simp add: Server_Init_def Let_def init_config_def config_ok_def)

end
