(* ===== verification/Server_Policy.thy ===== *)
theory Server_Policy
  imports Coherence
begin

text \<open>
  What the room tables go through over time, as needed for the policy
  theorems: how each step changes the rooms, that bans are only ever added, and that no banned
  client is a member.
\<close>

section \<open>How steps change the rooms\<close>

lemma LeaveRoom_srv_rooms:
  assumes "conn_room (srv_conns s p) = k" and "k \<noteq> []" and "srv_rooms s k = Some r"
    and "i = conn_id (srv_conns s p)"
  shows "srv_rooms (Server_LeaveRoom p s) = (srv_rooms s)(k := remaining_room i r)"
  by (simp add: LeaveRoom_eq [OF assms] foldl_SendToMany_frame)

lemma Session_end_srv_rooms:
  "srv_rooms (Session_end p s) =
     srv_rooms (Server_LeaveRoom p (set_conn p ((srv_conns s p)\<lparr>conn_closing := True, conn_waiting := False\<rparr>) s))"
  by (simp add: Session_end_def Let_def)

lemma server_step_rooms:
  assumes step: "server_step s s'" and inv: "server_inv s" and codes: "codes_ok s"
  obtains (same) "srv_rooms s' = srv_rooms s"
  | (effect) t where "handled t s'" and "server_inv t" and "srv_rooms t = srv_rooms s"
  | (left) p k r where "p \<in> srv_live s" and "conn_room (srv_conns s p) = k" and "srv_rooms s k = Some r"
      and "srv_rooms s' = (srv_rooms s)(k := remaining_room (conn_id (srv_conns s p)) r)"
  using step
proof cases
  case step_accept
  then show ?thesis using same by (simp add: AcceptLoop_turn_def Session_begin_def Let_def)
next
  case (step_receive p bs)
  then show ?thesis using same by (simp add: arrive_def)
next
  case (step_write p)
  then show ?thesis using same by (simp add: WriteLoop_turn_def Let_def split: list.splits)
next
  case (step_written p b)
  then show ?thesis using same by (simp add: WriteLoop_resume_def Let_def split: option.splits)
next
  case (step_read p)
  from step_read(2) show ?thesis
  proof (cases rule: ReadLoop_next)
    case (fragment c)
    then show ?thesis using same by simp
  next
    case (message c m)
    have t: "server_inv (set_conn p c s)" "codes_ok (set_conn p c s)" "p \<in> srv_live (set_conn p c s)"
      using message step_read inv codes by (simp_all add: server_inv_set_conn)
    show ?thesis by (rule effect [OF HandleMessage_handled [OF t message(2,1)] t(1)]) simp
  qed
next
  case (step_finish p)
  let ?t = "set_conn p ((srv_conns s p)\<lparr>conn_closing := True, conn_waiting := False\<rparr>) s"
  show ?thesis
  proof (cases "conn_room (srv_conns s p) = []")
    case True
    then have "Server_LeaveRoom p ?t = ?t" by (intro LeaveRoom_roomless) simp
    then show ?thesis using same step_finish by (simp add: Session_end_srv_rooms)
  next
    case False
    then obtain r where r: "srv_rooms s (conn_room (srv_conns s p)) = Some r"
      using inv_room_exists [OF inv step_finish(2)] by blast
    have "srv_rooms (Server_LeaveRoom p ?t) =
        (srv_rooms ?t)(conn_room (srv_conns s p) := remaining_room (conn_id (srv_conns s p)) r)"
      by (rule LeaveRoom_srv_rooms) (simp_all add: False r)
    then show ?thesis using left [OF step_finish(2) refl r] step_finish by (simp add: Session_end_srv_rooms)
  qed
qed

section \<open>Bans\<close>

definition barred :: "Server \<Rightarrow> bool" where
  "barred s \<longleftrightarrow> (\<forall>k r. srv_rooms s k = Some r \<longrightarrow> set (room_banned_members r) \<inter> set (room_members r) = {})"

lemma remaining_room_Some:
  "remaining_room i r = Some r' \<Longrightarrow>
   room_banned_members r' = room_banned_members r \<and> set (room_members r') = set (room_members r) - {i}"
  by (auto simp: remaining_room_def without_member_def Let_def split: if_splits)

lemma barred_leave:
  assumes "barred s" and "srv_rooms s k = Some r" and "srv_rooms s' = (srv_rooms s)(k := remaining_room i r)"
  shows "barred s'"
  using assms by (auto simp: barred_def split: if_splits dest!: remaining_room_Some) blast

lemma handled_left_rooms:
  assumes "server_inv s" and "p \<in> srv_live s" and "conn_room (srv_conns s p) \<noteq> []"
  obtains r where "srv_rooms s (conn_room (srv_conns s p)) = Some r"
    and "srv_rooms (Server_LeaveRoom p (SendTo j m s)) =
      (srv_rooms s)(conn_room (srv_conns s p) := remaining_room (conn_id (srv_conns s p)) r)"
proof -
  obtain r where r: "srv_rooms s (conn_room (srv_conns s p)) = Some r"
    using inv_room_exists [OF assms] by blast
  have "srv_rooms (Server_LeaveRoom p (SendTo j m s)) =
      (srv_rooms (SendTo j m s))(conn_room (srv_conns s p) := remaining_room (conn_id (srv_conns s p)) r)"
    by (rule LeaveRoom_srv_rooms) (simp_all add: assms r)
  then show ?thesis using that r by simp
qed

lemma handled_banned_rooms:
  assumes "server_inv s" and "srv_rooms s k = Some r" and "conn_room (srv_conns s p) = k"
    and "i = conn_id (srv_conns s p)"
  shows "srv_rooms (Server_LeaveRoom p (SendTo i m (set_room k (Some r') s))) =
      (srv_rooms s)(k := remaining_room i r')"
proof -
  have "k \<noteq> []" using inv_room_ok [OF assms(1,2)] by simp
  then have "srv_rooms (Server_LeaveRoom p (SendTo i m (set_room k (Some r') s))) =
      (srv_rooms (SendTo i m (set_room k (Some r') s)))(k := remaining_room i r')"
    by (intro LeaveRoom_srv_rooms) (simp_all add: assms)
  then show ?thesis by simp
qed

lemma HandleJoinRoom_rooms:
  "admitted s p k w r \<Longrightarrow> srv_rooms (HandleJoinRoom p k w s) =
     (srv_rooms s)(k \<mapsto> r\<lparr>room_members := room_members r @ [conn_id (srv_conns s p)]\<rparr>)"
  by (simp add: HandleJoinRoom_admitted Let_def)

lemma handled_barred: "handled s s' \<Longrightarrow> server_inv s \<Longrightarrow> barred s \<Longrightarrow> barred s'"
proof (induction rule: handled.induct)
  case (handled_created p s k i rng)
  then show ?case by (auto simp: barred_def new_room_def)
next
  case (handled_joined p s k w r)
  then have "srv_rooms s k = Some r" "conn_id (srv_conns s p) \<notin> set (room_banned_members r)"
    by (auto simp: admitted_def)
  with handled_joined(4) show ?case by (auto simp: barred_def HandleJoinRoom_rooms [OF handled_joined(2)])
next
  case (handled_left p s i m)
  from handled_left(5,1,2) obtain r where "srv_rooms s (conn_room (srv_conns s p)) = Some r"
    "srv_rooms (Server_LeaveRoom p (SendTo i m s)) =
      (srv_rooms s)(conn_room (srv_conns s p) := remaining_room (conn_id (srv_conns s p)) r)"
    by (rule handled_left_rooms [where j = i and m = m])
  then show ?case using barred_leave [OF handled_left(6)] by blast
next
  case (handled_banned s k r p i r' B)
  have "set B \<inter> (set (room_members r) - {i}) = {}"
    using handled_banned(1,6,8) by (auto simp: barred_def)
  then show ?case
    using handled_banned(5,8) unfolding barred_def handled_banned_rooms [OF handled_banned(7,1,3,4)]
    by (auto dest!: remaining_room_Some)
qed (auto simp: barred_def)

lemma server_step_barred:
  assumes "server_step s s'" and "server_inv s" and "codes_ok s" and "barred s"
  shows "barred s'"
  using assms(1-3)
proof (cases rule: server_step_rooms)
  case same
  then show ?thesis using assms(4) by (simp add: barred_def)
next
  case (effect t)
  then show ?thesis using handled_barred assms(4) by (simp add: barred_def)
next
  case (left p k r)
  then show ?thesis using barred_leave [OF assms(4)] by blast
qed

interpretation bans: server_policy barred
  by unfold_locales (simp add: barred_def Server_Init_def Let_def new_server_def, rule server_step_barred)

lemma leave_bans:
  assumes "R k' = Some r0" and "R' = R(k' := remaining_room i r0)" and "R k = Some r" and "R' k = Some r'"
  shows "set (room_banned_members r) \<subseteq> set (room_banned_members r')"
  using assms remaining_room_Some [of i r0 r'] by (cases "k = k'") auto

lemma handled_bans_grow:
  "handled s s' \<Longrightarrow> server_inv s \<Longrightarrow> srv_rooms s k = Some r \<Longrightarrow> srv_rooms s' k = Some r' \<Longrightarrow>
   set (room_banned_members r) \<subseteq> set (room_banned_members r')"
proof (induction rule: handled.induct)
  case (handled_joined p s k' w r0)
  then have "srv_rooms s k' = Some r0" by (simp add: admitted_def)
  then show ?case
    using handled_joined(4,5) by (auto simp: HandleJoinRoom_rooms [OF handled_joined(2)] split: if_splits)
next
  case (handled_left p s i m)
  from handled_left(5,1,2) obtain r0 where "srv_rooms s (conn_room (srv_conns s p)) = Some r0"
    "srv_rooms (Server_LeaveRoom p (SendTo i m s)) =
      (srv_rooms s)(conn_room (srv_conns s p) := remaining_room (conn_id (srv_conns s p)) r0)"
    by (rule handled_left_rooms [where j = i and m = m])
  from leave_bans [OF this handled_left(6,7)] show ?case .
next
  case (handled_banned s k' r0 p i r1 B)
  then show ?case
    unfolding handled_banned_rooms [OF handled_banned(7,1,3,4)]
    by (auto split: if_splits dest!: remaining_room_Some)
qed (auto split: if_splits)

lemma server_step_bans_grow:
  assumes "server_step s s'" and "server_inv s" and "codes_ok s"
    and "srv_rooms s k = Some r" and "srv_rooms s' k = Some r'"
  shows "set (room_banned_members r) \<subseteq> set (room_banned_members r')"
  using assms(1-3)
proof (cases rule: server_step_rooms)
  case same
  then show ?thesis using assms(4,5) by simp
next
  case (effect t)
  then show ?thesis using handled_bans_grow [of t s' k r r'] assms(4,5) by simp
next
  case (left p k' r0)
  from leave_bans [OF left(3,4) assms(4,5)] show ?thesis .
qed

end
