(* ===== verification/Server_Transport.thy ===== *)
theory Server_Transport
  imports Server_Policy
begin

text \<open>
  The server's end of a connection's two byte streams.  Handlers only touch rooms and output queues, so the
  input buffer, the reassembly buffer and the write loop of every connection change in the coroutines
  alone: this theory collects those frame rules, says what one turn of the read loop did with the bytes at hand, and
  describes the writing of a queue as a sequence of write-loop steps.
\<close>

section \<open>What handlers leave alone\<close>

definition io_state :: "Connection \<Rightarrow> bytes \<times> bytes \<times> bytes list \<times> bytes option \<times> bool \<times> bool" where
  "io_state c = (conn_in c, conn_body c, conn_sent c, conn_flight c, conn_closing c, conn_writing c)"

lemma io_state_set_conn_room [simp]:
  "io_state (srv_conns (set_conn_room p k s) q) = io_state (srv_conns s q)"
  by (simp add: io_state_def set_conn_room_def)

lemma io_state_sends [simp]:
  "io_state (srv_conns (SendTo i m s) q) = io_state (srv_conns s q)"
  "io_state (srv_conns (SendToMany is m s) q) = io_state (srv_conns s q)"
  "io_state (srv_conns (SendAll i ms s) q) = io_state (srv_conns s q)"
  by (simp_all add: io_state_def)

lemma LeaveRoom_io [simp]: "io_state (srv_conns (Server_LeaveRoom p s) q) = io_state (srv_conns s q)"
  by (simp add: Server_LeaveRoom_def Let_def split: option.split)

lemma handled_io: "handled s s' \<Longrightarrow> io_state (srv_conns s' q) = io_state (srv_conns s q)"
  by (induction rule: handled.induct) (simp_all add: HandleJoinRoom_admitted Let_def)

lemma io_stateD:
  assumes "io_state c = io_state d"
  shows "conn_in c = conn_in d" "conn_body c = conn_body d" "conn_sent c = conn_sent d"
    "conn_flight c = conn_flight d" "conn_closing c = conn_closing d" "conn_writing c = conn_writing d"
  using assms by (simp_all add: io_state_def)

lemma AcceptLoop_io:
  "io_state (srv_conns (AcceptLoop_turn s) q) =
     io_state (if q = srv_alloc s then new_connection 0 else srv_conns s q)"
  by (simp add: AcceptLoop_turn_def Session_begin_def Let_def io_state_def new_connection_def)

lemma AcceptLoop_buffers:
  fixes s q
  defines "c \<equiv> if q = srv_alloc s then new_connection 0 else srv_conns s q"
  shows "conn_in (srv_conns (AcceptLoop_turn s) q) = conn_in c"
    "conn_body (srv_conns (AcceptLoop_turn s) q) = conn_body c"
    "conn_sent (srv_conns (AcceptLoop_turn s) q) = conn_sent c"
    "conn_flight (srv_conns (AcceptLoop_turn s) q) = conn_flight c"
    "conn_writing (srv_conns (AcceptLoop_turn s) q) = conn_writing c"
  using io_stateD [OF AcceptLoop_io [of s q]] by (simp_all add: c_def)

lemma Session_end_io:
  "io_state (srv_conns (Session_end p s) q) =
     io_state (if q = p then (srv_conns s p)\<lparr>conn_closing := True, conn_waiting := False\<rparr> else srv_conns s q)"
  by (simp add: Session_end_def Let_def)

lemma Session_end_buffers:
  "conn_in (srv_conns (Session_end p s) q) = conn_in (srv_conns s q)"
  "conn_body (srv_conns (Session_end p s) q) = conn_body (srv_conns s q)"
  "conn_sent (srv_conns (Session_end p s) q) = conn_sent (srv_conns s q)"
  "conn_flight (srv_conns (Session_end p s) q) = conn_flight (srv_conns s q)"
  "conn_writing (srv_conns (Session_end p s) q) = conn_writing (srv_conns s q)"
  using io_stateD [OF Session_end_io [of p s q]] by (cases "q = p"; simp)+

section \<open>One turn of the read loop\<close>

lemma ReadLoop_frame:
  assumes "c = srv_conns s p"
  shows "next_frame (conn_body c) (conn_in c) = Fragment x rest \<Longrightarrow>
      ReadLoop_turn p s = Read_next (set_conn p (c\<lparr>conn_in := rest, conn_body := x\<rparr>) s)"
    and "next_frame (conn_body c) (conn_in c) = Message m rest \<Longrightarrow>
      ReadLoop_turn p s =
        (case HandleMessage p m (set_conn p (c\<lparr>conn_in := rest, conn_body := []\<rparr>) s) of
           None \<Rightarrow> Read_stuck | Some s' \<Rightarrow> Read_next s')"
  using assms
  by (auto simp: next_frame_def ReadLoop_turn_def Let_def AppendFragment_def
      split: if_splits option.splits sum.splits prod.splits)

lemma set_conn_twice: "set_conn p c (set_conn p d s) = set_conn p c s"
  by (simp add: set_conn_def)

lemma set_conn_same: "set_conn p (srv_conns s p) s = s"
  by (simp add: set_conn_def)

text \<open>A turn that goes on has consumed one frame: a fragment was stored, or the message it completed was handled.\<close>

lemma ReadLoop_consumed:
  assumes "ReadLoop_turn p s = Read_next s'" and "server_inv s" and "codes_ok s" and "p \<in> srv_live s"
  obtains (stored) x rest
    where "next_frame (conn_body (srv_conns s p)) (conn_in (srv_conns s p)) = Fragment x rest"
      and "s' = set_conn p ((srv_conns s p)\<lparr>conn_in := rest, conn_body := x\<rparr>) s"
  | (completed) m rest
    where "next_frame (conn_body (srv_conns s p)) (conn_in (srv_conns s p)) = Message m rest"
      and "HandleMessage p m (set_conn p ((srv_conns s p)\<lparr>conn_in := rest, conn_body := []\<rparr>) s) = Some s'"
      and "handled (set_conn p ((srv_conns s p)\<lparr>conn_in := rest, conn_body := []\<rparr>) s) s'"
proof (cases "next_frame (conn_body (srv_conns s p)) (conn_in (srv_conns s p))")
  case (Fragment x rest)
  then show ?thesis using stored [OF Fragment] ReadLoop_frame(1) [OF refl Fragment] assms(1) by simp
next
  case (Message m rest)
  let ?t = "set_conn p ((srv_conns s p)\<lparr>conn_in := rest, conn_body := []\<rparr>) s"
  have h: "HandleMessage p m ?t = Some s'"
    using ReadLoop_frame(2) [OF refl Message] assms(1) by (auto split: option.splits)
  have "handled ?t s'"
    by (rule HandleMessage_handled [OF _ _ _ next_frame_bounds(2) [OF Message] h])
      (simp_all add: server_inv_set_conn assms)
  then show ?thesis by (rule completed [OF Message h])
qed (use assms(1) in \<open>auto simp: next_frame_def ReadLoop_turn_def Let_def AppendFragment_def
      split: if_splits option.splits sum.splits in_fault.splits\<close>)

text \<open>The message the bytes at hand complete, if they complete one.\<close>

definition read_message :: "nat \<Rightarrow> Server \<Rightarrow> ServerMessage list" where
  "read_message p s =
     (case next_frame (conn_body (srv_conns s p)) (conn_in (srv_conns s p)) of
        Message m _ \<Rightarrow> [m] | _ \<Rightarrow> [])"

text \<open>
  That message is the one the turn dispatches, and it is dispatched once: a turn that goes on leaves the server as
  \<open>HandleMessage\<close> does on it with the frame taken from the input, or, without such a message, changes nothing but the two input
  buffers of its connection.
\<close>

definition take_input :: "nat \<Rightarrow> bytes \<Rightarrow> bytes \<Rightarrow> Server \<Rightarrow> Server" where
  "take_input p rest body s = set_conn p ((srv_conns s p)\<lparr>conn_in := rest, conn_body := body\<rparr>) s"

lemma ReadLoop_dispatches:
  assumes "ReadLoop_turn p s = Read_next s'"
  obtains (kept) rest body where "read_message p s = []" and "s' = take_input p rest body s"
  | (dispatched) m rest where "read_message p s = [m]" and "HandleMessage p m (take_input p rest [] s) = Some s'"
proof (cases "next_frame (conn_body (srv_conns s p)) (conn_in (srv_conns s p))")
  case (Fragment x rest)
  show ?thesis
    by (rule kept [of rest x])
      (use ReadLoop_frame(1) [OF refl Fragment] Fragment assms in \<open>simp_all add: read_message_def take_input_def\<close>)
next
  case (Message m rest)
  show ?thesis
    by (rule dispatched [of m rest])
      (use ReadLoop_frame(2) [OF refl Message] Message assms in
        \<open>auto simp: read_message_def take_input_def split: option.splits\<close>)
qed (use assms in \<open>auto simp: next_frame_def ReadLoop_turn_def Let_def AppendFragment_def
      split: if_splits option.splits sum.splits in_fault.splits\<close>)

text \<open>Bytes that arrive on an idle connection and are read again leave the server as it was.\<close>

lemma arrive_consumed:
  assumes "conn_in (srv_conns s p) = []" and "conn_body (srv_conns s p) = []"
  shows "set_conn p ((srv_conns (arrive p bs s) p)\<lparr>conn_in := [], conn_body := []\<rparr>) (arrive p bs s) = s"
proof -
  have "(srv_conns s p)\<lparr>conn_in := [], conn_body := []\<rparr> = srv_conns s p" using assms by simp
  then show ?thesis using set_conn_same [of p s] by (simp add: arrive_def set_conn_twice)
qed

section \<open>Writing\<close>

text \<open>The frame a turn of the write loop starts to write, if it starts one.\<close>

definition started :: "nat \<Rightarrow> Server \<Rightarrow> bytes" where
  "started p s =
     (if conn_flight (srv_conns s p) = None
      then case conn_flight (srv_conns (WriteLoop_turn p s) p) of None \<Rightarrow> [] | Some f \<Rightarrow> f
      else [])"

text \<open>What the write loop of a connection has given to its socket, the frame in flight included.\<close>

definition on_wire :: "Connection \<Rightarrow> bytes" where
  "on_wire c = concat (conn_sent c) @ (case conn_flight c of None \<Rightarrow> [] | Some f \<Rightarrow> f)"

lemma stream_on_wire: "concat (stream s p) = on_wire (srv_conns s p) @ concat (conn_out (srv_conns s p))"
  by (simp add: stream_def on_wire_def split: option.split)

lemma on_wire_io: "io_state c = io_state d \<Longrightarrow> on_wire c = on_wire d"
  by (simp add: io_state_def on_wire_def)

lemma WriteLoop_wire:
  assumes "conn_writing (srv_conns (WriteLoop_turn p s) p)"
  shows "conn_writing (srv_conns s p)"
    and "on_wire (srv_conns (WriteLoop_turn p s) p) = on_wire (srv_conns s p) @ started p s"
  using assms
  by (auto simp: WriteLoop_turn_def started_def on_wire_def Let_def split: if_splits list.splits)

lemma WriteLoop_resume_wire:
  assumes "conn_writing (srv_conns (WriteLoop_resume b p s) p)"
  shows "conn_writing (srv_conns s p)" and "on_wire (srv_conns (WriteLoop_resume b p s) p) = on_wire (srv_conns s p)"
  using assms
  by (auto simp: WriteLoop_resume_def on_wire_def Let_def split: if_splits option.splits)

lemma write_loop_others:
  "q \<noteq> p \<Longrightarrow> srv_conns (WriteLoop_turn p s) q = srv_conns s q"
  "q \<noteq> p \<Longrightarrow> srv_conns (WriteLoop_resume b p s) q = srv_conns s q"
  by (simp_all add: WriteLoop_turn_def WriteLoop_resume_def Let_def split: list.split option.split)

lemma write_loop_tables:
  "srv_live (WriteLoop_turn p s) = srv_live s" "srv_live (WriteLoop_resume b p s) = srv_live s"
  "srv_alloc (WriteLoop_turn p s) = srv_alloc s" "srv_alloc (WriteLoop_resume b p s) = srv_alloc s"
  by (simp_all add: WriteLoop_turn_def WriteLoop_resume_def Let_def split: list.split option.split)

lemma write_loop_input:
  "conn_in (srv_conns (WriteLoop_turn p s) q) = conn_in (srv_conns s q)"
  "conn_body (srv_conns (WriteLoop_turn p s) q) = conn_body (srv_conns s q)"
  "conn_closing (srv_conns (WriteLoop_turn p s) q) = conn_closing (srv_conns s q)"
  "conn_in (srv_conns (WriteLoop_resume b p s) q) = conn_in (srv_conns s q)"
  "conn_body (srv_conns (WriteLoop_resume b p s) q) = conn_body (srv_conns s q)"
  "conn_closing (srv_conns (WriteLoop_resume b p s) q) = conn_closing (srv_conns s q)"
  by (simp_all add: WriteLoop_turn_def WriteLoop_resume_def Let_def split: list.split option.split)

lemma ReadLoop_io:
  assumes "ReadLoop_turn p s = Read_next s'" and "server_inv s" and "codes_ok s" and "p \<in> srv_live s"
  shows "srv_alloc s' = srv_alloc s \<and> srv_live s' = srv_live s
    \<and> (\<forall>q. conn_writing (srv_conns s' q) = conn_writing (srv_conns s q)
           \<and> conn_closing (srv_conns s' q) = conn_closing (srv_conns s q)
           \<and> on_wire (srv_conns s' q) = on_wire (srv_conns s q)
           \<and> (q \<noteq> p \<longrightarrow> conn_in (srv_conns s' q) = conn_in (srv_conns s q)
                      \<and> conn_body (srv_conns s' q) = conn_body (srv_conns s q)))"
  using assms
proof (cases rule: ReadLoop_consumed)
  case (completed m rest)
  then show ?thesis
    using handled_frame [OF completed(3)] io_stateD [OF handled_io [OF completed(3)]]
    by (simp add: on_wire_def)
qed (simp add: on_wire_def)

text \<open>Turns of one write loop whose writes succeed.\<close>

inductive write_steps :: "nat \<Rightarrow> Server \<Rightarrow> Server \<Rightarrow> bool" for p s where
  writes_none: "write_steps p s s"
| writes_turn: "write_steps p s t \<Longrightarrow> write_steps p s (WriteLoop_turn p t)"
| writes_done: "write_steps p s t \<Longrightarrow> write_steps p s (WriteLoop_resume True p t)"

lemma write_steps_trans: "write_steps p t u \<Longrightarrow> write_steps p s t \<Longrightarrow> write_steps p s u"
  by (induction rule: write_steps.induct) (auto intro: write_steps.intros)

lemma write_steps_alloc: "write_steps p s t \<Longrightarrow> srv_alloc t = srv_alloc s"
  by (induction rule: write_steps.induct) (simp_all add: write_loop_tables)

lemma write_steps_run: "write_steps p s t \<Longrightarrow> p < srv_alloc s \<Longrightarrow> server_run s t"
  by (induction rule: write_steps.induct)
    (metis run_refl run_step step_write step_written write_steps_alloc)+

text \<open>One frame from the queue to the socket, and then the whole queue.\<close>

lemma write_frame:
  assumes "conn_writing (srv_conns s p)" and "\<not> conn_closing (srv_conns s p)"
    and "conn_flight (srv_conns s p) = None" and "conn_out (srv_conns s p) = f # fs"
    and "\<not> conn_waiting (srv_conns s p)"
  shows "write_steps p s (set_conn p ((srv_conns s p)\<lparr>conn_out := fs, conn_sent := conn_sent (srv_conns s p) @ [f]\<rparr>) s)"
proof -
  let ?c = "srv_conns s p"
  let ?t = "set_conn p (?c\<lparr>conn_out := fs, conn_flight := Some f\<rparr>) s"
  have "WriteLoop_turn p s = ?t" using assms by (simp add: WriteLoop_turn_def)
  then have t: "write_steps p s ?t" using writes_turn [OF writes_none, of p s] by simp
  have "?c\<lparr>conn_out := fs, conn_flight := None, conn_sent := conn_sent ?c @ [f]\<rparr>
      = ?c\<lparr>conn_out := fs, conn_sent := conn_sent ?c @ [f]\<rparr>"
    using assms(3) by simp
  then have "WriteLoop_resume True p ?t = set_conn p (?c\<lparr>conn_out := fs, conn_sent := conn_sent ?c @ [f]\<rparr>) s"
    by (simp add: WriteLoop_resume_def set_conn_twice)
  then show ?thesis using writes_done [OF t] by simp
qed

lemma write_queue:
  assumes "conn_writing (srv_conns s p)" and "\<not> conn_closing (srv_conns s p)"
    and "conn_flight (srv_conns s p) = None" and "conn_waiting (srv_conns s p) \<Longrightarrow> conn_out (srv_conns s p) = []"
  shows "write_steps p s (set_conn p ((srv_conns s p)\<lparr>conn_out := [], conn_sent := stream s p\<rparr>) s)"
  using assms
proof (induction "conn_out (srv_conns s p)" arbitrary: s)
  case Nil
  then have "(srv_conns s p)\<lparr>conn_out := [], conn_sent := stream s p\<rparr> = srv_conns s p"
    by (simp add: stream_def)
  then show ?case by (simp add: set_conn_same writes_none)
next
  case (Cons f fs)
  let ?t = "set_conn p ((srv_conns s p)\<lparr>conn_out := fs, conn_sent := conn_sent (srv_conns s p) @ [f]\<rparr>) s"
  have awake: "\<not> conn_waiting (srv_conns s p)" using Cons.hyps(2) Cons.prems(4) by force
  have step: "write_steps p s ?t" by (rule write_frame) (use Cons.hyps(2) Cons.prems awake in simp_all)
  have "write_steps p ?t (set_conn p ((srv_conns ?t p)\<lparr>conn_out := [], conn_sent := stream ?t p\<rparr>) ?t)"
    using Cons.prems awake by (intro Cons.hyps(1)) simp_all
  moreover have "stream ?t p = stream s p"
    using Cons.hyps(2) [symmetric] Cons.prems by (simp add: stream_def)
  ultimately show ?case using write_steps_trans [OF _ step] by (simp add: set_conn_twice)
qed

text \<open>The same when a frame is already being written.\<close>

lemma write_stream:
  assumes "conn_writing (srv_conns s p)" and "\<not> conn_closing (srv_conns s p)"
    and "conn_waiting (srv_conns s p) \<Longrightarrow> conn_out (srv_conns s p) = []"
  shows "write_steps p s (set_conn p ((srv_conns s p)\<lparr>conn_flight := None, conn_out := [], conn_sent := stream s p\<rparr>) s)"
proof (cases "conn_flight (srv_conns s p)")
  case None
  have "(srv_conns s p)\<lparr>conn_flight := None, conn_out := [], conn_sent := stream s p\<rparr>
      = (srv_conns s p)\<lparr>conn_out := [], conn_sent := stream s p\<rparr>"
    using None by simp
  then show ?thesis using write_queue [OF assms(1,2) None assms(3)] by simp
next
  case (Some f)
  let ?t = "WriteLoop_resume True p s"
  have t: "?t = set_conn p ((srv_conns s p)\<lparr>conn_flight := None, conn_sent := conn_sent (srv_conns s p) @ [f]\<rparr>) s"
    using Some by (simp add: WriteLoop_resume_def Let_def)
  have "write_steps p ?t (set_conn p ((srv_conns ?t p)\<lparr>conn_out := [], conn_sent := stream ?t p\<rparr>) ?t)"
    by (rule write_queue) (simp_all add: t assms)
  moreover have "stream ?t p = stream s p" using Some by (simp add: t stream_def)
  ultimately show ?thesis
    using write_steps_trans [OF _ writes_done [OF writes_none]] by (simp add: t set_conn_twice)
qed

section \<open>Sessions that have not ended\<close>

definition sessions_open :: "Server \<Rightarrow> bool" where
  "sessions_open s \<longleftrightarrow> (\<forall>p \<in> srv_live s. \<not> conn_closing (srv_conns s p))"

lemma server_step_open:
  assumes "server_step s s'" and "server_inv s" and "codes_ok s" and "sessions_open s"
  shows "sessions_open s'"
  using assms
proof (induction rule: server_step.induct)
  case (step_accept s)
  then show ?case
    using io_stateD(5) [OF AcceptLoop_io [of s]]
    by (auto simp: sessions_open_def new_connection_def AcceptLoop_turn_def Session_begin_def Let_def)
next
  case (step_receive p s bs)
  then show ?case by (simp add: sessions_open_def arrive_def)
next
  case (step_read p s s')
  then show ?case using ReadLoop_io [OF step_read(2,3,4,1)] by (simp add: sessions_open_def)
next
  case (step_finish p s)
  then show ?case
    using io_stateD(5) [OF Session_end_io [of p s]]
    by (auto simp: sessions_open_def Session_end_def Let_def LeaveRoom_frame)
qed (simp_all add: sessions_open_def write_loop_tables write_loop_input)

interpretation sessions: server_policy sessions_open
  by unfold_locales
    (simp add: sessions_open_def Server_Init_def Let_def new_server_def, rule server_step_open)

end
