(* ===== verification/Server_Wake.thy ===== *)
theory Server_Wake
  imports Server_Transport
begin

text \<open>
  The write loop and its \<open>wake\<close> timer.  The timer never expires, so a loop suspended on it runs again only after
  \<open>wake.cancel()\<close>.  The invariant \<open>woken\<close> says that no wake-up is lost: a suspended loop has an empty queue, no
  write under way and a session that has not ended.  It carries the liveness results: what is queued gets
  written, and the loop of an ended session ends, which lets go of the connection.
\<close>

section \<open>No wake-up is lost\<close>

definition wake_ok :: "Connection \<Rightarrow> bool" where
  "wake_ok c \<longleftrightarrow> (conn_waiting c \<longrightarrow>
     conn_writing c \<and> conn_flight c = None \<and> conn_out c = [] \<and> \<not> conn_closing c)"

definition woken :: "Server \<Rightarrow> bool" where
  "woken s \<longleftrightarrow> (\<forall>p. wake_ok (srv_conns s p))"

lemma wake_ok_not_waiting [simp]: "\<not> conn_waiting c \<Longrightarrow> wake_ok c"
  by (simp add: wake_ok_def)

lemma woken_set_conn [simp]: "woken s \<Longrightarrow> wake_ok c \<Longrightarrow> woken (set_conn p c s)"
  by (simp add: woken_def)

lemma woken_set_conn_room [simp]: "woken s \<Longrightarrow> woken (set_conn_room p k s)"
  by (simp add: woken_def wake_ok_def set_conn_room_def)

lemma woken_set_room [simp]: "woken (set_room k r s) = woken s"
  by (simp add: woken_def set_room_def)

lemma woken_fields [simp]:
  "woken (s\<lparr>srv_rng := g\<rparr>) = woken s"
  "woken (s\<lparr>srv_connections := t\<rparr>) = woken s"
  "woken (s\<lparr>srv_live := L\<rparr>) = woken s"
  "woken (s\<lparr>srv_alloc := n\<rparr>) = woken s"
  "woken (s\<lparr>srv_next_id := i\<rparr>) = woken s"
  by (simp_all add: woken_def)

lemma woken_SendFrame [simp]: "woken s \<Longrightarrow> woken (SendFrame i f s)"
  by (simp add: SendFrame_def Enqueue_def split: option.split)

lemma woken_SendTo [simp]: "woken s \<Longrightarrow> woken (SendTo i m s)"
  by (simp add: SendTo_def)

lemma woken_foldl: "(\<And>s x. woken s \<Longrightarrow> woken (f s x)) \<Longrightarrow> woken s \<Longrightarrow> woken (foldl f s xs)"
  by (induction xs arbitrary: s) simp_all

lemma woken_SendToMany [simp]: "woken s \<Longrightarrow> woken (SendToMany is m s)"
  by (simp add: SendToMany_def woken_foldl)

lemma woken_SendAll [simp]: "woken s \<Longrightarrow> woken (SendAll i ms s)"
  by (simp add: SendAll_def woken_foldl)

lemma woken_LeaveRoom [simp]: "woken s \<Longrightarrow> woken (Server_LeaveRoom p s)"
  by (simp add: Server_LeaveRoom_def Let_def split: option.split)

lemma handled_woken: "handled s s' \<Longrightarrow> woken s \<Longrightarrow> woken s'"
  by (induction rule: handled.induct) (simp_all add: HandleJoinRoom_admitted Let_def)

lemma woken_conn: "woken s \<Longrightarrow> wake_ok (srv_conns s p)"
  by (simp add: woken_def)

lemma ReadLoop_woken:
  assumes "ReadLoop_turn p s = Read_next s'" and "woken s" and "server_inv s" and "codes_ok s" and "p \<in> srv_live s"
  shows "woken s'"
  using assms(1,3-5)
proof (cases rule: ReadLoop_consumed)
  case (stored x rest)
  then show ?thesis using assms(2) woken_conn [OF assms(2), of p] by (simp add: wake_ok_def)
next
  case (completed m rest)
  then show ?thesis using assms(2) woken_conn [OF assms(2), of p] handled_woken by (simp add: wake_ok_def)
qed

lemma WriteLoop_woken: "woken s \<Longrightarrow> woken (WriteLoop_turn p s)" "woken s \<Longrightarrow> woken (WriteLoop_resume b p s)"
  using woken_conn [of s p]
  by (auto simp: WriteLoop_turn_def WriteLoop_resume_def wake_ok_def Let_def split: list.split option.split)

lemma server_step_woken:
  assumes "server_step s s'" and "server_inv s" and "codes_ok s" and "woken s"
  shows "woken s'"
  using assms
proof (induction rule: server_step.induct)
  case (step_accept s)
  then show ?case
    by (simp add: AcceptLoop_turn_def Session_begin_def Let_def new_connection_def)
next
  case (step_receive p s bs)
  then show ?case using woken_conn [of s p] by (simp add: arrive_def wake_ok_def)
next
  case (step_read p s s')
  then show ?case using ReadLoop_woken by blast
next
  case (step_finish p s)
  then show ?case by (simp add: Session_end_def Let_def)
qed (simp_all add: WriteLoop_woken)

interpretation wakes: server_policy woken
  by unfold_locales
    (simp add: woken_def Server_Init_def Let_def new_server_def new_connection_def, rule server_step_woken)

section \<open>The loop after the session\<close>

definition ended_closing :: "Server \<Rightarrow> bool" where
  "ended_closing s \<longleftrightarrow> (\<forall>p < srv_alloc s. p \<notin> srv_live s \<longrightarrow> conn_closing (srv_conns s p))"

lemma server_step_ended:
  assumes "server_step s s'" and "server_inv s" and "codes_ok s" and "ended_closing s"
  shows "ended_closing s'"
  using assms
proof (induction rule: server_step.induct)
  case (step_accept s)
  then show ?case
    using io_stateD(5) [OF AcceptLoop_io [of s]]
    by (auto simp: ended_closing_def less_Suc_eq AcceptLoop_turn_def Session_begin_def Let_def)
next
  case (step_receive p s bs)
  then show ?case by (simp add: ended_closing_def arrive_def)
next
  case (step_read p s s')
  then show ?case
    using ReadLoop_io [OF step_read(2,3,4,1)] by (simp add: ended_closing_def)
next
  case (step_finish p s)
  then show ?case
    using io_stateD(5) [OF Session_end_io [of p s]]
    by (auto simp: ended_closing_def Session_end_def Let_def LeaveRoom_frame)
qed (simp_all add: ended_closing_def write_loop_tables write_loop_input)

interpretation ended: server_policy ended_closing
  by unfold_locales
    (simp add: ended_closing_def Server_Init_def Let_def new_server_def, rule server_step_ended)

lemma writer_ends:
  assumes "wake_ok (srv_conns s p)" and "conn_closing (srv_conns s p)"
  shows "\<not> conn_writing (srv_conns (WriteLoop_turn p (WriteLoop_resume b p s)) p)"
  using assms by (auto simp: wake_ok_def WriteLoop_turn_def WriteLoop_resume_def Let_def split: list.split option.split)

lemma writer_drains:
  assumes "wake_ok (srv_conns s p)" and "conn_writing (srv_conns s p)" and "\<not> conn_closing (srv_conns s p)"
    and "p < srv_alloc s"
  shows "server_run s (set_conn p ((srv_conns s p)\<lparr>conn_flight := None, conn_out := [], conn_sent := stream s p\<rparr>) s)"
proof (rule write_steps_run [OF write_stream assms(4)])
  show "conn_out (srv_conns s p) = []" if "conn_waiting (srv_conns s p)" using assms(1) that by (simp add: wake_ok_def)
qed (use assms in simp_all)

lemma queue_drains:
  assumes "wake_ok (srv_conns s p)" and "conn_writing (srv_conns s p)" and "\<not> conn_closing (srv_conns s p)"
    and "conn_flight (srv_conns s p) = None" and "p < srv_alloc s"
  shows "server_run s (set_conn p ((srv_conns s p)\<lparr>conn_out := [], conn_sent := stream s p\<rparr>) s)"
  by (rule write_steps_run [OF write_queue assms(5)]) (use assms in \<open>simp_all add: wake_ok_def\<close>)

end
