(* ===== verification/Server_Reading.thy ===== *)
theory Server_Reading
  imports Server_Wake
begin

text \<open>
  Runs of the server's half of the byte stream: a framed request that has arrived is handled exactly
  once, and the reassembly buffers stay within the cap.
\<close>

section \<open>Reading\<close>

inductive read_turns :: "nat \<Rightarrow> Server \<Rightarrow> Server \<Rightarrow> bool" for p where
  reads_one: "ReadLoop_turn p s = Read_next s' \<Longrightarrow> read_turns p s s'"
| reads_more: "ReadLoop_turn p s = Read_next t \<Longrightarrow> read_turns p t s' \<Longrightarrow> read_turns p s s'"

lemma reads_frames:
  assumes "frames_to body a m rest"
    and "conn_body (srv_conns s p) = body" and "conn_in (srv_conns s p) = a"
    and "HandleMessage p m (set_conn p ((srv_conns s p)\<lparr>conn_in := rest, conn_body := []\<rparr>) s) = Some s'"
  shows "read_turns p s s'"
  using assms
proof (induction arbitrary: s rule: frames_to.induct)
  case (frames_last body a m rest)
  then show ?case
    using ReadLoop_frame(2) [OF refl, of s p m rest] by (intro reads_one) simp
next
  case (frames_more body a x r m rest)
  let ?t = "set_conn p ((srv_conns s p)\<lparr>conn_in := r, conn_body := x\<rparr>) s"
  have "read_turns p ?t s'" using frames_more.prems by (intro frames_more.IH) (simp_all add: set_conn_twice)
  moreover have "ReadLoop_turn p s = Read_next ?t"
    using ReadLoop_frame(1) [OF refl, of s p x r] frames_more by simp
  ultimately show ?case by (rule reads_more [rotated])
qed

lemma reads_run:
  "read_turns p s s' \<Longrightarrow> server_run s0 s \<Longrightarrow> server_inv s \<Longrightarrow> codes_ok s \<Longrightarrow> p \<in> srv_live s \<Longrightarrow> server_run s0 s'"
proof (induction rule: read_turns.induct)
  case (reads_one s s')
  then show ?case by (auto intro: run_step step_read)
next
  case (reads_more s t s')
  have "server_inv t \<and> codes_ok t" using ReadLoop_inv reads_more by blast
  moreover have "p \<in> srv_live t"
    using reads_more.hyps(1)
  proof (cases rule: ReadLoop_next)
    case (message c m)
    then show ?thesis
      using HandleMessage_handled [OF _ _ _ message(2,1)] handled_frame reads_more
      by (fastforce simp: server_inv_set_conn)
  qed (use reads_more in simp)
  moreover have "server_run s0 t" using reads_more by (auto intro: run_step step_read)
  ultimately show ?case using reads_more by blast
qed

lemma server_run_trans: "server_run t u \<Longrightarrow> server_run s t \<Longrightarrow> server_run s u"
  by (induction rule: server_run.induct) (auto intro: run_step)

section \<open>The reassembly buffer\<close>

definition bodies_bounded :: "Server \<Rightarrow> bool" where
  "bodies_bounded s \<longleftrightarrow> (\<forall>p. length (conn_body (srv_conns s p)) \<le> max_reassembled_size)"

lemma bodies_bounded_set_conn:
  "bodies_bounded s \<Longrightarrow> length (conn_body c) \<le> max_reassembled_size \<Longrightarrow> bodies_bounded (set_conn p c s)"
  by (simp add: bodies_bounded_def)

lemma ReadLoop_bodies:
  assumes "ReadLoop_turn p s = Read_next s'" and "bodies_bounded s" and "server_inv s" and "codes_ok s"
    and "p \<in> srv_live s"
  shows "bodies_bounded s'"
  using assms(1,3-5)
proof (cases rule: ReadLoop_consumed)
  case (stored x rest)
  then show ?thesis using assms(2) next_frame_bounds(1) [OF stored(1)] by (simp add: bodies_bounded_set_conn)
next
  case (completed m rest)
  have "bodies_bounded (set_conn p ((srv_conns s p)\<lparr>conn_in := rest, conn_body := []\<rparr>) s)"
    using assms(2) by (simp add: bodies_bounded_set_conn)
  then show ?thesis using handled_frame [OF completed(3)] by (simp add: bodies_bounded_def)
qed

lemma server_step_bodies:
  assumes "server_step s s'" and "server_inv s" and "codes_ok s" and "bodies_bounded s"
  shows "bodies_bounded s'"
  using assms
proof (induction rule: server_step.induct)
  case (step_accept s)
  then show ?case
    by (simp add: bodies_bounded_def AcceptLoop_turn_def Session_begin_def Let_def new_connection_def)
next
  case (step_receive p s bs)
  then show ?case by (simp add: bodies_bounded_def arrive_def)
next
  case (step_read p s s')
  then show ?case using ReadLoop_bodies by blast
next
  case (step_finish p s)
  then show ?case by (simp add: bodies_bounded_def Session_end_def Let_def LeaveRoom_frame)
next
  case (step_write p s)
  then show ?case by (simp add: bodies_bounded_def WriteLoop_turn_def Let_def split: list.splits)
next
  case (step_written p s b)
  then show ?case by (simp add: bodies_bounded_def WriteLoop_resume_def Let_def split: option.splits)
qed

interpretation bodies: server_policy bodies_bounded
  by unfold_locales
    (simp add: bodies_bounded_def Server_Init_def Let_def new_server_def new_connection_def, rule server_step_bodies)

end
