(* ===== verification/Mesh.thy ===== *)
theory Mesh
  imports Framing
begin

text \<open>
  The peer-to-peer half of the client (\<open>Client/include/private/p2p_mesh.h\<close>,
  \<open>Client/src/p2p_mesh.cpp\<close>) and the client state it works on
  (\<open>Client/include/private/client.h\<close>, \<open>ClientAsioImpl\<close> of \<open>client.cpp\<close>).

  libjuice is not part of the repository.  It is a parameter \<open>J\<close> of the
  operations that depend on what it returns: each answer may depend on the calls
  made so far, which \<open>cl_juice\<close> records in order.  Agents are
  handles; a call that returns nothing the code reads is only recorded.
\<close>

section \<open>libjuice as seen by the code\<close>

type_synonym agent = nat

datatype juice_state =
    JUICE_STATE_DISCONNECTED
  | JUICE_STATE_CONNECTED
  | JUICE_STATE_COMPLETED
  | JUICE_STATE_FAILED
  | JUICE_STATE_OTHER

record juice_config =
  jc_stun :: "(string \<times> u16) option"
  jc_turn :: "(string \<times> string \<times> string \<times> u16) list"
  jc_peer :: u32

datatype juice_call =
    juice_create juice_config "agent option"
  | juice_destroy agent
  | juice_get_local_description agent
  | juice_gather_candidates agent
  | juice_set_remote_description agent string
  | juice_add_remote_candidate agent string
  | juice_set_remote_gathering_done agent
  | juice_send agent bytes

record juice_api =
  ja_create :: "juice_call list \<Rightarrow> juice_config \<Rightarrow> agent option"
  ja_local_description :: "juice_call list \<Rightarrow> agent \<Rightarrow> string option"
  ja_gather_candidates :: "juice_call list \<Rightarrow> agent \<Rightarrow> bool"
  ja_send :: "juice_call list \<Rightarrow> agent \<Rightarrow> bytes \<Rightarrow> bool"

text \<open>A \<open>std::string\<close> as a C string ends at its first null character.\<close>

definition c_str :: "string \<Rightarrow> string" where
  "c_str s = takeWhile (\<lambda>c. c \<noteq> CHR 0x00) s"

section \<open>State\<close>

datatype JuiceEventKind = Kind_State | Kind_Candidate | Kind_GatheringDone | Kind_Recv

record JuiceEvent =
  ev_kind :: JuiceEventKind
  ev_agent :: agent
  ev_peer :: u32
  ev_state :: juice_state
  ev_payload :: bytes

record PeerLink =
  link_agent :: agent
  link_ctx_peer :: u32
  link_remote_set :: bool
  link_connected :: bool
  link_outbox :: "bytes list"

record P2PMesh =
  mesh_events :: "JuiceEvent list"
  mesh_scratch :: "JuiceEvent list"
  mesh_links :: "(u32, PeerLink) stdmap"
  mesh_attempts :: "(u32, u32) stdmap"

record Client =
  cl_open :: bool
  cl_rx :: bytes
  cl_rx_msg :: bytes
  cl_tx :: bytes
  cl_mesh :: P2PMesh
  cl_juice :: "juice_call list"
  cl_ice :: IceServers
  cl_inbox :: "ServerMessage list"
  cl_p2p_inbox :: "(u32 \<times> P2PMessage) list"
  cl_id :: u32
  cl_room :: string
  cl_host :: u32
  cl_room_open :: bool
  cl_room_passworded :: bool
  cl_members :: "u32 list"
  cl_data :: "(string, string) stdmap"
  cl_member_data :: "(u32, (string, string) stdmap) stdmap"

definition set_links :: "(u32, PeerLink) stdmap \<Rightarrow> Client \<Rightarrow> Client" where
  "set_links l c = c\<lparr>cl_mesh := (cl_mesh c)\<lparr>mesh_links := l\<rparr>\<rparr>"

definition set_attempts :: "(u32, u32) stdmap \<Rightarrow> Client \<Rightarrow> Client" where
  "set_attempts a c = c\<lparr>cl_mesh := (cl_mesh c)\<lparr>mesh_attempts := a\<rparr>\<rparr>"

definition juice_log :: "juice_call \<Rightarrow> Client \<Rightarrow> Client" where
  "juice_log j c = c\<lparr>cl_juice := cl_juice c @ [j]\<rparr>"

definition SendServer :: "ServerMessage \<Rightarrow> Client \<Rightarrow> Client" where
  "SendServer msg c = c\<lparr>cl_tx := cl_tx c @ FrameMessage msg\<rparr>"

section \<open>Callbacks\<close>

text \<open>
  Callbacks run on libjuice's threads; each takes the mutex for one push, so a push
  is one atomic step on the event queue.
\<close>

definition PushJuiceEvent :: "agent \<Rightarrow> u32 \<Rightarrow> JuiceEvent \<Rightarrow> P2PMesh \<Rightarrow> P2PMesh" where
  "PushJuiceEvent a ctx_peer ev m =
     m\<lparr>mesh_events := mesh_events m @ [ev\<lparr>ev_agent := a, ev_peer := ctx_peer\<rparr>]\<rparr>"

definition blank_event :: "JuiceEventKind \<Rightarrow> JuiceEvent" where
  "blank_event k = \<lparr>ev_kind = k, ev_agent = 0, ev_peer = 0,
     ev_state = JUICE_STATE_DISCONNECTED, ev_payload = []\<rparr>"

definition OnJuiceState :: "agent \<Rightarrow> juice_state \<Rightarrow> u32 \<Rightarrow> P2PMesh \<Rightarrow> P2PMesh" where
  "OnJuiceState a st ctx_peer m =
     PushJuiceEvent a ctx_peer ((blank_event Kind_State)\<lparr>ev_state := st\<rparr>) m"

definition OnJuiceCandidate :: "agent \<Rightarrow> string \<Rightarrow> u32 \<Rightarrow> P2PMesh \<Rightarrow> P2PMesh" where
  "OnJuiceCandidate a sdp ctx_peer m =
     PushJuiceEvent a ctx_peer
       ((blank_event Kind_Candidate)\<lparr>ev_payload := map byte_of_char (c_str sdp)\<rparr>) m"

definition OnJuiceGatheringDone :: "agent \<Rightarrow> u32 \<Rightarrow> P2PMesh \<Rightarrow> P2PMesh" where
  "OnJuiceGatheringDone a ctx_peer m = PushJuiceEvent a ctx_peer (blank_event Kind_GatheringDone) m"

definition OnJuiceRecv :: "agent \<Rightarrow> bytes \<Rightarrow> u32 \<Rightarrow> P2PMesh \<Rightarrow> P2PMesh" where
  "OnJuiceRecv a data ctx_peer m =
     PushJuiceEvent a ctx_peer ((blank_event Kind_Recv)\<lparr>ev_payload := data\<rparr>) m"

section \<open>Links\<close>

definition max_connection_attempts :: u32 where [simp]: "max_connection_attempts = 3"

definition FindLink :: "u32 \<Rightarrow> Client \<Rightarrow> PeerLink option" where
  "FindLink i c = sm_find (mesh_links (cl_mesh c)) i"

definition PeerConnectedP2P :: "u32 \<Rightarrow> Client \<Rightarrow> bool" where
  "PeerConnectedP2P i c =
     (case sm_find (mesh_links (cl_mesh c)) i of None \<Rightarrow> False | Some l \<Rightarrow> link_connected l)"

definition set_link :: "u32 \<Rightarrow> PeerLink \<Rightarrow> Client \<Rightarrow> Client" where
  "set_link i l c = set_links (sm_put i l (mesh_links (cl_mesh c))) c"

definition link_config :: "u32 \<Rightarrow> IceServers \<Rightarrow> juice_config" where
  "link_config i ice =
     \<lparr>jc_stun = (if stun_host ice \<noteq> [] then Some (c_str (stun_host ice), stun_port ice) else None),
      jc_turn = map (\<lambda>t. (c_str (ts_host t), c_str (ts_username t), c_str (ts_password t), ts_port t))
                    (turn ice),
      jc_peer = i\<rparr>"

text \<open>\<open>attempts[id]\<close> reads the counter and creates a zero entry where there is none.\<close>

definition attempts_at :: "u32 \<Rightarrow> Client \<Rightarrow> u32" where
  "attempts_at i c =
     (case sm_find (mesh_attempts (cl_mesh c)) i of None \<Rightarrow> 0 | Some n \<Rightarrow> n)"

definition CreateLink :: "juice_api \<Rightarrow> u32 \<Rightarrow> Client \<Rightarrow> Client \<times> PeerLink option" where
  "CreateLink J i c =
     (let n = attempts_at i c;
          c = set_attempts (sm_put i n (mesh_attempts (cl_mesh c))) c
      in if n \<ge> max_connection_attempts then (c, None)
         else let config = link_config i (cl_ice c);
                  res = ja_create J (cl_juice c) config;
                  c = juice_log (juice_create config res) c
              in case res of
                   None \<Rightarrow> (c, None)
                 | Some a \<Rightarrow>
                     let c = set_attempts (sm_put i (n + 1) (mesh_attempts (cl_mesh c))) c;
                         link = \<lparr>link_agent = a, link_ctx_peer = i, link_remote_set = False,
                                 link_connected = False, link_outbox = []\<rparr>
                     in case FindLink i c of
                          None \<Rightarrow> (set_link i link c, Some link)
                        | Some l \<Rightarrow> (c, Some l))"

definition ShareLink :: "juice_api \<Rightarrow> PeerLink \<Rightarrow> u32 \<Rightarrow> Client \<Rightarrow> Client \<times> bool" where
  "ShareLink J link i c =
     (let a = link_agent link;
          res = ja_local_description J (cl_juice c) a;
          c = juice_log (juice_get_local_description a) c
      in case res of
           None \<Rightarrow> (c, False)
         | Some sdp \<Rightarrow>
             let c = SendServer (P2PSignal i Description (c_str sdp)) c;
                 ok = ja_gather_candidates J (cl_juice c) a
             in (juice_log (juice_gather_candidates a) c, ok))"

definition FlushLink :: "u32 \<Rightarrow> PeerLink \<Rightarrow> Client \<Rightarrow> Client" where
  "FlushLink i link c =
     set_link i (link\<lparr>link_outbox := []\<rparr>)
       (foldl (\<lambda>c d. juice_log (juice_send (link_agent link) d) c) c (link_outbox link))"

definition DestroyLink :: "u32 \<Rightarrow> Client \<Rightarrow> Client" where
  "DestroyLink i c =
     (case FindLink i c of
        None \<Rightarrow> c
      | Some link \<Rightarrow>
          set_links (sm_erase i (mesh_links (cl_mesh c))) (juice_log (juice_destroy (link_agent link)) c))"

definition DestroyAllLinks :: "Client \<Rightarrow> Client" where
  "DestroyAllLinks c =
     set_attempts [] (set_links []
       (foldl (\<lambda>c (i, link). juice_log (juice_destroy (link_agent link)) c) c (mesh_links (cl_mesh c))))"

section \<open>Sending and receiving datagrams\<close>

definition SendP2P :: "juice_api \<Rightarrow> u32 \<Rightarrow> P2PMessage \<Rightarrow> Client \<Rightarrow> Client \<times> bool" where
  "SendP2P J i msg c =
     (if msg = [] \<or> length msg > max_p2p_message_size then (c, False)
      else if i = cl_id c \<or> i \<notin> set (cl_members c) then (c, False)
      else
        let deliver = (\<lambda>c. case FindLink i c of
                None \<Rightarrow> (c, False)
              | Some link \<Rightarrow>
                  if \<not> link_connected link
                  then (set_link i (link\<lparr>link_outbox := link_outbox link @ [msg]\<rparr>) c, True)
                  else (juice_log (juice_send (link_agent link) msg) c,
                        ja_send J (cl_juice c) (link_agent link) msg))
        in case FindLink i c of
             Some link \<Rightarrow> deliver c
           | None \<Rightarrow>
               (case CreateLink J i c of
                  (c, None) \<Rightarrow> (c, False)
                | (c, Some link) \<Rightarrow>
                    (case ShareLink J link i c of
                       (c, True) \<Rightarrow> deliver c
                     | (c, False) \<Rightarrow> (DestroyLink i c, False))))"

definition NextP2P :: "Client \<Rightarrow> Client \<times> (u32 \<times> P2PMessage) option" where
  "NextP2P c =
     (case cl_p2p_inbox c of
        [] \<Rightarrow> (c, None)
      | d # ds \<Rightarrow> (c\<lparr>cl_p2p_inbox := ds\<rparr>, Some d))"

section \<open>Signals from the server\<close>

definition HandleP2PDescription :: "juice_api \<Rightarrow> u32 \<Rightarrow> string \<Rightarrow> Client \<Rightarrow> Client" where
  "HandleP2PDescription J i payload c =
     (let (c, link) = (case FindLink i c of
             Some l \<Rightarrow> if link_remote_set l then (DestroyLink i c, None) else (c, Some l)
           | None \<Rightarrow> (c, None));
          answering = (link = None);
          (c, link) = (if answering
             then CreateLink J i (set_attempts (sm_erase i (mesh_attempts (cl_mesh c))) c)
             else (c, link))
      in case link of
           None \<Rightarrow> c
         | Some l \<Rightarrow>
             let (c, l) = (if \<not> link_remote_set l
                  then let l' = l\<lparr>link_remote_set := True\<rparr>
                       in (set_link i l'
                             (juice_log (juice_set_remote_description (link_agent l) (c_str payload)) c), l')
                  else (c, l))
             in if answering then fst (ShareLink J l i c) else c)"

definition Client_HandleP2PSignal ::
  "juice_api \<Rightarrow> u32 \<Rightarrow> P2PSignalKind \<Rightarrow> string \<Rightarrow> Client \<Rightarrow> Client" where
  "Client_HandleP2PSignal J i kind payload c =
     (if kind = Description then HandleP2PDescription J i payload c
      else if kind = Candidate
      then (case FindLink i c of
              None \<Rightarrow> c
            | Some l \<Rightarrow> juice_log (juice_add_remote_candidate (link_agent l) (c_str payload)) c)
      else if kind = GatheringDone
      then (case FindLink i c of
              None \<Rightarrow> c
            | Some l \<Rightarrow> juice_log (juice_set_remote_gathering_done (link_agent l)) c)
      else c)"

section \<open>Events from libjuice\<close>

definition HandleLinkState :: "PeerLink \<Rightarrow> JuiceEvent \<Rightarrow> Client \<Rightarrow> Client" where
  "HandleLinkState link ev c =
     (case ev_state ev of
        JUICE_STATE_CONNECTED \<Rightarrow>
          FlushLink (ev_peer ev) (link\<lparr>link_connected := True\<rparr>)
            (set_attempts (sm_erase (ev_peer ev) (mesh_attempts (cl_mesh c))) c)
      | JUICE_STATE_COMPLETED \<Rightarrow>
          FlushLink (ev_peer ev) (link\<lparr>link_connected := True\<rparr>)
            (set_attempts (sm_erase (ev_peer ev) (mesh_attempts (cl_mesh c))) c)
      | JUICE_STATE_DISCONNECTED \<Rightarrow> set_link (ev_peer ev) (link\<lparr>link_connected := False\<rparr>) c
      | JUICE_STATE_FAILED \<Rightarrow> DestroyLink (ev_peer ev) c
      | JUICE_STATE_OTHER \<Rightarrow> c)"

definition HandleJuiceEvent :: "JuiceEvent \<Rightarrow> Client \<Rightarrow> Client" where
  "HandleJuiceEvent ev c =
     (case FindLink (ev_peer ev) c of
        None \<Rightarrow> c
      | Some link \<Rightarrow>
          if link_agent link \<noteq> ev_agent ev then c
          else case ev_kind ev of
            Kind_State \<Rightarrow> HandleLinkState link ev c
          | Kind_Candidate \<Rightarrow>
              SendServer (P2PSignal (ev_peer ev) Candidate (map char_of_byte (ev_payload ev))) c
          | Kind_GatheringDone \<Rightarrow> SendServer (P2PSignal (ev_peer ev) GatheringDone []) c
          | Kind_Recv \<Rightarrow> c\<lparr>cl_p2p_inbox := cl_p2p_inbox c @ [(ev_peer ev, ev_payload ev)]\<rparr>)"

definition PollPeers :: "Client \<Rightarrow> Client" where
  "PollPeers c =
     (let batch = mesh_events (cl_mesh c);
          c = c\<lparr>cl_mesh := (cl_mesh c)\<lparr>mesh_events := mesh_scratch (cl_mesh c), mesh_scratch := batch\<rparr>\<rparr>;
          c = foldl (\<lambda>c ev. HandleJuiceEvent ev c) c batch
      in c\<lparr>cl_mesh := (cl_mesh c)\<lparr>mesh_scratch := []\<rparr>\<rparr>)"

end
