(* ===== verification/Client.thy ===== *)
theory Client
  imports Mesh
begin

text \<open>
  The client's server connection (\<open>Client/src/client.cpp\<close>): queueing requests,
  draining and carving the byte stream, caching room state, and the accessors.
  What a non-blocking socket call returns is an input of the operation: a drain
  gets the sequence of read results, a flush the sequence of write results.
  A call that would go on after its sequence is exhausted sees \<open>would_block\<close>.
\<close>

section \<open>Construction and connection\<close>

definition no_ice :: IceServers where
  "no_ice = \<lparr>stun_host = [], stun_port = 0, turn = []\<rparr>"

definition empty_mesh :: P2PMesh where
  "empty_mesh = \<lparr>mesh_events = [], mesh_scratch = [], mesh_links = [], mesh_attempts = []\<rparr>"

definition new_client :: Client where
  "new_client = \<lparr>cl_open = False, cl_rx = [], cl_rx_msg = [], cl_tx = [], cl_mesh = empty_mesh,
     cl_juice = [], cl_ice = no_ice, cl_inbox = [], cl_p2p_inbox = [], cl_id = 0, cl_room = [],
     cl_host = 0, cl_room_open = True, cl_room_passworded = False, cl_members = [], cl_data = [],
     cl_member_data = []\<rparr>"

definition destroy_client :: "Client \<Rightarrow> Client" where
  "destroy_client c = DestroyAllLinks c"

text \<open>
  \<open>Connect\<close> by the outcome of its three steps: resolving, connecting (a failed
  attempt may leave the socket open) and switching to non-blocking mode (a
  connected socket stays open when that fails).
\<close>

datatype connect_outcome = Resolve_failed | Connect_failed bool | Connected bool

definition Connect :: "connect_outcome \<Rightarrow> Client \<Rightarrow> Client \<times> bool" where
  "Connect outcome c =
     (case outcome of
        Resolve_failed \<Rightarrow> (c, False)
      | Connect_failed left_open \<Rightarrow> (c\<lparr>cl_open := left_open\<rparr>, False)
      | Connected nonblocking \<Rightarrow> (c\<lparr>cl_open := True\<rparr>, nonblocking))"

section \<open>Requests\<close>

definition Client_CreateRoom :: "Client \<Rightarrow> Client" where
  "Client_CreateRoom c = SendServer CreateRoom c"

definition Client_JoinRoom :: "string \<Rightarrow> string \<Rightarrow> Client \<Rightarrow> Client" where
  "Client_JoinRoom i password c = SendServer (JoinRoom i password) c"

definition Client_LeaveRoom :: "Client \<Rightarrow> Client" where
  "Client_LeaveRoom c = SendServer LeaveRoom c"

definition Client_KickMember :: "u32 \<Rightarrow> Client \<Rightarrow> Client" where
  "Client_KickMember i c = SendServer (KickMember i) c"

definition Client_BanMember :: "u32 \<Rightarrow> Client \<Rightarrow> Client" where
  "Client_BanMember i c = SendServer (BanMember i) c"

definition Client_TransferHost :: "u32 \<Rightarrow> Client \<Rightarrow> Client" where
  "Client_TransferHost i c = SendServer (TransferHost i) c"

definition Client_SetRoomJoinable :: "bool \<Rightarrow> Client \<Rightarrow> Client" where
  "Client_SetRoomJoinable b c = SendServer (SetRoomJoinable b) c"

definition Client_SetRoomPassword :: "string \<Rightarrow> Client \<Rightarrow> Client" where
  "Client_SetRoomPassword password c = SendServer (SetRoomPassword password) c"

definition SendChat :: "string \<Rightarrow> Client \<Rightarrow> Client" where
  "SendChat text c = SendServer (RoomChat 0 text) c"

definition Client_SetRoomData :: "string \<Rightarrow> string \<Rightarrow> Client \<Rightarrow> Client" where
  "Client_SetRoomData key value c = SendServer (SetRoomData key value) c"

definition DeleteRoomData :: "string \<Rightarrow> Client \<Rightarrow> Client" where
  "DeleteRoomData key c = SendServer (SetRoomData key []) c"

definition Client_SetMemberData :: "string \<Rightarrow> string \<Rightarrow> Client \<Rightarrow> Client" where
  "Client_SetMemberData key value c = SendServer (SetMemberData key value) c"

definition DeleteMemberData :: "string \<Rightarrow> Client \<Rightarrow> Client" where
  "DeleteMemberData key c = SendServer (SetMemberData key []) c"

section \<open>Accessors\<close>

definition IsHost :: "Client \<Rightarrow> bool" where
  "IsHost c \<longleftrightarrow> cl_id c \<noteq> 0 \<and> cl_id c = cl_host c"

definition RoomData :: "string \<Rightarrow> Client \<Rightarrow> string option" where
  "RoomData key c = sm_find (cl_data c) key"

definition MemberDataMap :: "u32 \<Rightarrow> Client \<Rightarrow> (string, string) stdmap option" where
  "MemberDataMap i c = sm_find (cl_member_data c) i"

definition MemberData :: "u32 \<Rightarrow> string \<Rightarrow> Client \<Rightarrow> string option" where
  "MemberData i key c =
     (case MemberDataMap i c of None \<Rightarrow> None | Some data \<Rightarrow> sm_find data key)"

definition Client_Next :: "Client \<Rightarrow> Client \<times> ServerMessage option" where
  "Client_Next c =
     (case cl_inbox c of [] \<Rightarrow> (c, None) | m # ms \<Rightarrow> (c\<lparr>cl_inbox := ms\<rparr>, Some m))"

section \<open>Cached room state\<close>

definition ClearRoomState :: "Client \<Rightarrow> Client" where
  "ClearRoomState c =
     (DestroyAllLinks c)\<lparr>cl_room := [], cl_host := 0, cl_room_open := True,
        cl_room_passworded := False, cl_members := [], cl_data := [], cl_member_data := []\<rparr>"

definition DisconnectServer :: "Client \<Rightarrow> Client" where
  "DisconnectServer c = ClearRoomState (c\<lparr>cl_open := False\<rparr>)"

fun CacheRoomState :: "ServerMessage \<Rightarrow> Client \<Rightarrow> Client" where
  "CacheRoomState (AssignRoomId r) c =
     c\<lparr>cl_room := r, cl_host := 0, cl_room_open := True, cl_room_passworded := False,
       cl_members := [cl_id c], cl_data := [], cl_member_data := []\<rparr>"
| "CacheRoomState (PeerJoined i) c = c\<lparr>cl_members := cl_members c @ [i]\<rparr>"
| "CacheRoomState (PeerLeft i) c =
     (if i = cl_id c then ClearRoomState c
      else let c = c\<lparr>cl_members := filter (\<lambda>j. j \<noteq> i) (cl_members c),
                     cl_member_data := sm_erase i (cl_member_data c)\<rparr>;
               c = DestroyLink i c
           in set_attempts (sm_erase i (mesh_attempts (cl_mesh c))) c)"
| "CacheRoomState (HostChanged i) c = c\<lparr>cl_host := i\<rparr>"
| "CacheRoomState (RoomDataChanged k v) c =
     (if v = [] then c\<lparr>cl_data := sm_erase k (cl_data c)\<rparr>
      else c\<lparr>cl_data := sm_put k v (cl_data c)\<rparr>)"
| "CacheRoomState (MemberDataChanged i k v) c =
     (if v = []
      then case sm_find (cl_member_data c) i of
             None \<Rightarrow> c
           | Some data \<Rightarrow>
               let data' = sm_erase k data
               in if data' = [] then c\<lparr>cl_member_data := sm_erase i (cl_member_data c)\<rparr>
                  else c\<lparr>cl_member_data := sm_put i data' (cl_member_data c)\<rparr>
      else let data = (case sm_find (cl_member_data c) i of None \<Rightarrow> [] | Some d \<Rightarrow> d)
           in c\<lparr>cl_member_data := sm_put i (sm_put k v data) (cl_member_data c)\<rparr>)"
| "CacheRoomState KickedByHost c = ClearRoomState c"
| "CacheRoomState BannedByHost c = ClearRoomState c"
| "CacheRoomState (RoomAccessChanged a b) c = c\<lparr>cl_room_open := a, cl_room_passworded := b\<rparr>"
| "CacheRoomState _ c = c"

section \<open>The byte stream from the server\<close>

datatype socket_result = Transferred bytes | Would_block | Socket_error

text \<open>
  The read loop: it appends what arrives until a call reports an error code.
  The second component says whether that code was \<open>would_block\<close> or \<open>try_again\<close>.
\<close>

fun drain_loop :: "socket_result list \<Rightarrow> bytes \<Rightarrow> bytes \<times> bool" where
  "drain_loop (Transferred bs # rs) rx = drain_loop rs (rx @ bs)"
| "drain_loop (Socket_error # rs) rx = (rx, False)"
| "drain_loop (Would_block # rs) rx = (rx, True)"
| "drain_loop [] rx = (rx, True)"

definition DrainServer :: "socket_result list \<Rightarrow> Client \<Rightarrow> Client \<times> bool" where
  "DrainServer rs c =
     (let (rx, blocked) = drain_loop rs (cl_rx c); c = c\<lparr>cl_rx := rx\<rparr>
      in if \<not> blocked then (DisconnectServer c, False) else (c, True))"

text \<open>What one decoded message does: transport metadata is kept inside, the rest is cached and surfaced.\<close>

definition dispatch :: "juice_api \<Rightarrow> ServerMessage \<Rightarrow> Client \<Rightarrow> Client" where
  "dispatch J msg c =
     (case msg of
        AssignClientId i \<Rightarrow> c\<lparr>cl_id := i\<rparr>
      | IceServersMsg ice \<Rightarrow> c\<lparr>cl_ice := ice\<rparr>
      | P2PSignal i kind payload \<Rightarrow> Client_HandleP2PSignal J i kind payload c
      | _ \<Rightarrow> (let c = CacheRoomState msg c in c\<lparr>cl_inbox := cl_inbox c @ [msg]\<rparr>))"

text \<open>
  The carving loop over the unconsumed bytes \<open>remaining\<close>.  It ends with
  what is left unconsumed, with a disconnect, or at a message whose decoding
  gives an indeterminate \<open>bool\<close>, from where on the behaviour is undefined.
\<close>

datatype carve_result = Carved Client bytes | Carve_disconnect Client | Carve_undefined

function carve_loop :: "juice_api \<Rightarrow> bytes \<Rightarrow> Client \<Rightarrow> carve_result" where
  "carve_loop J remaining c =
     (if length remaining < frame_header_size then Carved c remaining
      else case DecodeFrameHeader (take frame_header_size remaining) of
        None \<Rightarrow> Carve_disconnect c
      | Some (len, more') \<Rightarrow>
          if length remaining < frame_header_size + len then Carved c remaining
          else case AppendFragment (cl_rx_msg c) (take len (drop frame_header_size remaining)) of
            None \<Rightarrow> Carve_disconnect c
          | Some rx_msg \<Rightarrow>
              let rest = drop (frame_header_size + len) remaining
              in if more' then carve_loop J rest (c\<lparr>cl_rx_msg := rx_msg\<rparr>)
                 else case in_ServerMessage rx_msg of
                        Inl (Errc _) \<Rightarrow> Carve_disconnect (c\<lparr>cl_rx_msg := []\<rparr>)
                      | Inl (Undefined_bool _) \<Rightarrow> Carve_undefined
                      | Inr (msg, _) \<Rightarrow> carve_loop J rest (dispatch J msg (c\<lparr>cl_rx_msg := []\<rparr>)))"
  by pat_completeness auto
termination
  by (relation "measure (\<lambda>(J, remaining, c). length remaining)") auto

declare carve_loop.simps [simp del]

text \<open>
  \<open>CarveServer\<close>: on success the consumed prefix is erased from \<open>rx\<close>; a
  disconnect returns before that.  \<open>None\<close> is undefined behaviour.
\<close>

definition CarveServer :: "juice_api \<Rightarrow> Client \<Rightarrow> (Client \<times> bool) option" where
  "CarveServer J c =
     (case carve_loop J (cl_rx c) c of
        Carved c' rest \<Rightarrow> Some (c'\<lparr>cl_rx := rest\<rparr>, True)
      | Carve_disconnect c' \<Rightarrow> Some (DisconnectServer c', False)
      | Carve_undefined \<Rightarrow> None)"

section \<open>The byte stream to the server\<close>

text \<open>
  The write loop: each call takes a prefix of \<open>tx\<close>.  The result is what was sent, what is
  left, and whether the loop ended without a hard error.
\<close>

fun flush_loop :: "socket_result list \<Rightarrow> bytes \<Rightarrow> bytes \<times> bytes \<times> bool" where
  "flush_loop (Transferred bs # rs) tx =
     (if tx = [] then ([], [], True)
      else let n = min (length bs) (length tx); (sent, left, ok) = flush_loop rs (drop n tx)
           in (take n tx @ sent, left, ok))"
| "flush_loop (Socket_error # rs) tx = (if tx = [] then ([], [], True) else ([], tx, False))"
| "flush_loop (Would_block # rs) tx = ([], tx, True)"
| "flush_loop [] tx = ([], tx, True)"

definition FlushServer :: "socket_result list \<Rightarrow> Client \<Rightarrow> Client \<times> bytes \<times> bool" where
  "FlushServer rs c =
     (let (sent, left, ok) = flush_loop rs (cl_tx c); c = c\<lparr>cl_tx := left\<rparr>
      in if \<not> ok then (DisconnectServer c, sent, False) else (c, sent, True))"

text \<open>
  \<open>Poll\<close>: the new client, the bytes handed to the socket, and the result.
\<close>

definition Poll ::
  "juice_api \<Rightarrow> socket_result list \<Rightarrow> socket_result list \<Rightarrow> Client \<Rightarrow> (Client \<times> bytes \<times> bool) option" where
  "Poll J reads writes c =
     (if \<not> cl_open c then Some (c, [], False)
      else case DrainServer reads c of
        (c, False) \<Rightarrow> Some (c, [], False)
      | (c, True) \<Rightarrow>
          (case CarveServer J c of
             None \<Rightarrow> None
           | Some (c, False) \<Rightarrow> Some (c, [], False)
           | Some (c, True) \<Rightarrow> Some (FlushServer writes (PollPeers c))))"

end
