(* ===== verification/Client_Cache.thy ===== *)
theory Client_Cache
  imports Client Room_View
begin

text \<open>
  The client's cache refines the contract of \<open>Room_View\<close>: \<open>cache_of\<close> is the
  abstraction function, and dispatching a message commutes with observing it.
  The peer mesh never touches what the cache abstracts to.
\<close>

definition cache_of :: "Client \<Rightarrow> RoomView" where
  "cache_of c = \<lparr>view_id = cl_id c, view_room = cl_room c, view_host = cl_host c,
     view_open = cl_room_open c, view_passworded = cl_room_passworded c,
     view_members = cl_members c, view_data = cl_data c, view_member_data = cl_member_data c\<rparr>"

section \<open>Frame rules of the mesh\<close>

text \<open>Everything but the mesh, the libjuice trace and the outgoing bytes.\<close>

definition outside_mesh :: "Client \<Rightarrow> RoomView \<times> bool \<times> bytes \<times> bytes \<times> IceServers \<times> ServerMessage list" where
  "outside_mesh c = (cache_of c, cl_open c, cl_rx c, cl_rx_msg c, cl_ice c, cl_inbox c)"

lemma outside_mesh_prims [simp, mesh]:
  "outside_mesh (set_links l c) = outside_mesh c"
  "outside_mesh (set_attempts a c) = outside_mesh c"
  "outside_mesh (juice_log j c) = outside_mesh c"
  "outside_mesh (SendServer m c) = outside_mesh c"
  "outside_mesh (set_link i link c) = outside_mesh c"
  "outside_mesh (c\<lparr>cl_p2p_inbox := x\<rparr>) = outside_mesh c"
  "outside_mesh (c\<lparr>cl_mesh := y\<rparr>) = outside_mesh c"
  "outside_mesh (c\<lparr>cl_tx := z\<rparr>) = outside_mesh c"
  by (simp_all add: outside_mesh_def cache_of_def set_links_def set_attempts_def juice_log_def
      SendServer_def set_link_def)

lemma foldl_keeps_outside:
  "(\<And>c x. outside_mesh (f c x) = outside_mesh c) \<Longrightarrow> outside_mesh (foldl f c xs) = outside_mesh c"
  by (induction xs arbitrary: c) auto

lemma outside_CreateLink [simp, mesh]: "CreateLink J i c = (c', l) \<Longrightarrow> outside_mesh c' = outside_mesh c"
  by (auto simp: CreateLink_def Let_def split: if_splits option.splits)

lemma outside_ShareLink [simp, mesh]: "ShareLink J l i c = (c', b) \<Longrightarrow> outside_mesh c' = outside_mesh c"
  by (auto simp: ShareLink_def Let_def split: option.splits)

lemma outside_FlushLink [simp, mesh]: "outside_mesh (FlushLink i l c) = outside_mesh c"
  by (simp add: FlushLink_def foldl_keeps_outside)

lemma outside_DestroyLink [simp, mesh]: "outside_mesh (DestroyLink i c) = outside_mesh c"
  by (simp add: DestroyLink_def split: option.split)

lemma outside_DestroyAllLinks [simp, mesh]: "outside_mesh (DestroyAllLinks c) = outside_mesh c"
  by (simp add: DestroyAllLinks_def foldl_keeps_outside case_prod_unfold)

lemma outside_P2PDescription [simp, mesh]: "outside_mesh (HandleP2PDescription J i d c) = outside_mesh c"
  by (auto simp: HandleP2PDescription_def Let_def fst_def split: option.split prod.split)

lemma outside_P2PSignal [simp, mesh]: "outside_mesh (Client_HandleP2PSignal J i k d c) = outside_mesh c"
  by (simp add: Client_HandleP2PSignal_def split: option.split)

lemma outside_JuiceEvent [simp, mesh]: "outside_mesh (HandleJuiceEvent ev c) = outside_mesh c"
  by (auto simp: HandleJuiceEvent_def HandleLinkState_def
      split: option.split JuiceEventKind.split juice_state.split)

lemma outside_PollPeers [simp, mesh]: "outside_mesh (PollPeers c) = outside_mesh c"
  by (simp add: PollPeers_def Let_def foldl_keeps_outside)

lemma outside_SendP2P: "SendP2P J i d c = (c', b) \<Longrightarrow> outside_mesh c' = outside_mesh c"
  by (auto simp: SendP2P_def Let_def split: if_splits option.splits prod.splits bool.splits)

lemma outside_meshD:
  assumes "outside_mesh c' = outside_mesh c"
  shows "cache_of c' = cache_of c" "cl_open c' = cl_open c" "cl_rx c' = cl_rx c"
    "cl_rx_msg c' = cl_rx_msg c" "cl_ice c' = cl_ice c" "cl_inbox c' = cl_inbox c"
  using assms by (simp_all add: outside_mesh_def)

section \<open>The cache refines the contract\<close>

lemma cache_ClearRoomState: "cache_of (ClearRoomState c) = lobby_view (cl_id c)"
  using outside_meshD(1) [OF outside_DestroyAllLinks [of c]]
  by (simp add: ClearRoomState_def cache_of_def lobby_view_def)

lemma sm_erase_absent': "sm_find m k = None \<Longrightarrow> sm_erase k m = m"
  by (auto simp: sm_find_None sm_erase_def filter_id_conv)

lemma cache_MemberData:
  "cache_of (CacheRoomState (MemberDataChanged i k v) c) =
     (cache_of c)\<lparr>view_member_data := member_write i k v (cl_member_data c)\<rparr>"
  by (auto simp: cache_of_def member_write_def data_write_def Let_def sm_erase_absent'
      split: option.split)

lemma cache_PeerLeft:
  "cache_of (CacheRoomState (PeerLeft i) c) = observe (PeerLeft i) (cache_of c)"
proof (cases "i = cl_id c")
  case True
  then show ?thesis by (simp add: cache_ClearRoomState) (simp add: cache_of_def)
next
  case False
  let ?c = "c\<lparr>cl_members := filter (\<lambda>j. j \<noteq> i) (cl_members c), cl_member_data := sm_erase i (cl_member_data c)\<rparr>"
  have "cache_of (CacheRoomState (PeerLeft i) c) = cache_of ?c"
    using False outside_meshD(1) [OF trans [OF outside_mesh_prims(2) outside_DestroyLink], of _ i ?c]
    by (simp add: Let_def)
  then show ?thesis using False by (simp add: cache_of_def)
qed

lemma cache_CacheRoomState:
  "(\<forall>i. m \<noteq> AssignClientId i) \<Longrightarrow> cache_of (CacheRoomState m c) = observe m (cache_of c)"
proof (cases m)
  case (MemberDataChanged i k v)
  then show ?thesis by (simp only: cache_MemberData observe.simps) (simp add: cache_of_def)
next
  case (PeerLeft i)
  then show ?thesis by (simp only: cache_PeerLeft)
qed (simp_all add: cache_ClearRoomState, simp_all add: cache_of_def lobby_view_def data_write_def)

lemma cache_dispatch: "cache_of (dispatch J m c) = observe m (cache_of c)"
proof -
  have inbox: "cache_of (c\<lparr>cl_inbox := x\<rparr>) = cache_of c" for c x by (simp add: cache_of_def)
  show ?thesis
  proof (cases m)
    case (P2PSignal i k d)
    then show ?thesis using outside_meshD(1) [OF outside_P2PSignal] by (simp add: dispatch_def)
  next
    case (AssignClientId i)
    then show ?thesis by (simp add: dispatch_def cache_of_def)
  next
    case (IceServersMsg ice)
    then show ?thesis by (simp add: dispatch_def cache_of_def)
  qed (simp_all del: CacheRoomState.simps observe.simps add: dispatch_def Let_def inbox cache_CacheRoomState)
qed

end
