(* ===== verification/Client_Stream.thy ===== *)
theory Client_Stream
  imports Client_Cache
begin

text \<open>
  The client's byte stream: carving does not depend on how the network cuts
  the stream into reads, a stream of frames is carved into exactly the messages
  that were framed, and no valid stream ever makes the client hang up.  A run of a client
  is any interleaving of polls, requests, datagrams and libjuice callbacks.
\<close>

section \<open>Frame rules of dispatching\<close>

lemma ClearRoomState_frame:
  "cl_rx (ClearRoomState c) = cl_rx c" "cl_rx_msg (ClearRoomState c) = cl_rx_msg c"
  "cl_open (ClearRoomState c) = cl_open c" "cl_inbox (ClearRoomState c) = cl_inbox c"
  using outside_meshD [OF outside_DestroyAllLinks [of c]] by (simp_all add: ClearRoomState_def)

lemma CacheRoomState_frame:
  "cl_rx (CacheRoomState m c) = cl_rx c" "cl_rx_msg (CacheRoomState m c) = cl_rx_msg c"
  "cl_open (CacheRoomState m c) = cl_open c" "cl_inbox (CacheRoomState m c) = cl_inbox c"
proof -
  have left: "outside_mesh (set_attempts a (DestroyLink i c)) = outside_mesh c" for a i c by simp
  show "cl_rx (CacheRoomState m c) = cl_rx c" "cl_rx_msg (CacheRoomState m c) = cl_rx_msg c"
    "cl_open (CacheRoomState m c) = cl_open c" "cl_inbox (CacheRoomState m c) = cl_inbox c"
    by (cases m; simp add: ClearRoomState_frame Let_def outside_meshD [OF left] split: option.split)+
qed

fun surfaced :: "ServerMessage \<Rightarrow> bool" where
  "surfaced (AssignClientId _) = False"
| "surfaced (IceServersMsg _) = False"
| "surfaced (P2PSignal _ _ _) = False"
| "surfaced _ = True"

lemma dispatch_frame:
  "cl_rx (dispatch J m c) = cl_rx c" "cl_rx_msg (dispatch J m c) = cl_rx_msg c"
  "cl_open (dispatch J m c) = cl_open c"
  by (cases m; simp add: dispatch_def Let_def CacheRoomState_frame outside_meshD [OF outside_P2PSignal]
      del: CacheRoomState.simps)+

lemma dispatch_inbox: "cl_inbox (dispatch J m c) = cl_inbox c @ (if surfaced m then [m] else [])"
  by (cases m) (simp_all add: dispatch_def Let_def CacheRoomState_frame outside_meshD [OF outside_P2PSignal]
      del: CacheRoomState.simps)

definition dispatch_all :: "juice_api \<Rightarrow> ServerMessage list \<Rightarrow> Client \<Rightarrow> Client" where
  "dispatch_all J ms c = foldl (\<lambda>c m. dispatch J m c) c ms"

lemma dispatch_all_frame:
  "cl_rx (dispatch_all J ms c) = cl_rx c" "cl_rx_msg (dispatch_all J ms c) = cl_rx_msg c"
  "cl_open (dispatch_all J ms c) = cl_open c"
  "cl_inbox (dispatch_all J ms c) = cl_inbox c @ filter surfaced ms"
  "cache_of (dispatch_all J ms c) = observe_all ms (cache_of c)"
  by (induction ms arbitrary: c)
    (simp_all add: dispatch_all_def dispatch_frame dispatch_inbox cache_dispatch)

section \<open>Carving\<close>

text \<open>The carving loop, one frame at a time.\<close>

lemma carve_loop_step:
  "carve_loop J a c =
     (case next_frame (cl_rx_msg c) a of
        Need_more \<Rightarrow> Carved c a
      | Bad_frame \<Rightarrow> Carve_disconnect c
      | Fault (Errc _) \<Rightarrow> Carve_disconnect (c\<lparr>cl_rx_msg := []\<rparr>)
      | Fault (Undefined_bool _) \<Rightarrow> Carve_undefined
      | Fragment x rest \<Rightarrow> carve_loop J rest (c\<lparr>cl_rx_msg := x\<rparr>)
      | Message m rest \<Rightarrow> carve_loop J rest (dispatch J m (c\<lparr>cl_rx_msg := []\<rparr>)))"
  by (subst carve_loop.simps)
    (simp add: next_frame_def split: option.split sum.split in_fault.split)

lemma carve_induct [case_names step]:
  assumes "\<And>a c. (\<And>x rest. next_frame (cl_rx_msg c) a = Fragment x rest \<Longrightarrow> P rest (c\<lparr>cl_rx_msg := x\<rparr>))
     \<Longrightarrow> (\<And>m rest. next_frame (cl_rx_msg c) a = Message m rest \<Longrightarrow>
           P rest (dispatch J m (c\<lparr>cl_rx_msg := []\<rparr>)))
     \<Longrightarrow> P a c"
  shows "P a c"
  by (induction a arbitrary: c rule: measure_induct_rule [of length])
    (metis assms next_frame_shorter)

text \<open>Carving a prefix first and the rest later is carving the whole.\<close>

lemma carve_append:
  "carve_loop J a c = Carved c' rest \<Longrightarrow> carve_loop J (a @ y) c = carve_loop J (rest @ y) c'"
proof (induction a c rule: carve_induct [where J = J])
  case (step a c)
  show ?case
  proof (cases "next_frame (cl_rx_msg c) a = Need_more")
    case True
    then show ?thesis using step.prems by (simp add: carve_loop_step [of J a c])
  next
    case False
    then show ?thesis
      using step next_frame_append [OF False, of y]
      by (simp add: carve_loop_step [of J a c] carve_loop_step [of J "a @ y" c]
          split: frame_step.splits in_fault.splits)
  qed
qed

text \<open>Whatever the reference reassembly yields, carving dispatches.\<close>

lemma carve_unframe:
  "unframe (cl_rx_msg c) a = Some (body, rest) \<Longrightarrow> in_ServerMessage body = Inr (m, extra) \<Longrightarrow>
   carve_loop J a c = carve_loop J rest (dispatch J m (c\<lparr>cl_rx_msg := []\<rparr>))"
proof (induction a c rule: carve_induct [where J = J])
  case (step a c)
  then show ?case
    using next_frame_unframe [OF step.prems(1)] by (auto simp: carve_loop_step [of J a c])
qed

lemma carve_frame:
  assumes "fits m" and "cl_rx_msg c = []"
  shows "carve_loop J (FrameMessage m @ rest) c = carve_loop J rest (dispatch J m c)"
proof -
  have eq: "c\<lparr>cl_rx_msg := []\<rparr> = c" using assms(2) by simp
  show ?thesis
    using carve_unframe [of c "FrameMessage m @ rest" "message_bytes m" rest m "[]" J] assms
    by (simp add: unframe_FrameMessage message_bytes_decode fits_def eq)
qed

lemma carve_frames:
  assumes "list_all fits ms" and "cl_rx_msg c = []"
  shows "carve_loop J (concat (map FrameMessage ms) @ rest) c = carve_loop J rest (dispatch_all J ms c)"
  using assms
proof (induction ms arbitrary: c)
  case Nil
  then show ?case by (simp add: dispatch_all_def)
next
  case (Cons m ms)
  then show ?case by (simp add: carve_frame dispatch_frame dispatch_all_def)
qed

end
