(* ===== verification/Client_Runs.thy ===== *)
theory Client_Runs
  imports Client_Stream "HOL-Library.Sublist"
begin

text \<open>
  Runs of a client.  \<open>parse_stream\<close> is the reference parser of the server's byte
  stream; carving implements it, so after any interleaving of operations a
  connected client has cached and surfaced exactly the messages in the bytes
  it has received, and it never hangs up on a stream of valid frames.
\<close>

section \<open>The reference parser\<close>

function parse_stream :: "bytes \<Rightarrow> bytes \<Rightarrow> (ServerMessage list \<times> bytes \<times> bytes) option" where
  "parse_stream body a =
     (case next_frame body a of
        Need_more \<Rightarrow> Some ([], body, a)
      | Bad_frame \<Rightarrow> None
      | Fault f \<Rightarrow> None
      | Fragment x rest \<Rightarrow> parse_stream x rest
      | Message m rest \<Rightarrow> map_option (\<lambda>(ms, b, r). (m # ms, b, r)) (parse_stream [] rest))"
  by pat_completeness auto
termination
  by (relation "measure (\<lambda>(body, a). length a)") (auto simp: next_frame_shorter)

declare parse_stream.simps [simp del]

lemma parse_append:
  "parse_stream body a = Some (ms, b, r) \<Longrightarrow>
   parse_stream body (a @ y) = map_option (\<lambda>(ns, b', r'). (ms @ ns, b', r')) (parse_stream b (r @ y))"
proof (induction body a arbitrary: ms rule: parse_stream.induct)
  case (1 body a)
  show ?case
  proof (cases "next_frame body a = Need_more")
    case True
    then show ?thesis
      using "1.prems" by (simp add: parse_stream.simps [of body a] option.map_ident case_prod_unfold)
  next
    case False
    then show ?thesis
      using 1 next_frame_append [OF False, of y]
      by (simp add: parse_stream.simps [of body a] parse_stream.simps [of body "a @ y"]
          split: frame_step.splits)
        (auto simp: option.map_comp comp_def case_prod_unfold)
  qed
qed

lemma parse_prefix: "parse_stream body (a @ y) \<noteq> None \<Longrightarrow> parse_stream body a \<noteq> None"
proof (induction body a rule: parse_stream.induct)
  case (1 body a)
  note unfolded = parse_stream.simps [of body a] parse_stream.simps [of body "a @ y"]
  show ?case
    using 1 next_frame_append [of body a y]
    by (cases "next_frame body a") (simp_all add: unfolded)
qed

lemma parse_unframe:
  "unframe body a = Some (x, rest) \<Longrightarrow> in_ServerMessage x = Inr (m, extra) \<Longrightarrow>
   parse_stream body a = map_option (\<lambda>(ms, b, r). (m # ms, b, r)) (parse_stream [] rest)"
proof (induction body a rule: parse_stream.induct)
  case (1 body a)
  then show ?case
    using next_frame_unframe [OF "1.prems"(1)] by (auto simp: parse_stream.simps [of body a])
qed

lemma parse_frames: "list_all fits ms \<Longrightarrow> parse_stream [] (concat (map FrameMessage ms)) = Some (ms, [], [])"
proof (induction ms)
  case Nil
  then show ?case by (simp add: parse_stream.simps [of "[]" "[]"] next_frame_def)
next
  case (Cons m ms)
  then show ?case
    using parse_unframe [of "[]" "FrameMessage m @ concat (map FrameMessage ms)" "message_bytes m"
        "concat (map FrameMessage ms)" m "[]"]
    by (simp add: unframe_FrameMessage message_bytes_decode fits_def)
qed

text \<open>Carving implements the parser.\<close>

definition carves_as :: "Client \<Rightarrow> ServerMessage list \<times> bytes \<times> bytes \<Rightarrow> carve_result \<Rightarrow> bool" where
  "carves_as c p res \<longleftrightarrow> (case p of (ms, b, r) \<Rightarrow>
     \<exists>c'. res = Carved c' r \<and> cl_rx_msg c' = b \<and> cl_open c' = cl_open c
       \<and> cache_of c' = observe_all ms (cache_of c) \<and> cl_inbox c' = cl_inbox c @ filter surfaced ms)"

lemma cache_of_rx_msg [simp]: "cache_of (c\<lparr>cl_rx_msg := x\<rparr>) = cache_of c"
  by (simp add: cache_of_def)

lemma carve_parse:
  "case parse_stream (cl_rx_msg c) a of
     None \<Rightarrow> \<forall>c' r. carve_loop J a c \<noteq> Carved c' r
   | Some p \<Rightarrow> carves_as c p (carve_loop J a c)"
proof (induction a c rule: carve_induct [where J = J])
  case (step a c)
  show ?case
  proof (cases "next_frame (cl_rx_msg c) a")
    case (Fragment x rest)
    then show ?thesis
      using step(1) [OF Fragment]
      by (auto simp: parse_stream.simps [of "cl_rx_msg c" a] carve_loop_step [of J a c] carves_as_def
          split: option.splits)
  next
    case (Message m rest)
    then show ?thesis
      using step(2) [OF Message]
      by (auto simp: parse_stream.simps [of "cl_rx_msg c" a] carve_loop_step [of J a c] carves_as_def
          dispatch_frame dispatch_inbox cache_dispatch split: option.splits)
  qed (auto simp: parse_stream.simps [of "cl_rx_msg c" a] carve_loop_step [of J a c] carves_as_def
        split: in_fault.splits)
qed

section \<open>Runs\<close>

fun received :: "socket_result list \<Rightarrow> bytes" where
  "received (Transferred bs # rs) = bs @ received rs"
| "received _ = []"

fun failing :: "socket_result list \<Rightarrow> bool" where
  "failing (Transferred bs # rs) = failing rs"
| "failing (Socket_error # rs) = True"
| "failing _ = False"

text \<open>
  One operation of the application or of a libjuice thread on a client: the bytes
  it takes from the socket, the messages it hands to the application, and the
  client after it.
\<close>

inductive client_step :: "juice_api \<Rightarrow> Client \<Rightarrow> bytes \<Rightarrow> ServerMessage list \<Rightarrow> Client \<Rightarrow> bool" for J where
  cs_poll: "cl_open c \<Longrightarrow> Poll J reads writes c = Some (c', sent, ok) \<Longrightarrow>
     client_step J c (received reads) [] c'"
| cs_request: "client_step J c [] [] (SendServer m c)"
| cs_send_p2p: "client_step J c [] [] (fst (SendP2P J i d c))"
| cs_next: "Client_Next c = (c', Some m) \<Longrightarrow> client_step J c [] [m] c'"
| cs_next_none: "Client_Next c = (c', None) \<Longrightarrow> client_step J c [] [] c'"
| cs_next_p2p: "client_step J c [] [] (fst (NextP2P c))"
| cs_callback: "client_step J c [] [] (c\<lparr>cl_mesh := PushJuiceEvent a peer ev (cl_mesh c)\<rparr>)"

inductive client_run :: "juice_api \<Rightarrow> Client \<Rightarrow> bytes \<Rightarrow> ServerMessage list \<Rightarrow> Client \<Rightarrow> bool" for J where
  client_refl: "client_run J c [] [] c"
| client_more: "client_run J c bs outs c' \<Longrightarrow> client_step J c' bs' outs' c'' \<Longrightarrow>
     client_run J c (bs @ bs') (outs @ outs') c''"

text \<open>What a connected client has made of the bytes \<open>bs\<close>, having handed out \<open>outs\<close>.\<close>

definition tracks :: "bytes \<Rightarrow> ServerMessage list \<Rightarrow> Client \<Rightarrow> bool" where
  "tracks bs outs c \<longleftrightarrow> (\<exists>ms. parse_stream [] bs = Some (ms, cl_rx_msg c, cl_rx c)
     \<and> cache_of c = observe_all ms (lobby_view 0) \<and> outs @ cl_inbox c = filter surfaced ms)"

lemma tracks_outside:
  "outside_mesh c' = outside_mesh c \<Longrightarrow> tracks bs outs c' = tracks bs outs c"
  by (simp add: tracks_def outside_meshD [of c' c])

lemma drain_loop_received: "drain_loop rs rx = (rx @ received rs, \<not> failing rs)"
  by (induction rs arbitrary: rx rule: received.induct) auto

lemma DisconnectServer_closed: "\<not> cl_open (DisconnectServer c)"
  by (simp add: DisconnectServer_def ClearRoomState_frame)

lemma outside_FlushServer:
  "FlushServer ws c = (c', sent, True) \<Longrightarrow> outside_mesh c' = outside_mesh c"
  by (auto simp: FlushServer_def Let_def split: prod.splits if_splits)

lemma FlushServer_failed: "FlushServer ws c = (c', sent, False) \<Longrightarrow> \<not> cl_open c'"
  by (auto simp: FlushServer_def Let_def DisconnectServer_closed split: prod.splits if_splits)

lemma cache_of_rx [simp]: "cache_of (c\<lparr>cl_rx := x\<rparr>) = cache_of c"
  by (simp add: cache_of_def)

text \<open>Draining and carving a client that tracks its bytes.\<close>

lemma carve_tracks:
  assumes "tracks bs outs c"
  shows "case parse_stream [] (bs @ x) of
     None \<Rightarrow> \<forall>c' r. carve_loop J (cl_rx c @ x) (c\<lparr>cl_rx := cl_rx c @ x\<rparr>) \<noteq> Carved c' r
   | Some _ \<Rightarrow> \<exists>c' r. carve_loop J (cl_rx c @ x) (c\<lparr>cl_rx := cl_rx c @ x\<rparr>) = Carved c' r
       \<and> tracks (bs @ x) outs (c'\<lparr>cl_rx := r\<rparr>) \<and> cl_open c' = cl_open c"
proof -
  obtain ms where ms: "parse_stream [] bs = Some (ms, cl_rx_msg c, cl_rx c)"
    and cache: "cache_of c = observe_all ms (lobby_view 0)" and outs: "outs @ cl_inbox c = filter surfaced ms"
    using assms by (auto simp: tracks_def)
  let ?c = "c\<lparr>cl_rx := cl_rx c @ x\<rparr>"
  have parse: "parse_stream [] (bs @ x) =
      map_option (\<lambda>(ns, b, r). (ms @ ns, b, r)) (parse_stream (cl_rx_msg c) (cl_rx c @ x))"
    by (rule parse_append [OF ms])
  show ?thesis
  proof (cases "parse_stream (cl_rx_msg c) (cl_rx c @ x)")
    case None
    then show ?thesis using carve_parse [where c = ?c and a = "cl_rx c @ x" and J = J] parse by simp
  next
    case (Some q)
    obtain ns b r where q: "q = (ns, b, r)" by (cases q) auto
    then obtain c' where c': "carve_loop J (cl_rx c @ x) ?c = Carved c' r" "cl_rx_msg c' = b"
      "cl_open c' = cl_open c" "cache_of c' = observe_all ns (cache_of c)"
      "cl_inbox c' = cl_inbox c @ filter surfaced ns"
      using carve_parse [where c = ?c and a = "cl_rx c @ x" and J = J] Some by (auto simp: carves_as_def)
    have "outs @ cl_inbox c' = filter surfaced (ms @ ns)" using c'(5) outs by simp
    then show ?thesis
      using c' cache parse Some q by (auto simp: tracks_def)
  qed
qed

lemma Poll_open:
  assumes "cl_open c" and "tracks bs outs c" and "Poll J reads writes c = Some (c', sent, ok)" and "cl_open c'"
  shows "ok \<and> \<not> failing reads \<and> tracks (bs @ received reads) outs c'"
proof -
  let ?c = "c\<lparr>cl_rx := cl_rx c @ received reads\<rparr>"
  have calm: "\<not> failing reads"
    using assms(1,3,4) by (auto simp: Poll_def DrainServer_def drain_loop_received DisconnectServer_closed)
  then have drain: "DrainServer reads c = (?c, True)" by (simp add: DrainServer_def drain_loop_received)
  then obtain c1 r where carve: "carve_loop J (cl_rx c @ received reads) ?c = Carved c1 r"
    using assms(1,3,4)
    by (auto simp: Poll_def CarveServer_def DisconnectServer_closed split: carve_result.splits)
  then have flush: "FlushServer writes (PollPeers (c1\<lparr>cl_rx := r\<rparr>)) = (c', sent, ok)"
    using assms(1,3) drain by (simp add: Poll_def CarveServer_def)
  have ok: "ok" using FlushServer_failed flush assms(4) by (cases ok) auto
  have "tracks (bs @ received reads) outs (c1\<lparr>cl_rx := r\<rparr>)"
    using carve_tracks [OF assms(2), where x = "received reads" and J = J] carve by (auto split: option.splits)
  moreover have "outside_mesh c' = outside_mesh (c1\<lparr>cl_rx := r\<rparr>)"
    using outside_FlushServer flush ok by simp
  ultimately show ?thesis using ok calm tracks_outside [of c' "c1\<lparr>cl_rx := r\<rparr>"] by simp
qed

lemma outside_SendP2P_fst: "outside_mesh (fst (SendP2P J i d c)) = outside_mesh c"
  by (rule outside_SendP2P [of J i d c _ "snd (SendP2P J i d c)"]) simp

lemma outside_NextP2P: "outside_mesh (fst (NextP2P c)) = outside_mesh c"
  by (simp add: NextP2P_def split: list.split)

lemma Client_Next_tracks:
  "Client_Next c = (c', r) \<Longrightarrow> tracks bs (outs @ (case r of None \<Rightarrow> [] | Some m \<Rightarrow> [m])) c' = tracks bs outs c"
  "Client_Next c = (c', r) \<Longrightarrow> cl_open c' = cl_open c"
  by (auto simp: Client_Next_def tracks_def cache_of_def split: list.splits)

lemma Poll_closed: "Poll J reads writes c = Some (c', sent, ok) \<Longrightarrow> \<not> cl_open c \<Longrightarrow> c' = c"
  by (simp add: Poll_def)

lemma tracks_frame:
  "outside_mesh c' = outside_mesh c \<Longrightarrow> cl_open c' \<Longrightarrow> (cl_open c \<Longrightarrow> tracks bs outs c) \<Longrightarrow> tracks bs outs c'"
  using tracks_outside outside_meshD(2) by blast

lemma client_step_tracks:
  assumes "client_step J c bs' outs' c'" and "cl_open c'" and "cl_open c \<Longrightarrow> tracks bs outs c"
  shows "tracks (bs @ bs') (outs @ outs') c'"
  using assms
proof (induction rule: client_step.induct)
  case (cs_poll c reads writes c' sent ok)
  then show ?case using Poll_open by auto
next
  case (cs_next c c' m)
  then show ?case using Client_Next_tracks [OF cs_next.hyps] by simp
next
  case (cs_next_none c c')
  then show ?case using Client_Next_tracks [OF cs_next_none.hyps] by simp
next
  case (cs_send_p2p c i d)
  then show ?case using tracks_frame [OF outside_SendP2P_fst] by simp
next
  case (cs_next_p2p c)
  then show ?case using tracks_frame [OF outside_NextP2P] by simp
next
  case (cs_request c m)
  then show ?case using tracks_frame [OF outside_mesh_prims(4)] by simp
next
  case (cs_callback c a peer ev)
  then show ?case using tracks_frame [OF outside_mesh_prims(7)] by simp
qed

lemma client_run_tracks:
  "client_run J c0 bs outs c \<Longrightarrow> c0 = new_client\<lparr>cl_open := True\<rparr> \<Longrightarrow> cl_open c \<Longrightarrow> tracks bs outs c"
proof (induction rule: client_run.induct)
  case (client_refl c)
  then show ?case
    by (simp add: tracks_def parse_stream.simps [of "[]" "[]"] next_frame_def new_client_def
        cache_of_def lobby_view_def)
next
  case (client_more c bs outs c' bs' outs' c'')
  then show ?case using client_step_tracks by blast
qed

text \<open>Nothing but a socket error or bytes outside the format ends the connection.\<close>

lemma Poll_stays_open:
  assumes "cl_open c" and "tracks bs outs c" and "\<not> failing reads" and "\<not> failing writes"
    and "parse_stream [] (bs @ received reads) \<noteq> None"
  shows "\<exists>c' sent. Poll J reads writes c = Some (c', sent, True) \<and> cl_open c'"
proof -
  let ?c = "c\<lparr>cl_rx := cl_rx c @ received reads\<rparr>"
  obtain c1 r where carve: "carve_loop J (cl_rx c @ received reads) ?c = Carved c1 r" and o1: "cl_open c1"
    using carve_tracks [OF assms(2), where x = "received reads" and J = J] assms(1,5) by (auto split: option.splits)
  have drain: "DrainServer reads c = (?c, True)" using assms(3) by (simp add: DrainServer_def drain_loop_received)
  have "snd (snd (flush_loop ws tx)) \<or> failing ws" for ws tx
    by (induction ws tx rule: flush_loop.induct) (auto simp: Let_def split: prod.splits)
  then obtain sent left where "flush_loop writes (cl_tx (PollPeers (c1\<lparr>cl_rx := r\<rparr>))) = (sent, left, True)"
    using assms(4) by (metis prod.collapse)
  moreover have "cl_open (PollPeers (c1\<lparr>cl_rx := r\<rparr>))"
    using outside_meshD(2) [OF outside_PollPeers [of "c1\<lparr>cl_rx := r\<rparr>"]] o1 by simp
  ultimately show ?thesis
    using assms(1) drain carve by (simp add: Poll_def CarveServer_def FlushServer_def)
qed

end
