(* ===== verification/Client_Requests.thy ===== *)
theory Client_Requests
  imports Client_Runs
begin

text \<open>
  The client's output: apart from the requests of the application, all a client ever queues for the server is
  signalling of its peer mesh, always in whole frames, and a flush hands the queue to the socket in order.
\<close>

fun signal :: "ServerMessage \<Rightarrow> bool" where
  "signal (P2PSignal _ _ _) = True"
| "signal _ = False"

text \<open>From \<open>c\<close> to \<open>c'\<close> only signals were queued.\<close>

definition signalled :: "Client \<Rightarrow> Client \<Rightarrow> bool" where
  "signalled c c' \<longleftrightarrow> (\<exists>ms. list_all signal ms \<and> cl_tx c' = cl_tx c @ concat (map FrameMessage ms))"

lemma signalled_refl: "cl_tx c' = cl_tx c \<Longrightarrow> signalled c c'"
  unfolding signalled_def by (rule exI [of _ "[]"]) simp

lemma signalled_SendServer [simp]:
  assumes "signal m" and "signalled c d"
  shows "signalled c (SendServer m d)"
proof -
  obtain ms where "list_all signal ms" "cl_tx d = cl_tx c @ concat (map FrameMessage ms)"
    using assms(2) by (auto simp: signalled_def)
  then show ?thesis
    unfolding signalled_def SendServer_def by (intro exI [of _ "ms @ [m]"]) (simp add: assms(1))
qed

lemma signalled_prims [simp]:
  "signalled c (set_links l d) = signalled c d" "signalled c (set_attempts a d) = signalled c d"
  "signalled c (juice_log j d) = signalled c d" "signalled c (set_link i link d) = signalled c d"
  "signalled c (d\<lparr>cl_p2p_inbox := x\<rparr>) = signalled c d" "signalled c (d\<lparr>cl_mesh := y\<rparr>) = signalled c d"
  "signalled c (d\<lparr>cl_rx := r\<rparr>) = signalled c d" "signalled c (d\<lparr>cl_rx_msg := r\<rparr>) = signalled c d"
  "signalled c (d\<lparr>cl_inbox := ms\<rparr>) = signalled c d" "signalled c (d\<lparr>cl_open := b\<rparr>) = signalled c d"
  "signalled c (d\<lparr>cl_id := i\<rparr>) = signalled c d" "signalled c (d\<lparr>cl_ice := ice\<rparr>) = signalled c d"
  by (simp_all add: signalled_def set_links_def set_attempts_def juice_log_def set_link_def)

lemma signalled_foldl: "(\<And>d x. signalled c d \<Longrightarrow> signalled c (f d x)) \<Longrightarrow> signalled c d \<Longrightarrow> signalled c (foldl f d xs)"
  by (induction xs arbitrary: d) auto

section \<open>The mesh\<close>

lemma signalled_CreateLink: "CreateLink J i d = (d', l) \<Longrightarrow> signalled c d \<Longrightarrow> signalled c d'"
  by (auto simp: CreateLink_def Let_def split: if_splits option.splits)

lemma signalled_ShareLink: "ShareLink J l i d = (d', b) \<Longrightarrow> signalled c d \<Longrightarrow> signalled c d'"
  by (auto simp: ShareLink_def Let_def split: option.splits)

lemma signalled_DestroyLink [simp]: "signalled c (DestroyLink i d) = signalled c d"
  by (simp add: DestroyLink_def split: option.split)

lemma tx_DestroyAllLinks: "cl_tx (DestroyAllLinks d) = cl_tx d"
proof -
  have "cl_tx (foldl (\<lambda>c (i, link). juice_log (juice_destroy (link_agent link)) c) d ls) = cl_tx d" for ls
    by (induction ls arbitrary: d) (auto simp: juice_log_def)
  then show ?thesis by (simp add: DestroyAllLinks_def set_links_def set_attempts_def)
qed

lemma tx_DisconnectServer: "cl_tx (DisconnectServer d) = cl_tx d"
  by (simp add: DisconnectServer_def ClearRoomState_def tx_DestroyAllLinks)

lemma signalled_clears [simp]:
  "signalled c (ClearRoomState d) = signalled c d" "signalled c (DisconnectServer d) = signalled c d"
  by (simp_all add: signalled_def tx_DisconnectServer ClearRoomState_def tx_DestroyAllLinks)

lemma signalled_FlushLink: "signalled c d \<Longrightarrow> signalled c (FlushLink i l d)"
  by (simp add: FlushLink_def signalled_foldl)

lemma signalled_P2PDescription: "signalled c d \<Longrightarrow> signalled c (HandleP2PDescription J i x d)"
  by (auto simp: HandleP2PDescription_def Let_def fst_def split: option.split prod.split
      dest!: signalled_CreateLink [where c = c] signalled_ShareLink [where c = c])

lemma signalled_P2PSignal: "signalled c d \<Longrightarrow> signalled c (Client_HandleP2PSignal J i k x d)"
  by (simp add: Client_HandleP2PSignal_def signalled_P2PDescription split: option.split)

lemma signalled_JuiceEvent: "signalled c d \<Longrightarrow> signalled c (HandleJuiceEvent ev d)"
  by (auto simp: HandleJuiceEvent_def HandleLinkState_def signalled_FlushLink
      split: option.split JuiceEventKind.split juice_state.split)

lemma signalled_PollPeers: "signalled c d \<Longrightarrow> signalled c (PollPeers d)"
  by (simp add: PollPeers_def Let_def signalled_foldl signalled_JuiceEvent)

lemma signalled_SendP2P: "signalled c (fst (SendP2P J i x c))"
  using signalled_refl [OF refl, of c]
  by (auto simp: SendP2P_def Let_def split: option.split prod.split bool.split
      dest!: signalled_CreateLink [where c = c] signalled_ShareLink [where c = c])

section \<open>Polling\<close>

lemma signalled_dispatch: "signalled c d \<Longrightarrow> signalled c (dispatch J m d)"
proof -
  have "cl_tx (CacheRoomState n d) = cl_tx d" for n d
    by (cases n) (simp_all add: Let_def ClearRoomState_def tx_DestroyAllLinks DestroyLink_def set_attempts_def
        set_links_def juice_log_def split: option.split)
  then have "signalled c d \<Longrightarrow> signalled c (CacheRoomState n d)" for n by (simp add: signalled_def)
  then show "signalled c d \<Longrightarrow> signalled c (dispatch J m d)"
    by (cases m) (simp_all add: dispatch_def Let_def signalled_P2PSignal del: CacheRoomState.simps)
qed

lemma signalled_carve: "carve_loop J a d = Carved d' r \<Longrightarrow> signalled c d \<Longrightarrow> signalled c d'"
  "carve_loop J a d = Carve_disconnect d' \<Longrightarrow> signalled c d \<Longrightarrow> signalled c d'"
proof (induction a d rule: carve_induct [where J = J])
  case (step a d)
  {
    case 1
    then show ?case using step(1,3)
      by (auto simp: carve_loop_step [of J a d] signalled_dispatch split: frame_step.splits in_fault.splits)
  next
    case 2
    then show ?case using step(2,4)
      by (auto simp: carve_loop_step [of J a d] signalled_dispatch split: frame_step.splits in_fault.splits)
  }
qed

lemma flush_loop_conserves: "flush_loop ws tx = (sent, left, ok) \<Longrightarrow> sent @ left = tx"
  by (induction ws tx arbitrary: sent left rule: flush_loop.induct)
    (auto simp: Let_def split: if_splits prod.splits)

lemma FlushServer_conserves: "FlushServer ws c = (c', sent, ok) \<Longrightarrow> sent @ cl_tx c' = cl_tx c"
  by (auto simp: FlushServer_def Let_def tx_DisconnectServer flush_loop_conserves split: prod.splits if_splits)

text \<open>What a poll hands to the socket and what it leaves queued is what was queued, followed by signals.\<close>

lemma Poll_queues:
  assumes "Poll J reads writes c = Some (c', sent, ok)"
  obtains ms where "list_all signal ms" and "sent @ cl_tx c' = cl_tx c @ concat (map FrameMessage ms)"
proof -
  let ?c = "c\<lparr>cl_rx := cl_rx c @ received reads\<rparr>"
  have start: "signalled c c" "signalled c ?c" by (simp_all add: signalled_refl)
  consider (none) d where "signalled c d" "c' = d" "sent = []"
    | (flushed) d where "signalled c d" "FlushServer writes d = (c', sent, ok)"
  proof (cases "cl_open c \<and> \<not> failing reads")
    case False
    then show ?thesis
      using assms none [of c'] start
      by (auto simp: Poll_def DrainServer_def drain_loop_received split: if_splits)
  next
    case True
    then have poll: "(case CarveServer J ?c of None \<Rightarrow> None | Some (c, False) \<Rightarrow> Some (c, [], False)
        | Some (c, True) \<Rightarrow> Some (FlushServer writes (PollPeers c))) = Some (c', sent, ok)"
      using assms by (simp add: Poll_def DrainServer_def drain_loop_received)
    show ?thesis
    proof (cases "carve_loop J (cl_rx c @ received reads) ?c")
      case (Carved d r)
      then show ?thesis
        using poll flushed [of "PollPeers (d\<lparr>cl_rx := r\<rparr>)"] signalled_carve(1) [OF Carved start(2)]
        by (simp add: CarveServer_def signalled_PollPeers)
    next
      case (Carve_disconnect d)
      then show ?thesis
        using poll none [of c'] signalled_carve(2) [OF Carve_disconnect start(2)]
        by (auto simp: CarveServer_def)
    qed (use poll in \<open>simp add: CarveServer_def\<close>)
  qed
  then show ?thesis
    using that FlushServer_conserves unfolding signalled_def by cases (metis append_Nil)+
qed

text \<open>A poll whose socket takes as much as was queued before it sends exactly that.\<close>

lemma Poll_flushes:
  assumes "cl_open c" and "tracks bs outs c"
  shows "\<exists>c'. Poll J [] [Transferred (cl_tx c)] c = Some (c', cl_tx c, True) \<and> cl_open c'"
proof -
  let ?ws = "[Transferred (cl_tx c)]"
  have "parse_stream [] bs \<noteq> None" using assms(2) by (auto simp: tracks_def)
  then obtain c' sent where poll: "Poll J [] ?ws c = Some (c', sent, True)" "cl_open c'"
    using Poll_stays_open [OF assms, of "[]" ?ws J] by auto
  obtain ms where ms: "sent @ cl_tx c' = cl_tx c @ concat (map FrameMessage ms)"
    by (rule Poll_queues [OF poll(1)])
  obtain d where flush: "FlushServer ?ws d = (c', sent, True)"
    using poll(1) assms(1) by (auto simp: Poll_def CarveServer_def split: prod.splits bool.splits carve_result.splits)
  have "cl_tx d = cl_tx c @ concat (map FrameMessage ms)" using FlushServer_conserves [OF flush] ms by simp
  moreover have "sent = take (length (cl_tx c)) (cl_tx d)"
    using flush by (auto simp: FlushServer_def Let_def min_def split: if_splits)
  ultimately show ?thesis using poll by simp
qed

end
