(* ===== verification/System.thy ===== *)
theory System
  imports Server_Reading Client_Requests
begin

text \<open>
  The whole system: one server and the clients connected to it, joined by the two byte streams of each
  connection.  Client \<open>p\<close> is the library object at the other end of the server's connection \<open>p\<close>.  A step is a step
  of one side: a coroutine of the server, an operation of one client, or the arrival of bytes, in any order and in
  pieces of any size.  Streams keep order and lose nothing while both ends are up; a session may end at any
  time.  The connections in \<open>F\<close> belong to foreign programs, which may send the server anything.
\<close>

section \<open>State\<close>

text \<open>
  \<open>sys_up\<close> are bytes a client has flushed that have not arrived, \<open>sys_down\<close> all bytes the server's write loop
  has started to write.  The last five fields record history: the bytes that have arrived at the server
  and at the client, what the client has asked for (the application's requests and its own signalling),
  what the server has handled, and the messages the client has given to its application.
\<close>

record System =
  sys_server :: Server
  sys_clients :: "nat \<Rightarrow> Client"
  sys_up :: "nat \<Rightarrow> bytes"
  sys_down :: "nat \<Rightarrow> bytes"
  sys_arrived :: "nat \<Rightarrow> bytes"
  sys_rcvd :: "nat \<Rightarrow> bytes"
  sys_asked :: "nat \<Rightarrow> ServerMessage list"
  sys_handled :: "nat \<Rightarrow> ServerMessage list"
  sys_given :: "nat \<Rightarrow> ServerMessage list"

definition system_start :: "Server \<Rightarrow> System" where
  "system_start s = \<lparr>sys_server = s, sys_clients = (\<lambda>_. new_client\<lparr>cl_open := True\<rparr>), sys_up = (\<lambda>_. []),
     sys_down = (\<lambda>_. []), sys_arrived = (\<lambda>_. []), sys_rcvd = (\<lambda>_. []), sys_asked = (\<lambda>_. []),
     sys_handled = (\<lambda>_. []), sys_given = (\<lambda>_. [])\<rparr>"

text \<open>Bytes that reach the server on connection \<open>p\<close>.\<close>

definition sys_arrive :: "nat \<Rightarrow> bytes \<Rightarrow> System \<Rightarrow> System" where
  "sys_arrive p bs x = x\<lparr>sys_server := arrive p bs (sys_server x),
     sys_arrived := (sys_arrived x)(p := sys_arrived x p @ bs)\<rparr>"

text \<open>The server after a turn of the read loop of \<open>p\<close> that handled \<open>ms\<close>, or of its write loop that started \<open>bs\<close>.\<close>

definition sys_served :: "nat \<Rightarrow> Server \<Rightarrow> ServerMessage list \<Rightarrow> System \<Rightarrow> System" where
  "sys_served p s ms x = x\<lparr>sys_server := s, sys_handled := (sys_handled x)(p := sys_handled x p @ ms)\<rparr>"

definition sys_wrote :: "nat \<Rightarrow> Server \<Rightarrow> bytes \<Rightarrow> System \<Rightarrow> System" where
  "sys_wrote p s bs x = x\<lparr>sys_server := s, sys_down := (sys_down x)(p := sys_down x p @ bs)\<rparr>"

text \<open>A client after an operation that took \<open>bs\<close> from the socket, flushed \<open>sent\<close> and queued \<open>ms\<close>.\<close>

definition sys_client :: "nat \<Rightarrow> Client \<Rightarrow> bytes \<Rightarrow> bytes \<Rightarrow> ServerMessage list \<Rightarrow> System \<Rightarrow> System" where
  "sys_client p c bs sent ms x = x\<lparr>sys_clients := (sys_clients x)(p := c),
     sys_rcvd := (sys_rcvd x)(p := sys_rcvd x p @ bs), sys_up := (sys_up x)(p := sys_up x p @ sent),
     sys_asked := (sys_asked x)(p := sys_asked x p @ ms)\<rparr>"

section \<open>Steps\<close>

inductive system_step :: "(nat \<Rightarrow> juice_api) \<Rightarrow> nat set \<Rightarrow> System \<Rightarrow> System \<Rightarrow> bool" for J F where
  sys_accept: "system_step J F x (x\<lparr>sys_server := AcceptLoop_turn (sys_server x)\<rparr>)"
| sys_deliver: "p \<in> srv_live (sys_server x) \<Longrightarrow> sys_up x p = bs @ later \<Longrightarrow>
     system_step J F x (sys_arrive p bs (x\<lparr>sys_up := (sys_up x)(p := later)\<rparr>))"
| sys_foreign: "p \<in> F \<Longrightarrow> p \<in> srv_live (sys_server x) \<Longrightarrow> system_step J F x (sys_arrive p bs x)"
| sys_read: "p \<in> srv_live (sys_server x) \<Longrightarrow> ReadLoop_turn p (sys_server x) = Read_next s' \<Longrightarrow>
     system_step J F x (sys_served p s' (read_message p (sys_server x)) x)"
| sys_finish: "p \<in> srv_live (sys_server x) \<Longrightarrow>
     system_step J F x (x\<lparr>sys_server := Session_end p (sys_server x)\<rparr>)"
| sys_write: "p < srv_alloc (sys_server x) \<Longrightarrow>
     system_step J F x (sys_wrote p (WriteLoop_turn p (sys_server x)) (started p (sys_server x)) x)"
| sys_written: "p < srv_alloc (sys_server x) \<Longrightarrow>
     system_step J F x (sys_wrote p (WriteLoop_resume b p (sys_server x)) [] x)"
| sys_poll: "cl_open (sys_clients x p) \<Longrightarrow>
     Poll (J p) reads writes (sys_clients x p) = Some (c, sent, ok) \<Longrightarrow>
     sys_down x p = sys_rcvd x p @ received reads @ later \<Longrightarrow> list_all signal ms \<Longrightarrow>
     sent @ cl_tx c = cl_tx (sys_clients x p) @ concat (map FrameMessage ms) \<Longrightarrow>
     system_step J F x (sys_client p c (received reads) sent ms x)"
| sys_request: "system_step J F x (sys_client p (SendServer m (sys_clients x p)) [] [] [m] x)"
| sys_send_p2p: "SendP2P (J p) i d (sys_clients x p) = (c, ok) \<Longrightarrow> list_all signal ms \<Longrightarrow>
     cl_tx c = cl_tx (sys_clients x p) @ concat (map FrameMessage ms) \<Longrightarrow>
     system_step J F x (sys_client p c [] [] ms x)"
| sys_next: "Client_Next (sys_clients x p) = (c, r) \<Longrightarrow>
     system_step J F x ((sys_client p c [] [] [] x)\<lparr>sys_given := (sys_given x)(p := sys_given x p @ (case r of None \<Rightarrow> [] | Some m \<Rightarrow> [m]))\<rparr>)"
| sys_next_p2p: "NextP2P (sys_clients x p) = (c, r) \<Longrightarrow> system_step J F x (sys_client p c [] [] [] x)"
| sys_callback: "c = sys_clients x p \<Longrightarrow>
     system_step J F x (sys_client p (c\<lparr>cl_mesh := PushJuiceEvent a peer ev (cl_mesh c)\<rparr>) [] [] [] x)"

inductive system_run :: "(nat \<Rightarrow> juice_api) \<Rightarrow> nat set \<Rightarrow> System \<Rightarrow> System \<Rightarrow> bool" for J F where
  system_refl: "system_run J F x x"
| system_more: "system_run J F x y \<Longrightarrow> system_step J F y z \<Longrightarrow> system_run J F x z"

lemma system_run_trans: "system_run J F y z \<Longrightarrow> system_run J F x y \<Longrightarrow> system_run J F x z"
  by (induction rule: system_run.induct) (auto intro: system_more)

text \<open>No operation of a client is ever blocked by the account of what it queues.\<close>

lemma poll_enabled:
  assumes "cl_open (sys_clients x p)" and "Poll (J p) reads writes (sys_clients x p) = Some (c, sent, ok)"
    and "sys_down x p = sys_rcvd x p @ received reads @ later"
  obtains ms where "system_step J F x (sys_client p c (received reads) sent ms x)"
    and "sent @ cl_tx c = cl_tx (sys_clients x p) @ concat (map FrameMessage ms)"
  using Poll_queues [OF assms(2)] sys_poll [of x p J, OF assms] by metis

lemma send_p2p_enabled:
  "\<exists>ms. system_step J F x (sys_client p (fst (SendP2P (J p) i d (sys_clients x p))) [] [] ms x)"
  using signalled_SendP2P [of "sys_clients x p" "J p" i d] sys_send_p2p [of J p i d x _ _ _ F]
  unfolding signalled_def by (metis prod.collapse)

lemma sys_simps [simp]:
  "sys_server (sys_arrive p bs x) = arrive p bs (sys_server x)"
  "sys_clients (sys_arrive p bs x) = sys_clients x" "sys_up (sys_arrive p bs x) = sys_up x"
  "sys_down (sys_arrive p bs x) = sys_down x" "sys_rcvd (sys_arrive p bs x) = sys_rcvd x"
  "sys_asked (sys_arrive p bs x) = sys_asked x" "sys_handled (sys_arrive p bs x) = sys_handled x"
  "sys_arrived (sys_arrive p bs x) = (sys_arrived x)(p := sys_arrived x p @ bs)"
  "sys_given (sys_arrive p bs x) = sys_given x" "sys_given (sys_client p c bs sent ms x) = sys_given x"
  "sys_given (sys_served p s ms x) = sys_given x" "sys_given (sys_wrote p s bs x) = sys_given x"
  "sys_server (sys_served p s ms x) = s" "sys_server (sys_wrote p s bs x) = s"
  "sys_clients (sys_served p s ms x) = sys_clients x" "sys_clients (sys_wrote p s bs x) = sys_clients x"
  "sys_up (sys_served p s ms x) = sys_up x" "sys_up (sys_wrote p s bs x) = sys_up x"
  "sys_arrived (sys_served p s ms x) = sys_arrived x" "sys_arrived (sys_wrote p s bs x) = sys_arrived x"
  "sys_rcvd (sys_served p s ms x) = sys_rcvd x" "sys_rcvd (sys_wrote p s bs x) = sys_rcvd x"
  "sys_asked (sys_served p s ms x) = sys_asked x" "sys_asked (sys_wrote p s bs x) = sys_asked x"
  "sys_down (sys_served p s ms x) = sys_down x" "sys_handled (sys_wrote p s bs x) = sys_handled x"
  "sys_handled (sys_served p s ms x) = (sys_handled x)(p := sys_handled x p @ ms)"
  "sys_down (sys_wrote p s bs x) = (sys_down x)(p := sys_down x p @ bs)"
  "sys_server (sys_client p c bs sent ms x) = sys_server x" "sys_down (sys_client p c bs sent ms x) = sys_down x"
  "sys_arrived (sys_client p c bs sent ms x) = sys_arrived x"
  "sys_handled (sys_client p c bs sent ms x) = sys_handled x"
  "sys_clients (sys_client p c bs sent ms x) = (sys_clients x)(p := c)"
  "sys_up (sys_client p c bs sent ms x) = (sys_up x)(p := sys_up x p @ sent)"
  "sys_rcvd (sys_client p c bs sent ms x) = (sys_rcvd x)(p := sys_rcvd x p @ bs)"
  "sys_asked (sys_client p c bs sent ms x) = (sys_asked x)(p := sys_asked x p @ ms)"
  by (simp_all add: sys_arrive_def sys_client_def sys_served_def sys_wrote_def)

section \<open>Each side alone\<close>

lemma system_step_server:
  "system_step J F x y \<Longrightarrow> sys_server y = sys_server x \<or> server_step (sys_server x) (sys_server y)"
  by (induction rule: system_step.induct) (auto intro: server_step.intros)

lemma system_run_server: "system_run J F x y \<Longrightarrow> server_run (sys_server x) (sys_server y)"
  by (induction rule: system_run.induct) (auto intro: run_refl run_step dest!: system_step_server)

lemma system_step_client:
  assumes "system_step J F x y"
  shows "(sys_clients y p = sys_clients x p \<and> sys_rcvd y p = sys_rcvd x p \<and> sys_given y p = sys_given x p) \<or>
    (\<exists>bs outs. client_step (J p) (sys_clients x p) bs outs (sys_clients y p)
       \<and> sys_rcvd y p = sys_rcvd x p @ bs \<and> sys_given y p = sys_given x p @ outs)"
  using assms
proof (induction rule: system_step.induct)
  case (sys_poll x q reads writes c sent ok later ms)
  then show ?case using cs_poll [OF sys_poll(1,2)] by auto
next
  case (sys_request x q m)
  then show ?case using cs_request by auto
next
  case (sys_send_p2p q i d x c ok ms)
  then show ?case using cs_send_p2p [of "J q" "sys_clients x q" i d] by auto
next
  case (sys_next x q c r)
  then show ?case using cs_next [of "sys_clients x q" c _ "J q"] cs_next_none [of "sys_clients x q" c "J q"] by (cases r) auto
next
  case (sys_next_p2p x q c r)
  then show ?case using cs_next_p2p [of "J q" "sys_clients x q"] by auto
next
  case (sys_callback c x q a peer ev)
  then show ?case using cs_callback [of "J q" "sys_clients x q" a peer ev] by auto
qed simp_all

lemma system_run_client:
  "system_run J F x y \<Longrightarrow> x = system_start s \<Longrightarrow>
   client_run (J p) (new_client\<lparr>cl_open := True\<rparr>) (sys_rcvd y p) (sys_given y p) (sys_clients y p)"
proof (induction rule: system_run.induct)
  case (system_refl x)
  then show ?case by (auto simp: system_start_def intro: client_refl)
next
  case (system_more x y z)
  then have "client_run (J p) (new_client\<lparr>cl_open := True\<rparr>) (sys_rcvd y p) (sys_given y p) (sys_clients y p)" by blast
  then show ?case using system_step_client [OF system_more.hyps(2), of p] client_more by metis
qed

section \<open>Invariants of the system\<close>

text \<open>A property every step keeps from a state whose server is consistent holds in every reachable state.\<close>

locale system_policy =
  fixes Q :: "nat set \<Rightarrow> System \<Rightarrow> bool"
  assumes at_start: "srv_alloc s = 0 \<Longrightarrow> Q F (system_start s)"
    and kept: "system_step J F x y \<Longrightarrow> server_inv (sys_server x) \<Longrightarrow> codes_ok (sys_server x) \<Longrightarrow> Q F x \<Longrightarrow> Q F y"
begin

lemma reachable:
  assumes "config_ok cfg" and "ids_left (sys_server x)"
    and "system_run J F (system_start (fst (Server_Init cfg a b c d (new_server rng cfg')))) x"
  shows "server_inv (sys_server x) \<and> codes_ok (sys_server x) \<and> Q F x"
  using assms(3,2)
proof (induction "system_start (fst (Server_Init cfg a b c d (new_server rng cfg')))" x rule: system_run.induct)
  case system_refl
  have "Q F (system_start (fst (Server_Init cfg a b c d (new_server rng cfg'))))"
    by (rule at_start) (simp add: Server_Init_def Let_def new_server_def)
  then show ?case using server_inv_Init codes_ok_Init [OF assms(1)] by (simp add: system_start_def)
next
  case (system_more y z)
  have "srv_alloc (sys_server y) \<le> srv_alloc (sys_server z)"
    using system_step_server [OF system_more.hyps(3)] server_step_alloc by auto
  then have "ids_left (sys_server y)" using system_more.prems by (simp add: ids_left_def)
  with system_more have "server_inv (sys_server y) \<and> codes_ok (sys_server y) \<and> Q F y" by blast
  then show ?case
    using kept [OF system_more.hyps(3)] system_step_server [OF system_more.hyps(3)]
      server_step_inv [of "sys_server y" "sys_server z"] system_more.prems by metis
qed

end

text \<open>
  Downstream: what the client has received is a prefix of what was written, and as long as the write loop runs
  that is exactly what the server believes it has written.
\<close>

definition downstream :: "System \<Rightarrow> bool" where
  "downstream x \<longleftrightarrow> (\<forall>p. prefix (sys_rcvd x p) (sys_down x p)
     \<and> (srv_alloc (sys_server x) \<le> p \<longrightarrow> sys_down x p = [])
     \<and> (p < srv_alloc (sys_server x) \<longrightarrow> conn_writing (srv_conns (sys_server x) p) \<longrightarrow>
          sys_down x p = on_wire (srv_conns (sys_server x) p)))"

lemma downstreamD:
  assumes "downstream x"
  shows "prefix (sys_rcvd x p) (sys_down x p)"
    and "p < srv_alloc (sys_server x) \<Longrightarrow> conn_writing (srv_conns (sys_server x) p) \<Longrightarrow>
      sys_down x p = on_wire (srv_conns (sys_server x) p)"
  using assms by (simp_all add: downstream_def)

lemma downstream_server:
  assumes "downstream x" and "srv_alloc s' = srv_alloc (sys_server x)"
    and "\<And>p. conn_writing (srv_conns s' p) \<Longrightarrow> conn_writing (srv_conns (sys_server x) p)
          \<and> on_wire (srv_conns s' p) = on_wire (srv_conns (sys_server x) p)"
    and "sys_server y = s'" and "sys_down y = sys_down x" and "sys_rcvd y = sys_rcvd x"
  shows "downstream y"
  using assms by (simp add: downstream_def)

lemma AcceptLoop_alloc: "srv_alloc (AcceptLoop_turn s) = Suc (srv_alloc s)"
  by (simp add: AcceptLoop_turn_def Session_begin_def Let_def)

lemma downstream_step:
  assumes "system_step J F x y" and "server_inv (sys_server x)" and "codes_ok (sys_server x)" and "downstream x"
  shows "downstream y"
  using assms
proof (induction rule: system_step.induct)
  case (sys_accept x)
  let ?s = "sys_server x"
  have "on_wire (srv_conns (AcceptLoop_turn ?s) p) = on_wire (if p = srv_alloc ?s then new_connection 0 else srv_conns ?s p)" for p
    by (simp add: on_wire_def AcceptLoop_buffers)
  moreover have "on_wire (new_connection 0) = []" by (simp add: on_wire_def new_connection_def)
  ultimately show ?case
    using sys_accept by (auto simp: downstream_def AcceptLoop_alloc AcceptLoop_buffers less_Suc_eq)
next
  case (sys_deliver p x bs later)
  then show ?case by (intro downstream_server [OF sys_deliver(5)]) (auto simp: arrive_def on_wire_def)
next
  case (sys_foreign p x bs)
  then show ?case by (intro downstream_server [OF sys_foreign(5)]) (auto simp: arrive_def on_wire_def)
next
  case (sys_read p x s')
  then show ?case using ReadLoop_io [OF sys_read(2,3,4,1)] by (intro downstream_server [OF sys_read(5)]) simp_all
next
  case (sys_finish p x)
  then show ?case
    by (intro downstream_server [OF sys_finish(4)]) (simp_all add: Session_end_frame Session_end_buffers on_wire_def)
next
  case (sys_write p x)
  then show ?case
    using WriteLoop_wire [of p "sys_server x"] write_loop_others(1) [of _ p "sys_server x"]
    by (auto simp: downstream_def write_loop_tables)
next
  case (sys_written p x b)
  have "conn_writing (srv_conns (sys_server x) q) \<and>
      on_wire (srv_conns (WriteLoop_resume b p (sys_server x)) q) = on_wire (srv_conns (sys_server x) q)"
    if "conn_writing (srv_conns (WriteLoop_resume b p (sys_server x)) q)" for q
    using that WriteLoop_resume_wire [of b p "sys_server x"] write_loop_others(2) [of q p b "sys_server x"]
    by (cases "q = p") auto
  then show ?case by (intro downstream_server [OF sys_written(4)]) (simp_all add: write_loop_tables)
qed (auto simp: downstream_def)

interpretation down: system_policy "\<lambda>F. downstream"
  by unfold_locales (simp add: downstream_def system_start_def, rule downstream_step)

text \<open>
  Upstream: arrived, travelling and queued bytes of a client are its requests in order, and what the
  server has handled so far is what the reference parser finds in the arrived bytes, up to the buffers.
\<close>

definition parse_after :: "ServerMessage list \<Rightarrow> (ServerMessage list \<times> bytes \<times> bytes) option \<Rightarrow> (ServerMessage list \<times> bytes \<times> bytes) option" where
  "parse_after ms = map_option (\<lambda>(ns, b, r). (ms @ ns, b, r))"

lemma parse_after_append: "parse_after (ms @ ns) r = parse_after ms (parse_after ns r)"
  by (cases r) (auto simp: parse_after_def)

definition upstream :: "nat set \<Rightarrow> System \<Rightarrow> bool" where
  "upstream F x \<longleftrightarrow> (\<forall>p.
     (p \<notin> F \<longrightarrow> sys_arrived x p @ sys_up x p @ cl_tx (sys_clients x p) = concat (map FrameMessage (sys_asked x p)))
     \<and> (srv_alloc (sys_server x) \<le> p \<longrightarrow> sys_arrived x p = [] \<and> sys_handled x p = [])
     \<and> (p < srv_alloc (sys_server x) \<longrightarrow> (\<forall>y. parse_stream [] (sys_arrived x p @ y) =
          parse_after (sys_handled x p) (parse_stream (conn_body (srv_conns (sys_server x) p))
            (conn_in (srv_conns (sys_server x) p) @ y)))))"

lemma upstream_server:
  assumes "upstream F x" and "srv_alloc (sys_server y) = srv_alloc (sys_server x)"
    and "\<And>p. conn_in (srv_conns (sys_server y) p) = conn_in (srv_conns (sys_server x) p)
          \<and> conn_body (srv_conns (sys_server y) p) = conn_body (srv_conns (sys_server x) p)"
    and "sys_arrived y = sys_arrived x" and "sys_up y = sys_up x" and "sys_clients y = sys_clients x"
    and "sys_asked y = sys_asked x" and "sys_handled y = sys_handled x"
  shows "upstream F y"
  using assms by (simp add: upstream_def)

lemma upstream_arrive:
  assumes "upstream F x" and "p < srv_alloc (sys_server x)" and "p \<in> F \<and> later = sys_up x p \<or> sys_up x p = bs @ later"
  shows "upstream F (sys_arrive p bs (x\<lparr>sys_up := (sys_up x)(p := later)\<rparr>))"
  using assms by (auto simp: upstream_def arrive_def)

text \<open>A turn of the read loop moves the server's place in the stream by one frame.\<close>

lemma parse_next_frame:
  "next_frame body a = Fragment b r \<Longrightarrow> parse_stream body (a @ y) = parse_stream b (r @ y)"
  "next_frame body a = Message m r \<Longrightarrow> parse_stream body (a @ y) = parse_after [m] (parse_stream [] (r @ y))"
  using next_frame_append [of body a y] by (simp_all add: parse_stream.simps [of body "a @ y"] parse_after_def)

lemma ReadLoop_parse:
  assumes "ReadLoop_turn p s = Read_next s'" and "server_inv s" and "codes_ok s" and "p \<in> srv_live s"
  shows "parse_stream (conn_body (srv_conns s p)) (conn_in (srv_conns s p) @ y) =
    parse_after (read_message p s) (parse_stream (conn_body (srv_conns s' p)) (conn_in (srv_conns s' p) @ y))"
  using assms
proof (cases rule: ReadLoop_consumed)
  case (stored b rest)
  then show ?thesis
    using parse_next_frame(1) [OF stored(1), of y]
    by (simp add: read_message_def parse_after_def option.map_ident case_prod_unfold)
next
  case (completed m rest)
  then show ?thesis
    using parse_next_frame(2) [OF completed(1), of y] io_stateD(1,2) [OF handled_io [OF completed(3), of p]]
    by (simp add: read_message_def)
qed

lemma upstream_client:
  assumes "upstream F x" and "sent @ cl_tx c = cl_tx (sys_clients x p) @ concat (map FrameMessage ms)"
  shows "upstream F (sys_client p c bs sent ms x)"
  using assms by (simp add: upstream_def)

lemma upstream_step:
  assumes "system_step J F x y" and "server_inv (sys_server x)" and "codes_ok (sys_server x)" and "upstream F x"
  shows "upstream F y"
  using assms
proof (induction rule: system_step.induct)
  case (sys_accept x)
  let ?s = "sys_server x"
  show ?case
    using sys_accept
    by (auto simp: upstream_def AcceptLoop_alloc AcceptLoop_buffers new_connection_def less_Suc_eq parse_after_def
        option.map_ident case_prod_unfold)
next
  case (sys_deliver p x bs later)
  then show ?case by (simp add: upstream_arrive inv_live_alloc)
next
  case (sys_foreign p x bs)
  then show ?case using upstream_arrive [of F x p "sys_up x p" bs] by (simp add: inv_live_alloc)
next
  case (sys_read p x s')
  have "p < srv_alloc (sys_server x)" using inv_live_alloc sys_read by blast
  then show ?case
    using sys_read(5) ReadLoop_io [OF sys_read(2,3,4,1)] ReadLoop_parse [OF sys_read(2,3,4,1)]
    by (simp add: upstream_def parse_after_append)
next
  case (sys_finish p x)
  then show ?case by (intro upstream_server [OF sys_finish(4)]) (simp_all add: Session_end_frame Session_end_buffers)
next
  case (sys_write p x)
  then show ?case by (intro upstream_server [OF sys_write(4)]) (simp_all add: write_loop_tables write_loop_input)
next
  case (sys_written p x b)
  then show ?case by (intro upstream_server [OF sys_written(4)]) (simp_all add: write_loop_tables write_loop_input)
next
  case (sys_next x p c r)
  then have "upstream F (sys_client p c [] [] [] x)"
    by (intro upstream_client) (auto simp: Client_Next_def split: list.splits)
  then show ?case by (simp add: upstream_def)
next
  case (sys_next_p2p x p c r)
  then show ?case by (intro upstream_client) (auto simp: NextP2P_def split: list.splits)
qed (simp_all add: upstream_client SendServer_def)

interpretation up: system_policy upstream
  by unfold_locales (simp add: upstream_def system_start_def new_client_def, rule upstream_step)

section \<open>Where a client stands\<close>

text \<open>A connection of a reachable system that is being served, seen from both ends.\<close>

definition served :: "System \<Rightarrow> nat \<Rightarrow> bool" where
  "served x p \<longleftrightarrow> p \<in> srv_live (sys_server x) \<and> conn_writing (srv_conns (sys_server x) p) \<and> cl_open (sys_clients x p)"

text \<open>The client has received all that the server has for it.\<close>

definition up_to_date :: "System \<Rightarrow> nat \<Rightarrow> bool" where
  "up_to_date x p \<longleftrightarrow> served x p \<and> sys_rcvd x p = concat (stream (sys_server x) p)"

definition system_reachable :: "(nat \<Rightarrow> juice_api) \<Rightarrow> nat set \<Rightarrow> System \<Rightarrow> bool" where
  "system_reachable J F x \<longleftrightarrow> ids_left (sys_server x) \<and> (\<exists>cfg a b c d rng cfg'. config_ok cfg \<and>
     system_run J F (system_start (fst (Server_Init cfg a b c d (new_server rng cfg')))) x)"

lemma system_reachableI:
  "config_ok cfg \<Longrightarrow> system_run J F (system_start (fst (Server_Init cfg a b c d (new_server rng cfg')))) x \<Longrightarrow>
   ids_left (sys_server x) \<Longrightarrow> system_reachable J F x"
  unfolding system_reachable_def by blast

lemma system_reachable_run: "system_reachable J F x \<Longrightarrow> system_run J F x y \<Longrightarrow> ids_left (sys_server y) \<Longrightarrow> system_reachable J F y"
  unfolding system_reachable_def using system_run_trans by blast

lemma system_facts:
  assumes "system_reachable J F x"
  shows "server_inv (sys_server x)" and "codes_ok (sys_server x)" and "coherent (sys_server x)"
    and "sessions_open (sys_server x)" and "downstream x" and "upstream F x"
    and "client_run (J p) (new_client\<lparr>cl_open := True\<rparr>) (sys_rcvd x p) (sys_given x p) (sys_clients x p)"
    and "woken (sys_server x)"
proof -
  obtain cfg a b c d rng cfg' where cfg: "config_ok cfg" and ids: "ids_left (sys_server x)"
    and run: "system_run J F (system_start (fst (Server_Init cfg a b c d (new_server rng cfg')))) x"
    using assms unfolding system_reachable_def by blast
  have srv: "server_run (fst (Server_Init cfg a b c d (new_server rng cfg'))) (sys_server x)"
    using system_run_server [OF run] by (simp add: system_start_def)
  show "server_inv (sys_server x)" "codes_ok (sys_server x)" "sessions_open (sys_server x)"
    using sessions.reachable [OF cfg srv ids] by auto
  show "coherent (sys_server x)"
    by (rule server_run_coherent [OF srv ids server_inv_Init codes_ok_Init [OF cfg] config_ok_Init [OF cfg] coherent_Init])
  show "downstream x" using down.reachable [OF cfg ids run] by simp
  show "upstream F x" using up.reachable [OF cfg ids run] by simp
  show "client_run (J p) (new_client\<lparr>cl_open := True\<rparr>) (sys_rcvd x p) (sys_given x p) (sys_clients x p)"
    by (rule system_run_client [OF run refl])
  show "woken (sys_server x)" using wakes.reachable [OF cfg srv ids] by auto
qed

lemma served_stream:
  assumes "system_reachable J F x" and "served x p"
  obtains ms later where "stream (sys_server x) p = map FrameMessage ms" and "list_all sendable ms"
    and "observe_all ms (lobby_view 0) = expected_view (sys_server x) p"
    and "concat (map FrameMessage ms) = sys_rcvd x p @ later"
    and "tracks (sys_rcvd x p) (sys_given x p) (sys_clients x p)"
proof -
  let ?s = "sys_server x"
  obtain ms where ms: "stream ?s p = map FrameMessage ms" "list_all sendable ms"
    "observe_all ms (lobby_view 0) = expected_view ?s p"
    using system_facts(3) [OF assms(1)] assms(2) by (auto simp: coherent_def coherent_conn_def served_def simp del: sendable_def)
  have "p < srv_alloc ?s" using inv_live_alloc system_facts(1) [OF assms(1)] assms(2) by (simp add: served_def)
  then have "prefix (sys_rcvd x p) (on_wire (srv_conns ?s p))"
    using downstreamD [OF system_facts(5) [OF assms(1)], of p] assms(2) by (auto simp: served_def)
  then obtain later where "concat (map FrameMessage ms) = sys_rcvd x p @ later"
    using stream_on_wire [of ?s p] ms(1) by (auto simp: prefix_def)
  moreover have "tracks (sys_rcvd x p) (sys_given x p) (sys_clients x p)"
    using client_run_tracks [OF system_facts(7) [OF assms(1)]] assms(2) by (auto simp: served_def)
  ultimately show ?thesis using that ms by blast
qed

end
