(* ===== verification/System_Progress.thy ===== *)
theory System_Progress
  imports System
begin

text \<open>
  Progress of the whole system: from any reachable state there is a schedule that carries a request from the
  client's queue to its handler, and one that brings every client that is being served up to date.
\<close>

section \<open>From the client to the handler\<close>

lemma system_reads:
  assumes "frames_to body a m rest"
    and "conn_body (srv_conns (sys_server x) p) = body" and "conn_in (srv_conns (sys_server x) p) = a"
    and "p \<in> srv_live (sys_server x)"
    and "HandleMessage p m (set_conn p ((srv_conns (sys_server x) p)\<lparr>conn_in := rest, conn_body := []\<rparr>) (sys_server x)) = Some s'"
  shows "system_run J F x (sys_served p s' [m] x)"
  using assms
proof (induction arbitrary: x rule: frames_to.induct)
  case (frames_last body a m rest)
  have turn: "ReadLoop_turn p (sys_server x) = Read_next s'"
    using ReadLoop_frame(2) [OF refl, of "sys_server x" p m rest] frames_last by simp
  have "read_message p (sys_server x) = [m]" using frames_last by (simp add: read_message_def)
  then show ?case using system_more [OF system_refl sys_read [OF frames_last(4) turn]] by simp
next
  case (frames_more body a b r m rest)
  let ?c = "srv_conns (sys_server x) p"
  let ?t = "set_conn p (?c\<lparr>conn_in := r, conn_body := b\<rparr>) (sys_server x)"
  have turn: "ReadLoop_turn p (sys_server x) = Read_next ?t"
    using ReadLoop_frame(1) [OF refl, of "sys_server x" p b r] frames_more by simp
  have none: "read_message p (sys_server x) = []" using frames_more by (simp add: read_message_def)
  have "system_run J F (x\<lparr>sys_server := ?t\<rparr>) (sys_served p s' [m] x)"
    using frames_more.IH [of "x\<lparr>sys_server := ?t\<rparr>"] frames_more.prems by (simp add: set_conn_twice sys_served_def)
  moreover have "system_run J F x (x\<lparr>sys_server := ?t\<rparr>)"
    using system_more [OF system_refl sys_read [OF frames_more.prems(3) turn]] by (simp add: none sys_served_def)
  ultimately show ?case by (rule system_run_trans)
qed

text \<open>A flushed request that meets an idle connection is delivered and handled.\<close>

lemma flushed_arrives:
  assumes "p \<in> srv_live (sys_server x)" and "sys_up x p = FrameMessage m" and "fits m"
    and "conn_in (srv_conns (sys_server x) p) = []" and "conn_body (srv_conns (sys_server x) p) = []"
    and "HandleMessage p m (sys_server x) = Some s'"
  shows "system_run J F x (sys_served p s' [m] (sys_arrive p (FrameMessage m) (x\<lparr>sys_up := (sys_up x)(p := [])\<rparr>)))"
    (is "system_run J F x (sys_served p s' [m] ?y)")
proof -
  note idle = assms(4,5) arrive_consumed [OF assms(4,5)]
  have "system_step J F x ?y" by (rule sys_deliver) (simp_all add: assms(1,2))
  moreover have "system_run J F ?y (sys_served p s' [m] ?y)"
    by (rule system_reads [OF FrameMessage_frames_to [OF assms(3), of "[]"]])
      (use assms(1,6) in \<open>simp_all add: idle\<close>, simp_all add: arrive_def idle)
  ultimately show ?thesis using system_run_trans system_more [OF system_refl] by blast
qed

lemma handled_reachable:
  assumes "system_reachable J F x" and "system_run J F x y" and "p \<in> srv_live (sys_server x)" and "fits m"
    and "HandleMessage p m (sys_server x) = Some (sys_server y)"
  shows "handled (sys_server x) (sys_server y)" and "system_reachable J F y"
proof -
  show h: "handled (sys_server x) (sys_server y)"
    by (rule HandleMessage_handled [OF system_facts(1,2) [OF assms(1)] assms(3-5)])
  show "system_reachable J F y"
    using system_reachable_run [OF assms(1,2)] assms(1) handled_frame [OF h] by (simp add: system_reachable_def ids_left_def)
qed

text \<open>A request of a client with nothing else under way is flushed, delivered and handled.\<close>

definition idle_up :: "System \<Rightarrow> nat \<Rightarrow> bool" where
  "idle_up x p \<longleftrightarrow> sys_up x p = [] \<and> cl_tx (sys_clients x p) = []
     \<and> conn_in (srv_conns (sys_server x) p) = [] \<and> conn_body (srv_conns (sys_server x) p) = []"

lemma request_arrives:
  assumes "system_reachable J F x" and "served x p" and "idle_up x p" and "fits m"
    and "HandleMessage p m (sys_server x) = Some s'"
  obtains y where "system_run J F x y" and "system_reachable J F y" and "sys_server y = s'"
    and "sys_handled y p = sys_handled x p @ [m]" and "\<forall>q. served y q = served x q"
    and "\<forall>q. q \<noteq> p \<longrightarrow> idle_up x q \<longrightarrow> idle_up y q"
proof -
  let ?c = "SendServer m (sys_clients x p)"
  let ?x1 = "sys_client p ?c [] [] [m] x"
  have live: "p \<in> srv_live (sys_server x)" using assms(2) by (simp add: served_def)
  have "tracks (sys_rcvd x p) (sys_given x p) (sys_clients x p)" by (rule served_stream [OF assms(1,2)])
  then have "tracks (sys_rcvd x p) (sys_given x p) ?c" using tracks_outside [OF outside_mesh_prims(4)] by blast
  moreover have c: "cl_open ?c" "cl_tx ?c = FrameMessage m"
    using assms(2,3) by (simp_all add: served_def idle_up_def SendServer_def)
  ultimately obtain c' where poll: "Poll (J p) [] [Transferred (FrameMessage m)] ?c = Some (c', FrameMessage m, True)"
    and open': "cl_open c'" using Poll_flushes [of ?c "sys_rcvd x p" "sys_given x p" "J p"] by auto
  have "prefix (sys_rcvd x p) (sys_down x p)" by (rule downstreamD(1) [OF system_facts(5) [OF assms(1)]])
  then obtain later where "sys_down ?x1 p = sys_rcvd ?x1 p @ received [] @ later" by (auto simp: prefix_def)
  then obtain ms where step2: "system_step J F ?x1 (sys_client p c' [] (FrameMessage m) ms ?x1)" (is "system_step J F ?x1 ?x2")
    using poll_enabled [of ?x1 p J "[]" "[Transferred (FrameMessage m)]" c' "FrameMessage m" True later F] poll c by auto
  let ?y = "sys_served p s' [m] (sys_arrive p (FrameMessage m) (?x2\<lparr>sys_up := (sys_up ?x2)(p := [])\<rparr>))"
  have "system_run J F ?x2 ?y"
    by (rule flushed_arrives) (use assms(3-5) live in \<open>simp_all add: idle_up_def\<close>)
  then have run: "system_run J F x ?y"
    by (rule system_run_trans) (rule system_more [OF system_more [OF system_refl sys_request] step2])
  note h = handled_reachable [OF assms(1) run live assms(4)]
  have s': "handled (sys_server x) s'" using h(1) assms(5) by simp
  show ?thesis
    by (rule that [OF run h(2)])
      (use open' assms(2,5) handled_frame [OF s'] io_stateD [OF handled_io [OF s']]
        in \<open>simp_all add: served_def idle_up_def\<close>)
qed

section \<open>From the server to the clients\<close>

lemma sys_wrote_twice: "sys_wrote p s bs (sys_wrote p t cs x) = sys_wrote p s (cs @ bs) x"
  by (simp add: sys_wrote_def)

lemma system_writes:
  assumes "write_steps p (sys_server x) s'" and "p < srv_alloc (sys_server x)"
  shows "\<exists>bs. system_run J F x (sys_wrote p s' bs x)"
  using assms
proof (induction rule: write_steps.induct)
  case writes_none
  have "sys_wrote p (sys_server x) [] x = x" by (simp add: sys_wrote_def)
  then show ?case using system_refl by metis
next
  case (writes_turn t)
  then obtain bs where run: "system_run J F x (sys_wrote p t bs x)" by blast
  have "p < srv_alloc (sys_server (sys_wrote p t bs x))" using writes_turn write_steps_alloc by simp
  from system_more [OF run sys_write [OF this]] show ?case by (auto simp: sys_wrote_twice)
next
  case (writes_done t)
  then obtain bs where run: "system_run J F x (sys_wrote p t bs x)" by blast
  have "p < srv_alloc (sys_server (sys_wrote p t bs x))" using writes_done write_steps_alloc by simp
  from system_more [OF run sys_written [OF this, of J F True]] show ?case by (auto simp: sys_wrote_twice)
qed

text \<open>Steps that move bytes towards the clients and change no room.\<close>

definition same_rooms :: "System \<Rightarrow> System \<Rightarrow> bool" where
  "same_rooms x y \<longleftrightarrow> srv_rooms (sys_server y) = srv_rooms (sys_server x) \<and> srv_live (sys_server y) = srv_live (sys_server x)
     \<and> srv_alloc (sys_server y) = srv_alloc (sys_server x) \<and> sys_handled y = sys_handled x
     \<and> (\<forall>p. conn_id (srv_conns (sys_server y) p) = conn_id (srv_conns (sys_server x) p)
           \<and> conn_room (srv_conns (sys_server y) p) = conn_room (srv_conns (sys_server x) p))"

lemma same_rooms_trans: "same_rooms x y \<Longrightarrow> same_rooms y z \<Longrightarrow> same_rooms x z"
  by (simp add: same_rooms_def)

lemma same_rooms_view: "same_rooms x y \<Longrightarrow> expected_view (sys_server y) p = expected_view (sys_server x) p"
  by (simp add: same_rooms_def expected_view_def)

text \<open>All that the server has for a client is written.\<close>

lemma queue_written:
  assumes "system_reachable J F x" and "served x q"
  defines "s1 \<equiv> set_conn q ((srv_conns (sys_server x) q)\<lparr>conn_flight := None, conn_out := [],
     conn_sent := stream (sys_server x) q\<rparr>) (sys_server x)"
  obtains bs later where "system_run J F x (sys_wrote q s1 bs x)"
    and "system_reachable J F (sys_wrote q s1 bs x)" and "sys_down (sys_wrote q s1 bs x) q = sys_rcvd x q @ later"
    and "concat (stream (sys_server x) q) = sys_rcvd x q @ later" and "\<forall>r. stream s1 r = stream (sys_server x) r"
proof -
  let ?s = "sys_server x"
  have q: "q \<in> srv_live ?s" "conn_writing (srv_conns ?s q)" using assms(2) by (simp_all add: served_def)
  have alloc: "q < srv_alloc ?s" using inv_live_alloc system_facts(1) [OF assms(1)] q by blast
  have "\<not> conn_closing (srv_conns ?s q)" using system_facts(4) [OF assms(1)] q by (simp add: sessions_open_def)
  moreover have "conn_out (srv_conns ?s q) = []" if "conn_waiting (srv_conns ?s q)"
    using woken_conn [OF system_facts(8) [OF assms(1)], of q] that by (simp add: wake_ok_def)
  ultimately have "write_steps q ?s s1" unfolding s1_def by (intro write_stream q(2))
  from system_writes [OF this alloc] obtain bs where
    run: "system_run J F x (sys_wrote q s1 bs x)" (is "system_run J F x ?x1") by blast
  have reach: "system_reachable J F ?x1"
    using system_reachable_run [OF assms(1) run] assms(1) by (simp add: s1_def system_reachable_def ids_left_def)
  have "sys_down ?x1 q = concat (stream ?s q)"
    using downstreamD(2) [OF system_facts(5) [OF reach], of q] alloc q by (simp add: s1_def on_wire_def)
  moreover have "prefix (sys_rcvd ?x1 q) (sys_down ?x1 q)" by (rule downstreamD(1) [OF system_facts(5) [OF reach]])
  ultimately obtain later where "sys_down ?x1 q = sys_rcvd x q @ later" "concat (stream ?s q) = sys_rcvd x q @ later"
    by (auto simp: prefix_def)
  then show ?thesis using that run reach by (auto simp: s1_def stream_def)
qed

lemma catch_up:
  assumes "system_reachable J F x" and "served x q"
  obtains y where "system_run J F x y" and "same_rooms x y" and "up_to_date y q"
    and "\<And>r. served x r \<Longrightarrow> served y r" and "\<And>r. up_to_date x r \<Longrightarrow> up_to_date y r"
proof -
  let ?s = "sys_server x"
  let ?s1 = "set_conn q ((srv_conns ?s q)\<lparr>conn_flight := None, conn_out := [], conn_sent := stream ?s q\<rparr>) ?s"
  have q: "q \<in> srv_live ?s" "conn_writing (srv_conns ?s q)" "cl_open (sys_clients x q)" using assms(2) by (simp_all add: served_def)
  obtain bs later where run: "system_run J F x (sys_wrote q ?s1 bs x)"
    and down: "sys_down (sys_wrote q ?s1 bs x) q = sys_rcvd x q @ later" "concat (stream ?s q) = sys_rcvd x q @ later"
    and stream1: "\<forall>r. stream ?s1 r = stream ?s r"
    by (rule queue_written [OF assms])
  let ?x1 = "sys_wrote q ?s1 bs x"
  obtain ms where ms: "stream ?s q = map FrameMessage ms" "list_all sendable ms"
    and track: "tracks (sys_rcvd x q) (sys_given x q) (sys_clients x q)" by (rule served_stream [OF assms])
  have "parse_stream [] (sys_rcvd x q @ received [Transferred later]) \<noteq> None"
    using parse_frames [OF sendable_fits [OF ms(2)]] down(2) ms(1) by simp
  then obtain c sent where poll: "Poll (J q) [Transferred later] [] (sys_clients x q) = Some (c, sent, True)" "cl_open c"
    using Poll_stays_open [OF q(3) track, of "[Transferred later]" "[]" "J q"] by auto
  obtain ms' where step: "system_step J F ?x1 (sys_client q c later sent ms' ?x1)" (is "system_step J F ?x1 ?y")
    using poll_enabled [of ?x1 q J "[Transferred later]" "[]" c sent True "[]" F] poll(1) q(3) down(1) by auto
  show ?thesis
  proof (rule that [of ?y])
    show "system_run J F x ?y" by (rule system_more [OF run step])
    show "same_rooms x ?y" by (simp add: same_rooms_def)
    show "up_to_date ?y q" using q poll(2) down(2) by (simp add: up_to_date_def served_def stream1)
    show "served ?y r" if "served x r" for r using that poll(2) by (auto simp: served_def)
    show "up_to_date ?y r" if "up_to_date x r" for r
      using that poll(2) down(2) by (auto simp: up_to_date_def served_def stream1)
  qed
qed

lemma all_catch_up:
  assumes "finite Q" and "system_reachable J F x" and "\<And>q. q \<in> Q \<Longrightarrow> served x q"
  shows "\<exists>y. system_run J F x y \<and> same_rooms x y \<and> (\<forall>q \<in> Q. up_to_date y q) \<and> (\<forall>r. served x r \<longrightarrow> served y r)"
  using assms
proof (induction Q rule: finite_induct)
  case empty
  then show ?case using system_refl [of J F x] by (auto simp: same_rooms_def)
next
  case (insert q Q)
  then obtain y where y: "system_run J F x y" "same_rooms x y" "\<forall>q \<in> Q. up_to_date y q" "\<forall>r. served x r \<longrightarrow> served y r"
    by auto
  have "system_reachable J F y"
    using system_reachable_run [OF insert.prems(1) y(1)] insert.prems(1) y(2)
    by (simp add: system_reachable_def ids_left_def same_rooms_def)
  moreover have "served y q" using insert.prems(2) y(4) by blast
  ultimately obtain z where "system_run J F y z" "same_rooms y z" "up_to_date z q"
    "\<And>r. served y r \<Longrightarrow> served z r" "\<And>r. up_to_date y r \<Longrightarrow> up_to_date z r"
    by (metis catch_up)
  then show ?case using y system_run_trans same_rooms_trans by (intro exI [of _ z]) blast
qed

end
