(* ===== verification/Sample.thy ===== *)
theory Sample
  imports Server_Reading Client_Runs
begin

text \<open>
  A concrete run used to instantiate the theorems: a server is started, two
  clients connect, the first creates a room and the second joins it, and what
  is queued for the second is written to its socket.
\<close>

definition sample_config :: ServerConfig where
  "sample_config = \<lparr>cfg_port = 5555, cfg_room_code_length = 4,
     cfg_ice = \<lparr>stun_host = ''stun'', stun_port = 19302, turn = []\<rparr>\<rparr>"

definition sample_boot :: Server where
  "sample_boot = fst (Server_Init sample_config True True True True (new_server (\<lambda>n. n) sample_config))"

definition sample_two :: Server where
  "sample_two = AcceptLoop_turn (AcceptLoop_turn sample_boot)"

definition sample_hosted :: Server where
  "sample_hosted = the (HandleCreateRoom 0 sample_two)"

definition sample_joined :: Server where
  "sample_joined = HandleJoinRoom 1 ''ABCD'' [] sample_hosted"

definition sample_juice :: juice_api where
  "sample_juice = \<lparr>ja_create = (\<lambda>calls config. Some (length calls)),
     ja_local_description = (\<lambda>calls a. Some ''sdp''),
     ja_gather_candidates = (\<lambda>calls a. True), ja_send = (\<lambda>calls a d. True)\<rparr>"

lemma config_ok_sample: "config_ok sample_config"
  by (simp add: config_ok_def sample_config_def fits_def wf_IceServers_def length_message_bytes
      out_IceServers_def out_vector_def wire)

lemma boot_facts:
  "srv_alloc sample_boot = 0" "srv_live sample_boot = {}" "srv_next_id sample_boot = 1"
  "srv_connections sample_boot = Map.empty" "srv_rooms sample_boot = Map.empty"
  "srv_config sample_boot = sample_config" "srv_rng sample_boot = (\<lambda>n. n)"
  by (simp_all add: sample_boot_def Server_Init_def new_server_def init_config_def sample_config_def)

lemma boot_ok: "server_inv sample_boot" "codes_ok sample_boot" "coherent sample_boot"
  "config_ok (srv_config sample_boot)"
  unfolding sample_boot_def
  by (simp_all add: server_inv_Init codes_ok_Init coherent_Init config_ok_Init config_ok_sample)

lemma two_facts:
  "srv_alloc sample_two = 2" "srv_live sample_two = {0, 1}" "srv_rooms sample_two = Map.empty"
  "srv_connections sample_two = [1 \<mapsto> 0, 2 \<mapsto> 1]" "srv_config sample_two = sample_config"
  "srv_rng sample_two = (\<lambda>n. n)"
  "srv_conns sample_two 0 = (new_connection 1)\<lparr>conn_out :=
     map FrameMessage [AssignClientId 1, IceServersMsg (cfg_ice sample_config)]\<rparr>"
  "srv_conns sample_two (Suc 0) = (new_connection 2)\<lparr>conn_out :=
     map FrameMessage [AssignClientId 2, IceServersMsg (cfg_ice sample_config)]\<rparr>"
  by (simp_all add: sample_two_def AcceptLoop_turn_def Session_begin_def Let_def boot_facts
      SendTo_def SendFrame_def Enqueue_def new_connection_def insert_commute)

lemma run_two: "server_run sample_boot sample_two"
  unfolding sample_two_def by (rule run_step [OF run_step [OF run_refl step_accept] step_accept])

lemma two_ids: "ids_left sample_two" by (simp add: ids_left_def two_facts)

lemma two_ok: "server_inv sample_two" "codes_ok sample_two"
  using server_run_inv [OF run_two two_ids boot_ok(1,2)] by auto

lemma sample_code: "fresh_code Map.empty 4 (\<lambda>n. n) = Some (''ABCD'', \<lambda>n. n + 4)"
  by (subst fresh_code.simps) (simp add: MakeRoomCode_def alphabet_def upt_rec)

lemma create_two: "HandleCreateRoom 0 sample_two = Some sample_hosted"
  by (simp add: sample_hosted_def HandleCreateRoom_def Let_def two_facts new_connection_def
      sample_config_def sample_code)

lemma hosted_facts:
  "srv_alloc sample_hosted = 2" "srv_live sample_hosted = {0, 1}" "srv_connections sample_hosted = [1 \<mapsto> 0, 2 \<mapsto> 1]"
  "srv_rooms sample_hosted = [''ABCD'' \<mapsto> new_room ''ABCD'' 1]" "srv_config sample_hosted = sample_config"
  "conn_id (srv_conns sample_hosted 0) = 1" "conn_id (srv_conns sample_hosted (Suc 0)) = 2"
  "conn_room (srv_conns sample_hosted 0) = ''ABCD''" "conn_room (srv_conns sample_hosted (Suc 0)) = []"
  "conn_in (srv_conns sample_hosted n) = conn_in (srv_conns sample_two n)"
  "conn_body (srv_conns sample_hosted n) = conn_body (srv_conns sample_two n)"
  "conn_writing (srv_conns sample_hosted n) = conn_writing (srv_conns sample_two n)"
  "conn_closing (srv_conns sample_hosted n) = conn_closing (srv_conns sample_two n)"
  "conn_flight (srv_conns sample_hosted n) = conn_flight (srv_conns sample_two n)"
  using two_facts
  by (simp_all add: sample_hosted_def HandleCreateRoom_def Let_def new_connection_def
      sample_config_def sample_code set_conn_room_def)

lemma hosted_ok: "server_inv sample_hosted" "codes_ok sample_hosted"
  using HandleCreateRoom_handled [OF two_ok _ create_two] handled_inv handled_codes two_ok
  by (simp_all add: two_facts)

lemma sample_admitted: "admitted sample_hosted 1 ''ABCD'' [] (new_room ''ABCD'' 1)"
  by (simp add: admitted_def hosted_facts new_room_def)

definition sample_room :: Room where
  "sample_room = (new_room ''ABCD'' 1)\<lparr>room_members := [1, 2]\<rparr>"

lemma joined_facts:
  "srv_alloc sample_joined = 2" "srv_live sample_joined = {0, 1}" "srv_connections sample_joined = [1 \<mapsto> 0, 2 \<mapsto> 1]"
  "srv_rooms sample_joined = [''ABCD'' \<mapsto> sample_room]" "srv_config sample_joined = sample_config"
  "conn_id (srv_conns sample_joined 0) = 1" "conn_id (srv_conns sample_joined (Suc 0)) = 2"
  "conn_room (srv_conns sample_joined 0) = ''ABCD''" "conn_room (srv_conns sample_joined (Suc 0)) = ''ABCD''"
  "conn_in (srv_conns sample_joined n) = conn_in (srv_conns sample_two n)"
  "conn_body (srv_conns sample_joined n) = conn_body (srv_conns sample_two n)"
  "conn_writing (srv_conns sample_joined n) = conn_writing (srv_conns sample_two n)"
  "conn_closing (srv_conns sample_joined n) = conn_closing (srv_conns sample_two n)"
  "conn_flight (srv_conns sample_joined n) = conn_flight (srv_conns sample_two n)"
  unfolding sample_joined_def HandleJoinRoom_admitted [OF sample_admitted] Let_def
  by (simp_all add: hosted_facts sample_room_def new_room_def set_conn_room_def)

lemma joined_ok: "server_inv sample_joined" "codes_ok sample_joined"
  using handled_joined [OF _ sample_admitted] handled_inv [of sample_hosted] handled_codes [of sample_hosted]
    hosted_ok by (simp_all add: hosted_facts sample_joined_def)

text \<open>The same states as a run over bytes: the two requests arrive framed and are read.\<close>

lemma request_run:
  assumes run: "server_run s0 s" and ok: "server_inv s" "codes_ok s" and p: "p \<in> srv_live s"
    and idle: "conn_in (srv_conns s p) = []" "conn_body (srv_conns s p) = []"
    and m: "fits m" and h: "HandleMessage p m s = Some s'"
  shows "server_run s0 s'"
proof -
  let ?t = "arrive p (FrameMessage m) s"
  have t: "server_run s0 ?t" by (rule run_step [OF run step_receive [OF p]])
  have "read_turns p ?t s'"
    using reads_frames [of "[]" "FrameMessage m" m "[]" ?t p s'] FrameMessage_frames_to [OF m, of "[]"] idle h
      arrive_consumed [OF idle, of "FrameMessage m"]
    by (simp add: arrive_def)
  moreover have "server_inv ?t" "codes_ok ?t" "p \<in> srv_live ?t"
    using ok p by (simp_all add: arrive_inv) (simp_all add: arrive_def)
  ultimately show ?thesis using reads_run [OF _ t] by blast
qed

lemma run_joined: "server_run sample_boot sample_joined"
proof -
  have "server_run sample_boot sample_hosted"
    by (rule request_run [OF run_two two_ok, of 0 CreateRoom])
      (simp_all add: two_facts create_two, simp_all add: new_connection_def fits_def length_message_bytes)
  then show ?thesis
    by (rule request_run [OF _ hosted_ok, of _ 1 "JoinRoom ''ABCD'' []"])
      (simp_all add: hosted_facts two_facts sample_joined_def, simp_all add: new_connection_def)
qed

lemma joined_ids: "ids_left sample_joined" by (simp add: ids_left_def joined_facts)

text \<open>The host bans the joiner.\<close>

definition sample_banned :: Server where
  "sample_banned = HandleBanMember 0 2 sample_joined"

lemma banned_eq:
  "sample_banned = Server_LeaveRoom 1 (SendTo 2 BannedByHost
     (set_room ''ABCD'' (Some (sample_room\<lparr>room_banned_members := [2]\<rparr>)) sample_joined))"
  by (simp add: sample_banned_def HandleBanMember_def Let_def HostRoom_def removable_def joined_facts
      sample_room_def new_room_def)

lemma banned_rooms:
  "srv_rooms sample_banned = [''ABCD'' \<mapsto> sample_room\<lparr>room_members := [1], room_banned_members := [2]\<rparr>]"
proof -
  have "srv_rooms sample_banned = (srv_rooms sample_joined)
      (''ABCD'' := remaining_room 2 (sample_room\<lparr>room_banned_members := [2]\<rparr>))"
    unfolding banned_eq
    by (rule handled_banned_rooms [OF joined_ok(1), of _ sample_room]) (simp_all add: joined_facts)
  then show ?thesis
    by (simp add: joined_facts remaining_room_def without_member_def Let_def sample_room_def new_room_def
        sm_erase_def)
qed

lemma run_banned: "server_run sample_boot sample_banned"
  by (rule request_run [OF run_joined joined_ok, of 0 "BanMember 2"])
    (simp_all add: joined_facts two_facts sample_banned_def, simp_all add: new_connection_def fits_def
      length_message_bytes wire)

lemma banned_ids: "ids_left sample_banned"
  by (simp add: ids_left_def sample_banned_def handler_alloc joined_facts)

text \<open>The joiner's queue is written, and one poll of its client receives it.\<close>

definition sample_written :: Server where
  "sample_written = set_conn 1 ((srv_conns sample_joined 1)\<lparr>conn_out := [],
     conn_sent := stream sample_joined 1\<rparr>) sample_joined"

lemma run_written: "server_run sample_boot sample_written"
  unfolding sample_written_def
proof (rule server_run_trans [OF _ run_joined])
  have "wake_ok (srv_conns sample_joined 1)"
    using wakes.reachable [OF config_ok_sample run_joined [unfolded sample_boot_def] joined_ids] woken_conn by blast
  then show "server_run sample_joined (set_conn 1 ((srv_conns sample_joined 1)\<lparr>conn_out := [],
     conn_sent := stream sample_joined 1\<rparr>) sample_joined)"
    using queue_drains [of sample_joined 1] by (simp add: joined_facts two_facts new_connection_def)
qed

lemma written_facts:
  "ids_left sample_written" "1 \<in> srv_live sample_written" "conn_writing (srv_conns sample_written 1)"
  "conn_flight (srv_conns sample_written 1) = None" "conn_out (srv_conns sample_written 1) = []"
  "conn_sent (srv_conns sample_written 1) = stream sample_joined 1"
  "expected_view sample_written 1 = room_view 2 sample_room"
  by (simp_all add: sample_written_def ids_left_def joined_facts two_facts new_connection_def expected_view_def)

lemma joined_stream:
  "\<exists>ms. stream sample_joined 1 = map FrameMessage ms \<and> list_all fits ms"
  using server_run_coherent [OF run_joined joined_ids boot_ok(1,2,4,3)]
  by (auto simp: coherent_def coherent_conn_def joined_facts two_facts new_connection_def
      simp del: sendable_def dest: sendable_fits)

lemma sample_client:
  "\<exists>c. client_run J (new_client\<lparr>cl_open := True\<rparr>) (concat (stream sample_joined 1)) [] c \<and> cl_open c"
proof -
  let ?c = "new_client\<lparr>cl_open := True\<rparr>" and ?reads = "[Transferred (concat (stream sample_joined 1))]"
  have "tracks [] [] ?c" by (rule client_run_tracks [OF client_refl refl]) simp
  moreover have "parse_stream [] (concat (stream sample_joined 1)) \<noteq> None"
    using joined_stream parse_frames by fastforce
  ultimately obtain c sent where "Poll J ?reads [] ?c = Some (c, sent, True)" "cl_open c"
    using Poll_stays_open [of ?c "[]" "[]" ?reads "[]" J] by auto
  then show ?thesis
    using client_more [OF client_refl cs_poll [of ?c J ?reads "[]" c sent True]] by auto
qed

end
