(* ===== verification/System_Properties.thy ===== *)
theory System_Properties
  imports System_Progress Sample
begin

text \<open>
  The properties of the whole system: what clients show, how their requests are served, and that both
  directions make progress, for every interleaving of the server, its clients and the network.
\<close>

section \<open>A concrete system\<close>

text \<open>The sample server with its two clients, all of this library, before any request.\<close>

definition sample_start :: System where
  "sample_start = (system_start sample_boot)\<lparr>sys_server := sample_two\<rparr>"

lemma start_reachable: "system_reachable (\<lambda>_. sample_juice) {} sample_start"
proof -
  have "system_run (\<lambda>_. sample_juice) {} (system_start sample_boot) sample_start"
    using system_more [OF system_more [OF system_refl sys_accept] sys_accept, of _ "{}" "system_start sample_boot"]
    by (simp add: sample_start_def sample_two_def system_start_def)
  then show ?thesis
    unfolding sample_boot_def
    by (rule system_reachableI [OF config_ok_sample]) (simp add: sample_start_def two_ids)
qed

lemma start_facts:
  "sys_server sample_start = sample_two"
  "served sample_start 0" "served sample_start 1" "idle_up sample_start 0" "idle_up sample_start 1"
  by (simp_all add: sample_start_def system_start_def served_def idle_up_def two_facts new_connection_def new_client_def)

lemma fits_CreateRoom: "fits CreateRoom"
  by (simp add: fits_def length_message_bytes)

text \<open>Both requests have been served and both clients have caught up.\<close>

lemma sample_system:
  obtains x where "system_reachable (\<lambda>_. sample_juice) {} x" and "up_to_date x 0" and "up_to_date x 1"
    and "conn_room (srv_conns (sys_server x) 0) = ''ABCD''" and "conn_room (srv_conns (sys_server x) 1) = ''ABCD''"
    and "srv_rooms (sys_server x) ''ABCD'' = Some sample_room" and "conn_id (srv_conns (sys_server x) 1) = 2"
proof -
  obtain y where y: "system_reachable (\<lambda>_. sample_juice) {} y" "sys_server y = sample_hosted"
    "\<forall>q. served y q = served sample_start q" "\<forall>q. q \<noteq> 0 \<longrightarrow> idle_up sample_start q \<longrightarrow> idle_up y q"
    by (rule request_arrives [OF start_reachable start_facts(2,4), of CreateRoom sample_hosted])
      (simp_all add: start_facts(1) create_two fits_CreateRoom)
  have "served y 1" "idle_up y 1" using y(3,4) start_facts by auto
  then obtain z where z: "system_reachable (\<lambda>_. sample_juice) {} z" "sys_server z = sample_joined"
    "\<forall>q. served z q = served y q"
    by (rule request_arrives [OF y(1), of 1 "JoinRoom ''ABCD'' []" sample_joined])
      (simp_all add: y(2) sample_joined_def)
  have "q \<in> {0, 1} \<Longrightarrow> served z q" for q using z(3) y(3) start_facts by auto
  from all_catch_up [of "{0, 1}", OF _ z(1) this] obtain x where x: "system_run (\<lambda>_. sample_juice) {} z x"
    "same_rooms z x" "up_to_date x 0" "up_to_date x 1" by auto
  have "ids_left (sys_server x)" using x(2) z(1) by (simp add: system_reachable_def ids_left_def same_rooms_def)
  then have "system_reachable (\<lambda>_. sample_juice) {} x" by (rule system_reachable_run [OF z(1) x(1)])
  then show ?thesis by (rule that) (use x z(2) in \<open>simp_all add: same_rooms_def joined_facts\<close>)
qed

section \<open>What clients show\<close>

lemma up_to_date_view:
  assumes "system_reachable J F x" and "up_to_date x p"
  shows "cache_of (sys_clients x p) = expected_view (sys_server x) p"
proof -
  have "served x p" using assms(2) by (simp add: up_to_date_def)
  then obtain ms where ms: "stream (sys_server x) p = map FrameMessage ms" "list_all sendable ms"
    "observe_all ms (lobby_view 0) = expected_view (sys_server x) p"
    "tracks (sys_rcvd x p) (sys_given x p) (sys_clients x p)"
    by (rule served_stream [OF assms(1)])
  have "parse_stream [] (sys_rcvd x p) = Some (ms, [], [])"
    using parse_frames [OF sendable_fits [OF ms(2)]] ms(1) assms(2) by (simp add: up_to_date_def)
  then show ?thesis using ms(3,4) by (auto simp: tracks_def)
qed

text \<open>C1: Clients show the server's rooms. In every reachable state of the whole system, whatever the server, the clients
  and the network have done and in whatever order, the cache of a client that is being served is the replay of
  a prefix of the messages the server has for it, the messages given to its application and still queued are the surfaced
  ones of that prefix, and once it has received all of them its cached room is exactly the room the server holds:
  code, host, joinability, password flag, members, room data and member data.\<close>

theorem clients_show_server_rooms:
  assumes "system_reachable J F x" and "served x p"
  shows "\<exists>ms n. stream (sys_server x) p = map FrameMessage ms
     \<and> cache_of (sys_clients x p) = observe_all (take n ms) (lobby_view 0)
     \<and> sys_given x p @ cl_inbox (sys_clients x p) = filter surfaced (take n ms)
     \<and> (sys_rcvd x p = concat (stream (sys_server x) p) \<longrightarrow>
          cache_of (sys_clients x p) = expected_view (sys_server x) p)"
proof -
  obtain ms later where ms: "stream (sys_server x) p = map FrameMessage ms" "list_all sendable ms"
    "concat (map FrameMessage ms) = sys_rcvd x p @ later" "tracks (sys_rcvd x p) (sys_given x p) (sys_clients x p)"
    by (rule served_stream [OF assms])
  obtain ns where ns: "parse_stream [] (sys_rcvd x p) = Some (ns, cl_rx_msg (sys_clients x p), cl_rx (sys_clients x p))"
    "cache_of (sys_clients x p) = observe_all ns (lobby_view 0)"
    "sys_given x p @ cl_inbox (sys_clients x p) = filter surfaced ns"
    using ms(4) by (auto simp: tracks_def)
  have "parse_stream [] (sys_rcvd x p @ later) = Some (ms, [], [])"
    using parse_frames [OF sendable_fits [OF ms(2)]] ms(3) by simp
  then obtain rest where "ms = ns @ rest" using parse_append [OF ns(1), of later] by auto
  then have "cache_of (sys_clients x p) = observe_all (take (length ns) ms) (lobby_view 0)"
    "sys_given x p @ cl_inbox (sys_clients x p) = filter surfaced (take (length ns) ms)" using ns(2,3) by simp_all
  moreover have "sys_rcvd x p = concat (stream (sys_server x) p) \<longrightarrow>
      cache_of (sys_clients x p) = expected_view (sys_server x) p"
    using up_to_date_view [OF assms(1), of p] assms(2) by (simp add: up_to_date_def)
  ultimately show ?thesis using ms(1) by blast
qed

theorem clients_show_server_rooms_witness:
  "\<exists>x. system_reachable (\<lambda>_. sample_juice) {} x \<and> served x 1 \<and> cache_of (sys_clients x 1) = room_view 2 sample_room"
proof -
  obtain x where x: "system_reachable (\<lambda>_. sample_juice) {} x" "up_to_date x 1"
    "conn_room (srv_conns (sys_server x) 1) = ''ABCD''" "srv_rooms (sys_server x) ''ABCD'' = Some sample_room"
    "conn_id (srv_conns (sys_server x) 1) = 2"
    by (rule sample_system)
  have served: "served x 1" using x(2) by (simp add: up_to_date_def)
  have "cache_of (sys_clients x 1) = expected_view (sys_server x) 1"
    using clients_show_server_rooms [OF x(1) served] x(2) by (auto simp: up_to_date_def)
  also have "\<dots> = room_view 2 sample_room" using x(3,4,5) by (simp add: expected_view_def)
  finally show ?thesis using x(1) served by blast
qed

text \<open>C12: Members agree. Two clients of one room that have received everything show the same room code, host,
  joinability, password flag, room data, member data and members, each lists the other, and the host they show is a member.\<close>

theorem members_agree:
  assumes "system_reachable J F x" and "up_to_date x p" and "up_to_date x q"
    and "conn_room (srv_conns (sys_server x) p) = k" and "conn_room (srv_conns (sys_server x) q) = k" and "k \<noteq> []"
    and "v = cache_of (sys_clients x p)" and "w = cache_of (sys_clients x q)"
  shows "view_room v = k \<and> view_room w = k \<and> view_host v = view_host w \<and> view_open v = view_open w
     \<and> view_passworded v = view_passworded w \<and> view_data v = view_data w
     \<and> view_member_data v = view_member_data w \<and> set (view_members v) = set (view_members w)
     \<and> distinct (view_members v) \<and> view_id w \<in> set (view_members v) \<and> view_host v \<in> set (view_members v)"
proof -
  let ?s = "sys_server x"
  have inv: "server_inv ?s" by (rule system_facts(1) [OF assms(1)])
  have live: "p \<in> srv_live ?s" "q \<in> srv_live ?s" using assms(2,3) by (simp_all add: up_to_date_def served_def)
  obtain r where r: "srv_rooms ?s k = Some r" using inv_room_exists [OF inv live(1)] assms(4,6) by auto
  have ok: "room_ok k r" using inv_room_ok [OF inv r] by simp
  have "conn_id (srv_conns ?s p) \<in> set (room_members r)" "conn_id (srv_conns ?s q) \<in> set (room_members r)"
    using inv_member_iff [OF inv r live(1)] inv_member_iff [OF inv r live(2)] assms(4,5) by auto
  moreover have "v = room_view (conn_id (srv_conns ?s p)) r" "w = room_view (conn_id (srv_conns ?s q)) r"
    using up_to_date_view [OF assms(1,2)] up_to_date_view [OF assms(1,3)] assms(4,5,7,8) r
    by (simp_all add: expected_view_def)
  ultimately show ?thesis using ok by (auto simp: room_view_def room_ok_def)
qed

theorem members_agree_witness:
  "\<exists>x. system_reachable (\<lambda>_. sample_juice) {} x \<and> view_room (cache_of (sys_clients x 0)) = ''ABCD''
     \<and> view_host (cache_of (sys_clients x 0)) = view_host (cache_of (sys_clients x 1))
     \<and> set (view_members (cache_of (sys_clients x 0))) = set (view_members (cache_of (sys_clients x 1)))"
proof -
  obtain x where x: "system_reachable (\<lambda>_. sample_juice) {} x" "up_to_date x 0" "up_to_date x 1"
    "conn_room (srv_conns (sys_server x) 0) = ''ABCD''" "conn_room (srv_conns (sys_server x) 1) = ''ABCD''"
    by (rule sample_system)
  from members_agree [OF x(1-5) _ refl refl] x(1) show ?thesis by auto
qed

section \<open>How requests are served\<close>

lemma ReadLoop_refuses:
  assumes "ReadLoop_turn p s \<in> {Read_end, Read_undefined}"
    and "parse_stream (conn_body (srv_conns s p)) (conn_in (srv_conns s p) @ y) = Some (ms, b, r)"
  shows "4 \<le> length r"
proof -
  let ?b = "conn_body (srv_conns s p)" and ?a = "conn_in (srv_conns s p)"
  have "next_frame ?b (?a @ y) = Bad_frame \<or> (\<exists>f. next_frame ?b (?a @ y) = Fault f)
      \<or> (next_frame ?b (?a @ y) = Need_more \<and> 4 \<le> length ?a)"
  proof (cases "next_frame ?b ?a = Need_more")
    case True
    then show ?thesis
      using assms(1)
      by (auto simp: next_frame_def ReadLoop_turn_def Let_def AppendFragment_def
          split: if_splits option.splits sum.splits in_fault.splits)
  next
    case False
    then show ?thesis
      using assms(1) next_frame_append [OF False, of y]
      by (cases "next_frame ?b ?a")
        (auto simp: ReadLoop_frame [OF refl] split: option.splits)
  qed
  then show ?thesis using assms(2) by (auto simp: parse_stream.simps [of ?b "?a @ y"])
qed

lemma ReadLoop_waits:
  "ReadLoop_turn p s = Read_wait \<Longrightarrow> next_frame (conn_body (srv_conns s p)) (conn_in (srv_conns s p)) = Need_more"
  by (auto simp: next_frame_def ReadLoop_turn_def Let_def AppendFragment_def
      split: if_splits option.splits sum.splits in_fault.splits)

lemma read_message_asked:
  assumes "read_message p s = [m]"
    and "parse_stream (conn_body (srv_conns s p)) (conn_in (srv_conns s p) @ y) = Some (ms, b, r)"
  shows "\<exists>later. ms = m # later"
proof -
  obtain rest where "next_frame (conn_body (srv_conns s p)) (conn_in (srv_conns s p)) = Message m rest"
    using assms(1) by (auto simp: read_message_def split: frame_step.splits)
  then have "next_frame (conn_body (srv_conns s p)) (conn_in (srv_conns s p) @ y) = Message m (rest @ y)"
    using next_frame_append [of "conn_body (srv_conns s p)" "conn_in (srv_conns s p)" y] by simp
  then show ?thesis
    using assms(2) by (auto simp: parse_stream.simps [of "conn_body (srv_conns s p)"])
qed

text \<open>C10: Requests are handled exactly once and in order. What the server has handled for a client of this library is a
  prefix of what the client has asked for, its application's requests and its own signalling, and all of it once nothing is
  queued, travelling or left to read. Handled means dispatched: a turn of the read loop that goes on either keeps a fragment,
  which changes nothing but the input of that connection and is not counted, or leaves the server exactly as
  \<open>HandleMessage\<close> leaves it on the next request the client asked for and the server has not handled, and counts that one.
  The read loop never hangs up on such a client and never meets an undefined value, as long as the requests are
  within the cap.\<close>

theorem requests_in_order:
  assumes "system_reachable J F x" and "p \<notin> F" and "p < srv_alloc (sys_server x)" and "list_all fits (sys_asked x p)"
  shows "prefix (sys_handled x p) (sys_asked x p)
     \<and> ReadLoop_turn p (sys_server x) \<noteq> Read_end \<and> ReadLoop_turn p (sys_server x) \<noteq> Read_undefined
     \<and> (\<forall>s'. ReadLoop_turn p (sys_server x) = Read_next s' \<longrightarrow>
          (\<exists>rest body. s' = take_input p rest body (sys_server x) \<and> read_message p (sys_server x) = [])
        \<or> (\<exists>rest m later. sys_asked x p = sys_handled x p @ m # later \<and> read_message p (sys_server x) = [m]
             \<and> HandleMessage p m (take_input p rest [] (sys_server x)) = Some s'))
     \<and> (sys_up x p = [] \<and> cl_tx (sys_clients x p) = [] \<and> ReadLoop_turn p (sys_server x) = Read_wait \<longrightarrow>
          sys_handled x p = sys_asked x p)"
proof -
  let ?c = "srv_conns (sys_server x) p" and ?y = "sys_up x p @ cl_tx (sys_clients x p)"
  have bytes: "sys_arrived x p @ ?y = concat (map FrameMessage (sys_asked x p))"
    using system_facts(6) [OF assms(1)] assms(2) by (simp add: upstream_def)
  have "parse_stream [] (sys_arrived x p @ ?y) = parse_after (sys_handled x p) (parse_stream (conn_body ?c) (conn_in ?c @ ?y))"
    using system_facts(6) [OF assms(1)] assms(3) unfolding upstream_def by blast
  then have "parse_after (sys_handled x p) (parse_stream (conn_body ?c) (conn_in ?c @ ?y)) = Some (sys_asked x p, [], [])"
    unfolding bytes parse_frames [OF assms(4)] by simp
  then obtain ms where ms: "parse_stream (conn_body ?c) (conn_in ?c @ ?y) = Some (ms, [], [])"
    "sys_asked x p = sys_handled x p @ ms"
    by (auto simp: parse_after_def)
  have "ReadLoop_turn p (sys_server x) \<notin> {Read_end, Read_undefined}" using ReadLoop_refuses [OF _ ms(1)] by fastforce
  moreover have "ms = []" if "?y = []" "ReadLoop_turn p (sys_server x) = Read_wait"
    using ms(1) ReadLoop_waits [OF that(2)] that(1)
    by (simp add: parse_stream.simps [of "conn_body ?c" "conn_in ?c"])
  moreover have "(\<exists>rest body. s' = take_input p rest body (sys_server x) \<and> read_message p (sys_server x) = [])
        \<or> (\<exists>rest m later. sys_asked x p = sys_handled x p @ m # later \<and> read_message p (sys_server x) = [m]
             \<and> HandleMessage p m (take_input p rest [] (sys_server x)) = Some s')"
    if "ReadLoop_turn p (sys_server x) = Read_next s'" for s'
    using that
  proof (cases rule: ReadLoop_dispatches)
    case (dispatched m rest)
    then show ?thesis using read_message_asked [OF dispatched(1) ms(1)] ms(2) by blast
  qed blast
  ultimately show ?thesis using ms(2) by auto
qed

theorem requests_in_order_witness:
  "\<exists>x. system_reachable (\<lambda>_. sample_juice) {} x \<and> sys_asked x 0 = [CreateRoom] \<and> sys_handled x 0 = [CreateRoom]"
proof -
  let ?J = "\<lambda>_ :: nat. sample_juice" and ?f = "FrameMessage CreateRoom"
  let ?c = "SendServer CreateRoom (new_client\<lparr>cl_open := True\<rparr>)"
  define c where "c = ?c\<lparr>cl_tx := []\<rparr>"
  define x1 where "x1 = sys_client 0 ?c [] [] [CreateRoom] sample_start"
  define x2 where "x2 = sys_client 0 c [] ?f [] x1"
  define x3 where "x3 = sys_arrive 0 ?f (x2\<lparr>sys_up := (sys_up x2)(0 := [])\<rparr>)"
  define x4 where "x4 = sys_served 0 sample_hosted [CreateRoom] x3"
  have start: "sys_clients sample_start 0 = new_client\<lparr>cl_open := True\<rparr>" "sys_up sample_start 0 = []"
    "sys_down sample_start 0 = []" "sys_rcvd sample_start 0 = []" "sys_asked sample_start 0 = []"
    "sys_handled sample_start 0 = []"
    by (simp_all add: sample_start_def system_start_def)
  have "Poll sample_juice [] [Transferred ?f] ?c = Some (c, ?f, True)"
    by (simp add: Poll_def DrainServer_def CarveServer_def carve_loop_step next_frame_def PollPeers_def Let_def
        FlushServer_def c_def new_client_def empty_mesh_def SendServer_def)
  then have "system_step ?J {} x1 x2"
    using sys_poll [of x1 0 ?J "[]" "[Transferred ?f]" c ?f True "[]" "[]" "{}"]
    by (simp add: x1_def x2_def start c_def SendServer_def new_client_def)
  moreover have "system_step ?J {} sample_start x1"
    using sys_request [of ?J "{}" sample_start 0 CreateRoom] by (simp add: x1_def start)
  moreover have "system_step ?J {} x2 x3"
    unfolding x3_def by (rule sys_deliver) (simp_all add: x2_def x1_def start start_facts(1) two_facts)
  ultimately have run3: "system_run ?J {} sample_start x3" by (meson system_more system_refl)
  have "conn_in (srv_conns sample_two 0) = []" "conn_body (srv_conns sample_two 0) = []"
    by (simp_all add: two_facts new_connection_def)
  note idle = this arrive_consumed [OF this]
  have "system_run ?J {} x3 x4"
    unfolding x4_def
    by (rule system_reads [OF FrameMessage_frames_to [OF fits_CreateRoom, of "[]"]])
      (simp_all add: x3_def x2_def x1_def start_facts(1) create_two idle, simp_all add: arrive_def idle two_facts(2))
  then have "system_run ?J {} sample_start x4" by (rule system_run_trans [OF _ run3])
  then have x4: "system_reachable ?J {} x4"
    by (rule system_reachable_run [OF start_reachable]) (simp add: x4_def ids_left_def hosted_facts)
  have "prefix (sys_handled x4 0) (sys_asked x4 0)"
    using requests_in_order [OF x4, of 0]
    by (simp add: x4_def x3_def x2_def x1_def hosted_facts start fits_CreateRoom)
  then show ?thesis using x4 by (auto simp: x4_def x3_def x2_def x1_def start)
qed

text \<open>C11: Requests reach everyone. From any reachable state in which a client has nothing else under way, a request
  within the cap can be carried through: there is a schedule after which the server has handled it and every client that
  is being served shows the rooms as the handler left them.\<close>

theorem request_reaches_everyone:
  assumes "system_reachable J F x" and "served x p" and "idle_up x p" and "fits m"
    and "HandleMessage p m (sys_server x) = Some s'"
  shows "\<exists>y. system_run J F x y \<and> sys_handled y p = sys_handled x p @ [m] \<and> srv_rooms (sys_server y) = srv_rooms s'
     \<and> (\<forall>q. served x q \<longrightarrow> cl_open (sys_clients y q) \<and> cache_of (sys_clients y q) = expected_view s' q)"
proof -
  obtain y where y: "system_run J F x y" "system_reachable J F y" "sys_server y = s'"
    "sys_handled y p = sys_handled x p @ [m]" "\<forall>q. served y q = served x q"
    by (rule request_arrives [OF assms])
  have "{q. served x q} \<subseteq> {..<srv_alloc (sys_server x)}" using inv_live_alloc [OF system_facts(1) [OF assms(1)]] by (auto simp: served_def)
  then have "finite {q. served x q}" by (rule finite_subset) simp
  from all_catch_up [OF this y(2)] y(5) obtain z where z: "system_run J F y z" "same_rooms y z"
    "\<forall>q \<in> {q. served x q}. up_to_date z q" by auto
  have "system_reachable J F z"
    using system_reachable_run [OF y(2) z(1)] y(2) z(2) by (simp add: system_reachable_def ids_left_def same_rooms_def)
  then have "cache_of (sys_clients z q) = expected_view s' q" if "served x q" for q
    using up_to_date_view [of J F z q] same_rooms_view [OF z(2), of q] y(3) z(3) that by simp
  moreover have "cl_open (sys_clients z q)" if "served x q" for q
    using z(3) that by (auto simp: up_to_date_def served_def)
  ultimately show ?thesis
    using system_run_trans [OF z(1) y(1)] y(3,4) z(2) by (intro exI [of _ z]) (simp add: same_rooms_def)
qed

theorem request_reaches_everyone_witness:
  "\<exists>y. system_run (\<lambda>_. sample_juice) {} sample_start y \<and> srv_rooms (sys_server y) = srv_rooms sample_hosted
     \<and> cache_of (sys_clients y 0) = expected_view sample_hosted 0 \<and> cache_of (sys_clients y 1) = expected_view sample_hosted 1"
  using request_reaches_everyone [OF start_reachable start_facts(2,4) fits_CreateRoom, of sample_hosted]
    start_facts(2,3) create_two by (auto simp: start_facts(1))

section \<open>Any client of any server\<close>

text \<open>The same fact without the composition: a run of the server, and any run of a client that has received what the
  server wrote to one connection, in whatever pieces.\<close>

lemma written_messages:
  assumes "config_ok cfg" and "server_run (fst (Server_Init cfg a b c d (new_server rng cfg'))) s"
    and "ids_left s" and "p \<in> srv_live s" and "conn_writing (srv_conns s p)"
    and "conn_flight (srv_conns s p) = None" and "conn_out (srv_conns s p) = []"
  shows "\<exists>ms. conn_sent (srv_conns s p) = map FrameMessage ms \<and> list_all sendable ms
     \<and> observe_all ms (lobby_view 0) = expected_view s p"
proof -
  have "coherent s"
    by (rule server_run_coherent [OF assms(2,3) server_inv_Init codes_ok_Init [OF assms(1)]
          config_ok_Init [OF assms(1)] coherent_Init])
  then have "coherent_conn s p" using assms(4,5) by (simp add: coherent_def)
  then show ?thesis using assms(6,7) by (simp add: coherent_conn_def stream_def)
qed

lemma client_cache_is_server_state:
  assumes "config_ok cfg" and "server_run (fst (Server_Init cfg a b c d (new_server rng cfg'))) s"
    and "ids_left s" and "p \<in> srv_live s" and "conn_writing (srv_conns s p)"
    and "conn_flight (srv_conns s p) = None" and "conn_out (srv_conns s p) = []"
    and "client_run J (new_client\<lparr>cl_open := True\<rparr>) (concat (conn_sent (srv_conns s p))) outs cl"
    and "cl_open cl"
  shows "cache_of cl = expected_view s p"
proof -
  obtain ms where ms: "conn_sent (srv_conns s p) = map FrameMessage ms" "list_all sendable ms"
    "observe_all ms (lobby_view 0) = expected_view s p"
    using written_messages [OF assms(1-7)] by blast
  have "parse_stream [] (concat (conn_sent (srv_conns s p))) = Some (ms, [], [])"
    using parse_frames [OF sendable_fits [OF ms(2)]] ms(1) by simp
  then show ?thesis
    using client_run_tracks [OF assms(8) refl assms(9)] ms(3) by (auto simp: tracks_def)
qed

end
