(* ===== verification/Mesh_Safety.thy ===== *)
theory Mesh_Safety
  imports Client_Runs
begin

text \<open>
  The client's use of libjuice.  \<open>juice_run\<close> follows a call trace by libjuice's contract: an agent may be used
  from its creation to its destruction, is destroyed once, and is given a remote
  description at most once.  The invariant \<open>mesh_inv\<close> ties the trace to the links: the live agents
  are exactly the linked ones, so nothing leaks and nothing is used after its destruction.
\<close>

section \<open>The contract of libjuice\<close>

text \<open>Live agents, and those among them that have a remote description; no value once the contract is broken.\<close>

type_synonym agents = "agent set \<times> agent set"

fun juice_track :: "juice_call \<Rightarrow> agents \<Rightarrow> agents option" where
  "juice_track (juice_create cfg None) (L, D) = Some (L, D)"
| "juice_track (juice_create cfg (Some a)) (L, D) = (if a \<in> L then None else Some (insert a L, D - {a}))"
| "juice_track (juice_destroy a) (L, D) = (if a \<in> L then Some (L - {a}, D - {a}) else None)"
| "juice_track (juice_set_remote_description a x) (L, D) =
     (if a \<in> L \<and> a \<notin> D then Some (L, insert a D) else None)"
| "juice_track (juice_get_local_description a) (L, D) = (if a \<in> L then Some (L, D) else None)"
| "juice_track (juice_gather_candidates a) (L, D) = (if a \<in> L then Some (L, D) else None)"
| "juice_track (juice_add_remote_candidate a x) (L, D) = (if a \<in> L then Some (L, D) else None)"
| "juice_track (juice_set_remote_gathering_done a) (L, D) = (if a \<in> L then Some (L, D) else None)"
| "juice_track (juice_send a d) (L, D) = (if a \<in> L then Some (L, D) else None)"

definition juice_run :: "juice_call list \<Rightarrow> agents option" where
  "juice_run js = foldl (\<lambda>st j. Option.bind st (juice_track j)) (Some ({}, {})) js"

lemma juice_run_Nil [simp]: "juice_run [] = Some ({}, {})"
  by (simp add: juice_run_def)

lemma juice_run_snoc [simp]: "juice_run (js @ [j]) = Option.bind (juice_run js) (juice_track j)"
  by (simp add: juice_run_def)

text \<open>A created agent is not one of the live ones: distinct live objects have distinct addresses.\<close>

definition fresh_agents :: "juice_api \<Rightarrow> bool" where
  "fresh_agents J \<longleftrightarrow> (\<forall>js cfg a L D. ja_create J js cfg = Some a \<longrightarrow> juice_run js = Some (L, D) \<longrightarrow> a \<notin> L)"

section \<open>The invariant\<close>

definition link_ok :: "agent set \<Rightarrow> u32 \<Rightarrow> PeerLink \<Rightarrow> bool" where
  "link_ok D i l \<longleftrightarrow> link_ctx_peer l = i \<and> (link_remote_set l \<longleftrightarrow> link_agent l \<in> D)
     \<and> (link_connected l \<longrightarrow> link_outbox l = [])"

definition agents_of :: "(u32 \<rightharpoonup> PeerLink) \<Rightarrow> agent set" where
  "agents_of links = ran (\<lambda>i. map_option link_agent (links i))"

definition links_ok :: "agents \<Rightarrow> (u32 \<rightharpoonup> PeerLink) \<Rightarrow> bool" where
  "links_ok st links \<longleftrightarrow>
     fst st = agents_of links \<and> (\<forall>i l. links i = Some l \<longrightarrow> link_ok (snd st) i l)
     \<and> (\<forall>i j l l'. links i = Some l \<longrightarrow> links j = Some l' \<longrightarrow> link_agent l = link_agent l' \<longrightarrow> i = j)"

definition attempts_ok :: "Client \<Rightarrow> bool" where
  "attempts_ok c \<longleftrightarrow> sm_wf (mesh_attempts (cl_mesh c))
     \<and> (\<forall>i n. sm_find (mesh_attempts (cl_mesh c)) i = Some n \<longrightarrow> n \<le> max_connection_attempts)"

definition mesh_inv :: "Client \<Rightarrow> bool" where
  "mesh_inv c \<longleftrightarrow> sm_wf (mesh_links (cl_mesh c)) \<and> attempts_ok c
     \<and> (\<exists>st. juice_run (cl_juice c) = Some st \<and> links_ok st (sm_find (mesh_links (cl_mesh c))))"

section \<open>Frame rules\<close>

lemma mesh_prims [simp, mesh]:
  "cl_juice (set_links l c) = cl_juice c" "mesh_links (cl_mesh (set_links l c)) = l"
  "mesh_attempts (cl_mesh (set_links l c)) = mesh_attempts (cl_mesh c)"
  "cl_juice (set_attempts a c) = cl_juice c" "mesh_links (cl_mesh (set_attempts a c)) = mesh_links (cl_mesh c)"
  "mesh_attempts (cl_mesh (set_attempts a c)) = a"
  "cl_juice (juice_log j c) = cl_juice c @ [j]" "cl_mesh (juice_log j c) = cl_mesh c"
  "cl_juice (SendServer m c) = cl_juice c" "cl_mesh (SendServer m c) = cl_mesh c"
  "cl_juice (set_link i link c) = cl_juice c"
  "mesh_links (cl_mesh (set_link i link c)) = sm_put i link (mesh_links (cl_mesh c))"
  "mesh_attempts (cl_mesh (set_link i link c)) = mesh_attempts (cl_mesh c)"
  by (simp_all add: set_links_def set_attempts_def juice_log_def SendServer_def set_link_def)

lemma mesh_inv_cong:
  "cl_juice c' = cl_juice c \<Longrightarrow> mesh_links (cl_mesh c') = mesh_links (cl_mesh c) \<Longrightarrow>
   mesh_attempts (cl_mesh c') = mesh_attempts (cl_mesh c) \<Longrightarrow> mesh_inv c' = mesh_inv c"
  by (simp add: mesh_inv_def attempts_ok_def)

lemma mesh_inv_SendServer [simp]: "mesh_inv (SendServer m c) = mesh_inv c"
  by (rule mesh_inv_cong) simp_all

lemma FindLink_frame [simp]:
  "FindLink i (SendServer m c) = FindLink i c" "FindLink i (juice_log j c) = FindLink i c"
  "FindLink i (set_attempts a c) = FindLink i c"
  by (simp_all add: FindLink_def)

lemma mesh_inv_attempts:
  assumes "mesh_inv c" and "n \<le> max_connection_attempts"
  shows "mesh_inv (set_attempts (sm_put i n (mesh_attempts (cl_mesh c))) c)"
    and "mesh_inv (set_attempts (sm_erase i (mesh_attempts (cl_mesh c))) c)"
  using assms by (auto simp: mesh_inv_def attempts_ok_def sm.find_put sm.find_erase sm.wf_put sm.wf_erase)

section \<open>Single calls\<close>

text \<open>Calls that only need a live agent.\<close>

fun plain_call :: "agent \<Rightarrow> juice_call \<Rightarrow> bool" where
  "plain_call a (juice_get_local_description b) = (a = b)"
| "plain_call a (juice_gather_candidates b) = (a = b)"
| "plain_call a (juice_add_remote_candidate b x) = (a = b)"
| "plain_call a (juice_set_remote_gathering_done b) = (a = b)"
| "plain_call a (juice_send b d) = (a = b)"
| "plain_call a _ = False"

lemma plain_call_track: "plain_call a j \<Longrightarrow> a \<in> L \<Longrightarrow> juice_track j (L, D) = Some (L, D)"
  by (cases j) auto

lemma linked_agent_live:
  "links_ok (L, D) (sm_find links) \<Longrightarrow> sm_find links i = Some l \<Longrightarrow> link_agent l \<in> L"
  by (force simp: links_ok_def agents_of_def ran_def)

lemma mesh_inv_plain:
  assumes "mesh_inv c" and "FindLink i c = Some l" and "plain_call (link_agent l) j"
  shows "mesh_inv (juice_log j c)"
proof -
  obtain L D where run: "juice_run (cl_juice c) = Some (L, D)"
    and ok: "links_ok (L, D) (sm_find (mesh_links (cl_mesh c)))"
    using assms(1) by (auto simp: mesh_inv_def)
  have "juice_track j (L, D) = Some (L, D)"
    using plain_call_track [OF assms(3)] linked_agent_live [OF ok] assms(2) by (simp add: FindLink_def)
  then show ?thesis using assms(1) run ok by (simp add: mesh_inv_def attempts_ok_def)
qed

lemma agents_of_iff: "a \<in> agents_of links \<longleftrightarrow> (\<exists>i l. links i = Some l \<and> link_agent l = a)"
  by (auto simp: agents_of_def ran_def)

lemma agents_of_update:
  "links i = Some l \<Longrightarrow> link_agent l' = link_agent l \<Longrightarrow> agents_of (links(i \<mapsto> l')) = agents_of links"
  unfolding agents_of_def by (rule arg_cong [of _ _ ran]) auto

lemma links_ok_update:
  assumes "links_ok (L, D) links" and "links i = Some l" and "link_agent l' = link_agent l"
    and "link_ok D i l'"
  shows "links_ok (L, D) (links(i \<mapsto> l'))"
  using assms agents_of_update [of links i l l'] by (auto simp: links_ok_def split: if_splits)

lemma mesh_inv_set_link:
  assumes "mesh_inv c" and "FindLink i c = Some l" and "link_agent l' = link_agent l"
    and "link_ctx_peer l' = link_ctx_peer l" and "link_remote_set l' = link_remote_set l"
    and "link_connected l' \<Longrightarrow> link_outbox l' = []"
  shows "mesh_inv (set_link i l' c)"
proof -
  obtain L D where run: "juice_run (cl_juice c) = Some (L, D)"
    and ok: "links_ok (L, D) (sm_find (mesh_links (cl_mesh c)))" and wf: "sm_wf (mesh_links (cl_mesh c))"
    using assms(1) by (auto simp: mesh_inv_def)
  have l: "sm_find (mesh_links (cl_mesh c)) i = Some l" using assms(2) by (simp add: FindLink_def)
  have "link_ok D i l'" using ok l assms(3-6) by (auto simp: links_ok_def link_ok_def)
  from links_ok_update [OF ok l assms(3) this] show ?thesis
    using assms(1) run wf by (simp add: mesh_inv_def attempts_ok_def sm.find_put sm.wf_put)
qed

lemma mesh_inv_describe:
  assumes "mesh_inv c" and "FindLink i c = Some l" and "\<not> link_remote_set l"
  shows "mesh_inv (set_link i (l\<lparr>link_remote_set := True\<rparr>)
     (juice_log (juice_set_remote_description (link_agent l) x) c))"
proof -
  obtain L D where run: "juice_run (cl_juice c) = Some (L, D)"
    and ok: "links_ok (L, D) (sm_find (mesh_links (cl_mesh c)))" and wf: "sm_wf (mesh_links (cl_mesh c))"
    using assms(1) by (auto simp: mesh_inv_def)
  have l: "sm_find (mesh_links (cl_mesh c)) i = Some l" using assms(2) by (simp add: FindLink_def)
  have live: "link_agent l \<in> L" by (rule linked_agent_live [OF ok l])
  have lok: "link_ok D i l" using ok l by (simp add: links_ok_def)
  have "links_ok (L, insert (link_agent l) D)
      ((sm_find (mesh_links (cl_mesh c)))(i \<mapsto> l\<lparr>link_remote_set := True\<rparr>))"
  proof -
    have "link_ok (insert (link_agent l) D) j x"
      if "sm_find (mesh_links (cl_mesh c)) j = Some x" "j \<noteq> i" for j x
      using that ok l by (auto simp: links_ok_def link_ok_def)
    then show ?thesis
      using ok l lok agents_of_update [of "sm_find (mesh_links (cl_mesh c))" i l "l\<lparr>link_remote_set := True\<rparr>"]
      by (auto simp: links_ok_def link_ok_def split: if_splits)
  qed
  moreover have "link_agent l \<notin> D" using lok assms(3) by (simp add: link_ok_def)
  ultimately show ?thesis
    using assms(1) run wf live by (simp add: mesh_inv_def attempts_ok_def sm.find_put sm.wf_put)
qed

section \<open>Creating and destroying\<close>

definition new_link :: "agent \<Rightarrow> u32 \<Rightarrow> PeerLink" where
  "new_link a i = \<lparr>link_agent = a, link_ctx_peer = i, link_remote_set = False, link_connected = False,
     link_outbox = []\<rparr>"

lemma links_ok_new:
  assumes ok: "links_ok (L, D) links" and new: "links i = None" and a: "a \<notin> L"
  shows "links_ok (insert a L, D - {a}) (links(i \<mapsto> new_link a i))"
proof -
  have agents: "agents_of (links(i \<mapsto> new_link a i)) = insert a (agents_of links)"
    using new by (auto simp: agents_of_def ran_def new_link_def) (metis option.distinct(1) option.map_disc_iff)
  have other: "links j = Some l \<Longrightarrow> link_agent l \<noteq> a" for j l
    using ok a by (auto simp: links_ok_def agents_of_def ran_def)
  show ?thesis
    using ok agents other by (auto simp: links_ok_def link_ok_def new_link_def split: if_splits)
qed

lemma links_ok_erase:
  assumes ok: "links_ok (L, D) links" and l: "links i = Some l"
  shows "links_ok (L - {link_agent l}, D - {link_agent l}) (links(i := None))"
proof -
  have other: "links j = Some l' \<Longrightarrow> j \<noteq> i \<Longrightarrow> link_agent l' \<noteq> link_agent l" for j l'
    using ok l by (auto simp: links_ok_def)
  have "agents_of (links(i := None)) = agents_of links - {link_agent l}"
  proof (rule set_eqI)
    fix a
    have "a \<in> agents_of links - {link_agent l} \<longleftrightarrow> (\<exists>j l'. links j = Some l' \<and> link_agent l' = a \<and> j \<noteq> i)"
      unfolding agents_of_iff Diff_iff using l other by (metis option.inject singletonD singletonI)
    then show "a \<in> agents_of (links(i := None)) \<longleftrightarrow> a \<in> agents_of links - {link_agent l}"
      unfolding agents_of_iff by auto
  qed
  then show ?thesis
    using ok other by (auto simp: links_ok_def link_ok_def split: if_splits)
qed

text \<open>
  Creating a link where there is none: at most three times in a row for a peer, and a
  created agent is registered.
\<close>

lemma attempts_at_bound: "mesh_inv c \<Longrightarrow> attempts_at i c \<le> max_connection_attempts"
  by (auto simp: mesh_inv_def attempts_ok_def attempts_at_def split: option.split)

lemma CreateLink_inv:
  assumes J: "fresh_agents J" and inv: "mesh_inv c" and none: "FindLink i c = None"
    and res: "CreateLink J i c = (c', r)"
  shows "mesh_inv c' \<and> (\<forall>l. r = Some l \<longrightarrow> FindLink i c' = Some l \<and> \<not> link_remote_set l)"
proof -
  let ?n = "attempts_at i c"
  let ?c1 = "set_attempts (sm_put i ?n (mesh_attempts (cl_mesh c))) c"
  let ?cfg = "link_config i (cl_ice ?c1)"
  have c1: "mesh_inv ?c1" by (rule mesh_inv_attempts(1) [OF inv attempts_at_bound [OF inv]])
  obtain L D where run: "juice_run (cl_juice c) = Some (L, D)"
    and ok: "links_ok (L, D) (sm_find (mesh_links (cl_mesh c)))" and wf: "sm_wf (mesh_links (cl_mesh c))"
    using inv by (auto simp: mesh_inv_def)
  show ?thesis
  proof (cases "?n \<ge> max_connection_attempts")
    case True
    then show ?thesis using res c1 by (simp add: CreateLink_def Let_def)
  next
    case False
    then have budget: "?n + 1 \<le> max_connection_attempts"
      by (metis inc_le not_le)
    show ?thesis
    proof (cases "ja_create J (cl_juice c) ?cfg")
      case None
      then have "c' = juice_log (juice_create ?cfg None) ?c1 \<and> r = None"
        using res False by (simp add: CreateLink_def Let_def)
      then show ?thesis using c1 run by (simp add: mesh_inv_def attempts_ok_def)
    next
      case (Some a)
      let ?c2 = "juice_log (juice_create ?cfg (Some a)) ?c1"
      let ?c3 = "set_attempts (sm_put i (?n + 1) (mesh_attempts (cl_mesh ?c2))) ?c2"
      have fresh: "a \<notin> L" using J Some run by (auto simp: fresh_agents_def)
      have "c' = set_link i (new_link a i) ?c3 \<and> r = Some (new_link a i)"
        using res False Some none by (simp add: CreateLink_def Let_def FindLink_def new_link_def)
      moreover have "links_ok (insert a L, D - {a}) ((sm_find (mesh_links (cl_mesh c)))(i \<mapsto> new_link a i))"
        using links_ok_new [OF ok _ fresh] none by (simp add: FindLink_def)
      moreover have "attempts_ok ?c3"
        using c1 budget by (auto simp: mesh_inv_def attempts_ok_def sm.find_put sm.wf_put)
      ultimately show ?thesis
        using run fresh wf
        by (simp add: mesh_inv_def attempts_ok_def FindLink_def sm.find_put sm.wf_put new_link_def)
    qed
  qed
qed

lemma DestroyLink_inv:
  assumes inv: "mesh_inv c"
  shows "mesh_inv (DestroyLink i c) \<and> FindLink i (DestroyLink i c) = None"
proof (cases "FindLink i c")
  case None
  then show ?thesis using inv by (simp add: DestroyLink_def)
next
  case (Some l)
  obtain L D where run: "juice_run (cl_juice c) = Some (L, D)"
    and ok: "links_ok (L, D) (sm_find (mesh_links (cl_mesh c)))" and wf: "sm_wf (mesh_links (cl_mesh c))"
    using inv by (auto simp: mesh_inv_def)
  have l: "sm_find (mesh_links (cl_mesh c)) i = Some l" using Some by (simp add: FindLink_def)
  show ?thesis
    using inv Some run wf links_ok_erase [OF ok l] linked_agent_live [OF ok l]
    by (simp add: DestroyLink_def mesh_inv_def attempts_ok_def FindLink_def sm.find_erase sm.wf_erase)
qed

lemma foldl_log_juice:
  "cl_juice (foldl (\<lambda>c x. juice_log (f x) c) c xs) = cl_juice c @ map f xs"
  "cl_mesh (foldl (\<lambda>c x. juice_log (f x) c) c xs) = cl_mesh c"
  by (induction xs arbitrary: c) simp_all

lemma juice_run_destroys:
  "juice_run js = Some (L, D) \<Longrightarrow> distinct as \<Longrightarrow> set as \<subseteq> L \<Longrightarrow>
   juice_run (js @ map juice_destroy as) = Some (L - set as, D - set as)"
proof (induction as arbitrary: js L D)
  case Nil
  then show ?case by simp
next
  case (Cons a as)
  have "juice_run ((js @ [juice_destroy a]) @ map juice_destroy as) =
      Some (L - {a} - set as, D - {a} - set as)"
    using Cons.prems by (intro Cons.IH) auto
  moreover have "X - {a} - set as = X - set (a # as)" for X by auto
  ultimately show ?case by simp
qed

lemma DestroyAllLinks_inv:
  assumes inv: "mesh_inv c"
  shows "mesh_inv (DestroyAllLinks c) \<and> mesh_links (cl_mesh (DestroyAllLinks c)) = []
     \<and> (\<exists>D. juice_run (cl_juice (DestroyAllLinks c)) = Some ({}, D))"
proof -
  let ?links = "mesh_links (cl_mesh c)" and ?as = "map (\<lambda>(i, l). link_agent l) (mesh_links (cl_mesh c))"
  obtain L D where run: "juice_run (cl_juice c) = Some (L, D)"
    and ok: "links_ok (L, D) (sm_find ?links)" and wf: "sm_wf ?links"
    using inv by (auto simp: mesh_inv_def)
  have L: "set ?as = L"
    using ok by (force simp: links_ok_def agents_of_iff sm_find_iff [OF wf] set_eq_iff)
  have "inj_on (\<lambda>(i, l). link_agent l) (set ?links)"
  proof (rule inj_onI)
    fix x y assume "x \<in> set ?links" and "y \<in> set ?links"
      and "(case x of (i, l) \<Rightarrow> link_agent l) = (case y of (i, l) \<Rightarrow> link_agent l)"
    then have "sm_find ?links (fst x) = Some (snd x)" "sm_find ?links (fst y) = Some (snd y)"
      "link_agent (snd x) = link_agent (snd y)"
      by (simp_all add: sm_find_iff [OF wf] case_prod_unfold)
    moreover from this have "fst x = fst y" using ok unfolding links_ok_def by blast
    ultimately show "x = y" by (simp add: prod_eq_iff)
  qed
  then have d: "distinct ?as"
    using sm_wf_distinct [OF wf] by (simp add: distinct_map)
  have "cl_juice (DestroyAllLinks c) = cl_juice c @ map juice_destroy ?as"
    by (simp add: DestroyAllLinks_def case_prod_unfold foldl_log_juice)
  then have "juice_run (cl_juice (DestroyAllLinks c)) = Some ({}, D - set ?as)"
    using juice_run_destroys [OF run d] L by simp
  then show ?thesis
    by (simp add: mesh_inv_def attempts_ok_def DestroyAllLinks_def links_ok_def agents_of_def)
qed

section \<open>Operations\<close>

lemma foldl_send_inv:
  assumes "mesh_inv c" and "FindLink i c = Some l"
  shows "mesh_inv (foldl (\<lambda>c d. juice_log (juice_send (link_agent l) d) c) c ds)"
  using assms
proof (induction ds arbitrary: c)
  case (Cons d ds)
  then show ?case using mesh_inv_plain [of c i l "juice_send (link_agent l) d"] by simp
qed simp

lemma foldl_log_FindLink: "FindLink i (foldl (\<lambda>c x. juice_log (f x) c) c xs) = FindLink i c"
  by (simp add: FindLink_def foldl_log_juice)

lemma FlushLink_inv:
  assumes "mesh_inv c" and "FindLink i c = Some l" and "link_agent l' = link_agent l"
    and "link_ctx_peer l' = link_ctx_peer l" and "link_remote_set l' = link_remote_set l"
  shows "mesh_inv (FlushLink i l' c)"
  unfolding FlushLink_def assms(3)
  by (rule mesh_inv_set_link [OF foldl_send_inv [OF assms(1,2)]])
    (simp_all add: foldl_log_FindLink assms)

lemma ShareLink_inv:
  assumes "mesh_inv c" and "FindLink i c = Some l" and "link_agent l' = link_agent l"
    and "ShareLink J l' j c = (c', b)"
  shows "mesh_inv c' \<and> FindLink i c' = Some l"
proof -
  let ?c1 = "juice_log (juice_get_local_description (link_agent l)) c"
  have c1: "mesh_inv ?c1" by (rule mesh_inv_plain [OF assms(1,2)]) simp
  have "mesh_inv (juice_log (juice_gather_candidates (link_agent l)) (SendServer m ?c1))" for m
    by (rule mesh_inv_plain [of _ i l]) (simp_all add: c1 assms(2))
  then show ?thesis
    using assms(2-4) c1 by (auto simp: ShareLink_def Let_def split: option.splits)
qed

lemma SendP2P_deliver_inv:
  assumes "mesh_inv c" and "FindLink i c = Some l"
  shows "\<not> link_connected l \<Longrightarrow> mesh_inv (set_link i (l\<lparr>link_outbox := link_outbox l @ [d]\<rparr>) c)"
    and "mesh_inv (juice_log (juice_send (link_agent l) d) c)"
  by (rule mesh_inv_set_link [OF assms], simp_all) (rule mesh_inv_plain [OF assms], simp)

lemma SendP2P_inv:
  assumes J: "fresh_agents J" and inv: "mesh_inv c"
  shows "mesh_inv (fst (SendP2P J i d c))"
proof -
  have deliver: "mesh_inv (fst (if \<not> link_connected l then (set_link i (l\<lparr>link_outbox := link_outbox l @ [d]\<rparr>) c', True)
      else (juice_log (juice_send (link_agent l) d) c', b)))" if "mesh_inv c'" "FindLink i c' = Some l" for c' l b
    using SendP2P_deliver_inv [OF that] by simp
  show ?thesis
  proof (cases "FindLink i c")
    case (Some l)
    then show ?thesis using inv deliver [OF inv Some] by (simp add: SendP2P_def Let_def)
  next
    case None
    obtain c1 r where c1: "CreateLink J i c = (c1, r)" by fastforce
    note create = CreateLink_inv [OF J inv None c1]
    show ?thesis
    proof (cases r)
      case None
      then show ?thesis using inv create c1 \<open>FindLink i c = None\<close> by (simp add: SendP2P_def Let_def)
    next
      case (Some l)
      obtain c2 b where c2: "ShareLink J l i c1 = (c2, b)" by fastforce
      have share: "mesh_inv c2 \<and> FindLink i c2 = Some l"
        using ShareLink_inv [OF _ _ refl c2] create Some by blast
      then show ?thesis
        using inv c1 c2 Some \<open>FindLink i c = None\<close> deliver [of c2 l] DestroyLink_inv [of c2 i]
        by (cases b) (simp_all add: SendP2P_def Let_def)
    qed
  qed
qed

lemma answer_inv:
  assumes J: "fresh_agents J" and inv: "mesh_inv c" and none: "FindLink i c = None"
    and c': "CreateLink J i (set_attempts (sm_erase i (mesh_attempts (cl_mesh c))) c) = (c', r)"
  shows "mesh_inv c' \<and> (\<forall>l. r = Some l \<longrightarrow> FindLink i c' = Some l \<and> \<not> link_remote_set l)"
proof (rule CreateLink_inv [OF J _ _ c'])
  show "mesh_inv (set_attempts (sm_erase i (mesh_attempts (cl_mesh c))) c)"
    using mesh_inv_attempts(2) [OF inv, of 0 i] by simp
qed (simp add: none)

lemma describe_share_inv:
  assumes "mesh_inv c" and "FindLink i c = Some l" and "\<not> link_remote_set l"
    and "c1 = set_link i (l\<lparr>link_remote_set := True\<rparr>) (juice_log (juice_set_remote_description (link_agent l) x) c)"
  shows "mesh_inv c1 \<and> mesh_inv (fst (ShareLink J (l\<lparr>link_remote_set := True\<rparr>) i c1))"
proof -
  have c1: "mesh_inv c1" unfolding assms(4) by (rule mesh_inv_describe [OF assms(1-3)])
  have wf: "sm_wf (mesh_links (cl_mesh c))" using assms(1) by (simp add: mesh_inv_def)
  have "FindLink i c1 = Some (l\<lparr>link_remote_set := True\<rparr>)"
    unfolding assms(4) using wf by (simp add: FindLink_def sm.find_put)
  then show ?thesis
    using c1 ShareLink_inv [OF c1 _ refl, of i "l\<lparr>link_remote_set := True\<rparr>" J i] by (metis prod.collapse)
qed

lemma HandleP2PDescription_inv:
  assumes J: "fresh_agents J" and inv: "mesh_inv c"
  shows "mesh_inv (HandleP2PDescription J i d c)"
proof -
  have answering: "mesh_inv (case CreateLink J i (set_attempts (sm_erase i (mesh_attempts (cl_mesh c))) c) of
      (c, None) \<Rightarrow> c
    | (c, Some l) \<Rightarrow> fst (ShareLink J (l\<lparr>link_remote_set := True\<rparr>) i
        (set_link i (l\<lparr>link_remote_set := True\<rparr>)
          (juice_log (juice_set_remote_description (link_agent l) (c_str d)) c))))"
    if "mesh_inv c" "FindLink i c = None" for c
  proof -
    obtain c' r where c': "CreateLink J i (set_attempts (sm_erase i (mesh_attempts (cl_mesh c))) c) = (c', r)"
      by fastforce
    from answer_inv [OF J that c'] describe_share_inv [of c' i _ _ "c_str d" J] c' show ?thesis
      by (cases r) auto
  qed
  have fresh_remote: "CreateLink J i c = (c', Some l) \<Longrightarrow> FindLink i c = None \<Longrightarrow> mesh_inv c \<Longrightarrow> \<not> link_remote_set l"
    for c c' l using CreateLink_inv [OF J] by blast
  show ?thesis
  proof (cases "\<exists>l. FindLink i c = Some l \<and> \<not> link_remote_set l")
    case True
    then show ?thesis
      using describe_share_inv [OF inv, of i _ _ "c_str d"]
      by (auto simp: HandleP2PDescription_def Let_def)
  next
    case False
    define b where "b = (case FindLink i c of None \<Rightarrow> c | Some l \<Rightarrow> DestroyLink i c)"
    have b: "mesh_inv b" "FindLink i b = None"
      using False inv DestroyLink_inv [OF inv, of i] by (auto simp: b_def split: option.splits)
    have "HandleP2PDescription J i d c =
        (case CreateLink J i (set_attempts (sm_erase i (mesh_attempts (cl_mesh b))) b) of
          (c, None) \<Rightarrow> c
        | (c, Some l) \<Rightarrow> fst (ShareLink J (l\<lparr>link_remote_set := True\<rparr>) i
            (set_link i (l\<lparr>link_remote_set := True\<rparr>)
              (juice_log (juice_set_remote_description (link_agent l) (c_str d)) c))))"
      using False fresh_remote [of "set_attempts (sm_erase i (mesh_attempts (cl_mesh b))) b"] b
        mesh_inv_attempts(2) [OF b(1), of 0 i]
      by (auto simp: HandleP2PDescription_def Let_def b_def split: option.splits prod.splits)
    then show ?thesis using answering [OF b] by simp
  qed
qed

end
