(* ===== verification/Mesh_Runs.thy ===== *)
theory Mesh_Runs
  imports Mesh_Safety
begin

text \<open>
  The mesh invariant through every operation of the client: signals, libjuice events, cached
  messages, the carving loop, a poll, and so every run.
\<close>

section \<open>Signals and events\<close>

lemma Client_HandleP2PSignal_inv:
  assumes J: "fresh_agents J" and inv: "mesh_inv c"
  shows "mesh_inv (Client_HandleP2PSignal J i kind payload c)"
  using HandleP2PDescription_inv [OF J inv] inv mesh_inv_plain [OF inv, of i]
  by (auto simp: Client_HandleP2PSignal_def split: option.splits)

lemma HandleLinkState_inv:
  assumes inv: "mesh_inv c" and l: "FindLink (ev_peer ev) c = Some l"
  shows "mesh_inv (HandleLinkState l ev c)"
proof -
  let ?c = "set_attempts (sm_erase (ev_peer ev) (mesh_attempts (cl_mesh c))) c"
  have "mesh_inv ?c" using mesh_inv_attempts(2) [OF inv, of 0] by simp
  then have up: "mesh_inv (FlushLink (ev_peer ev) (l\<lparr>link_connected := True\<rparr>) ?c)"
    by (rule FlushLink_inv [of _ _ l]) (simp_all add: l)
  have down: "mesh_inv (set_link (ev_peer ev) (l\<lparr>link_connected := False\<rparr>) c)"
    by (rule mesh_inv_set_link [OF inv l]) simp_all
  show ?thesis
    using up down DestroyLink_inv [OF inv, of "ev_peer ev"] inv
    by (auto simp: HandleLinkState_def split: juice_state.split)
qed

lemma mesh_inv_outside [simp]:
  "mesh_inv (c\<lparr>cl_p2p_inbox := d\<rparr>) = mesh_inv c" "mesh_inv (c\<lparr>cl_rx := bs\<rparr>) = mesh_inv c"
  "mesh_inv (c\<lparr>cl_rx_msg := bs\<rparr>) = mesh_inv c" "mesh_inv (c\<lparr>cl_tx := bs\<rparr>) = mesh_inv c"
  "mesh_inv (c\<lparr>cl_inbox := ms\<rparr>) = mesh_inv c" "mesh_inv (c\<lparr>cl_id := i\<rparr>) = mesh_inv c"
  "mesh_inv (c\<lparr>cl_ice := ice\<rparr>) = mesh_inv c" "mesh_inv (c\<lparr>cl_open := b\<rparr>) = mesh_inv c"
  "mesh_inv (c\<lparr>cl_room := r\<rparr>) = mesh_inv c" "mesh_inv (c\<lparr>cl_host := i\<rparr>) = mesh_inv c"
  "mesh_inv (c\<lparr>cl_room_open := b\<rparr>) = mesh_inv c" "mesh_inv (c\<lparr>cl_room_passworded := b\<rparr>) = mesh_inv c"
  "mesh_inv (c\<lparr>cl_members := is\<rparr>) = mesh_inv c" "mesh_inv (c\<lparr>cl_data := d'\<rparr>) = mesh_inv c"
  "mesh_inv (c\<lparr>cl_member_data := d''\<rparr>) = mesh_inv c"
  "mesh_inv (c\<lparr>cl_mesh := m\<lparr>mesh_events := evs\<rparr>\<rparr>) = mesh_inv (c\<lparr>cl_mesh := m\<rparr>)"
  "mesh_inv (c\<lparr>cl_mesh := m\<lparr>mesh_scratch := evs\<rparr>\<rparr>) = mesh_inv (c\<lparr>cl_mesh := m\<rparr>)"
  "mesh_inv (c\<lparr>cl_mesh := cl_mesh c\<rparr>) = mesh_inv c"
  by (rule mesh_inv_cong; simp)+

lemma HandleJuiceEvent_inv: "mesh_inv c \<Longrightarrow> mesh_inv (HandleJuiceEvent ev c)"
  using HandleLinkState_inv [of c ev]
  by (auto simp: HandleJuiceEvent_def split: option.split JuiceEventKind.split)

lemma foldl_inv: "(\<And>c x. P c \<Longrightarrow> P (f c x)) \<Longrightarrow> P c \<Longrightarrow> P (foldl f c xs)"
  by (induction xs arbitrary: c) auto

lemma PollPeers_inv: "mesh_inv c \<Longrightarrow> mesh_inv (PollPeers c)"
  unfolding PollPeers_def Let_def
  by (simp, rule foldl_inv [of mesh_inv], erule HandleJuiceEvent_inv) simp

section \<open>Messages\<close>

lemma ClearRoomState_inv: "mesh_inv c \<Longrightarrow> mesh_inv (ClearRoomState c)"
  using DestroyAllLinks_inv [of c] by (simp add: ClearRoomState_def)

lemma DisconnectServer_inv: "mesh_inv c \<Longrightarrow> mesh_inv (DisconnectServer c)"
  by (simp add: DisconnectServer_def ClearRoomState_inv)

lemma PeerLeft_inv: "mesh_inv c \<Longrightarrow> mesh_inv (CacheRoomState (PeerLeft i) c)"
proof -
  assume inv: "mesh_inv c"
  let ?c = "c\<lparr>cl_members := filter (\<lambda>j. j \<noteq> i) (cl_members c), cl_member_data := sm_erase i (cl_member_data c)\<rparr>"
  have "mesh_inv (DestroyLink i ?c)" using DestroyLink_inv [of ?c i] inv by simp
  then have "mesh_inv (set_attempts (sm_erase i (mesh_attempts (cl_mesh (DestroyLink i ?c)))) (DestroyLink i ?c))"
    using mesh_inv_attempts(2) [of _ 0 i] by simp
  then show ?thesis using ClearRoomState_inv [OF inv] by (simp add: Let_def)
qed

lemma CacheRoomState_inv: "mesh_inv c \<Longrightarrow> mesh_inv (CacheRoomState m c)"
proof (cases m)
  case (PeerLeft i)
  then show "mesh_inv c \<Longrightarrow> ?thesis" by (simp only: PeerLeft_inv)
qed (auto simp: ClearRoomState_inv Let_def split: option.split)

lemma dispatch_inv: "fresh_agents J \<Longrightarrow> mesh_inv c \<Longrightarrow> mesh_inv (dispatch J m c)"
  by (auto simp: dispatch_def Let_def CacheRoomState_inv Client_HandleP2PSignal_inv
      simp del: CacheRoomState.simps split: ServerMessage.split)

fun carved_inv :: "carve_result \<Rightarrow> bool" where
  "carved_inv (Carved c r) = mesh_inv c"
| "carved_inv (Carve_disconnect c) = mesh_inv c"
| "carved_inv Carve_undefined = True"

lemma carve_loop_inv:
  assumes "fresh_agents J"
  shows "mesh_inv c \<Longrightarrow> carved_inv (carve_loop J r c)"
proof (induction r c rule: carve_induct [where J = J])
  case (step r c)
  then show ?case
    using dispatch_inv [OF assms]
    by (simp add: carve_loop_step [of J r c] split: frame_step.split in_fault.split)
qed

lemma CarveServer_inv:
  assumes "fresh_agents J" and "mesh_inv c" and "CarveServer J c = Some (c', ok)"
  shows "mesh_inv c'"
  using carve_loop_inv [OF assms(1,2), of "cl_rx c"] assms(3)
  by (auto simp: CarveServer_def DisconnectServer_inv split: carve_result.splits)

lemma FlushServer_inv: "mesh_inv c \<Longrightarrow> mesh_inv (fst (FlushServer ws c))"
  by (simp add: FlushServer_def Let_def DisconnectServer_inv split: prod.split)

lemma DrainServer_inv: "mesh_inv c \<Longrightarrow> mesh_inv (fst (DrainServer rs c))"
  by (simp add: DrainServer_def Let_def DisconnectServer_inv split: prod.split)

lemma Poll_inv:
  assumes J: "fresh_agents J" and inv: "mesh_inv c" and poll: "Poll J reads writes c = Some (c', sent, ok)"
  shows "mesh_inv c'"
proof -
  obtain c1 b where drain: "DrainServer reads c = (c1, b)" by fastforce
  then have c1: "mesh_inv c1" using DrainServer_inv [OF inv, of reads] by simp
  show ?thesis
    using poll inv drain c1 CarveServer_inv [OF J c1] FlushServer_inv [OF PollPeers_inv, of _ writes]
    by (auto simp: Poll_def split: if_splits bool.splits option.splits prod.splits) (metis fst_conv)+
qed

section \<open>Runs\<close>

lemma client_step_inv:
  assumes "client_step J c bs outs c'" and "fresh_agents J"
  shows "mesh_inv c \<Longrightarrow> mesh_inv c'"
  using assms(1)
proof cases
  case (cs_poll reads writes sent ok)
  then show "mesh_inv c \<Longrightarrow> ?thesis" using Poll_inv [OF assms(2)] by blast
qed (auto simp: SendP2P_inv [OF assms(2)] Client_Next_def NextP2P_def PushJuiceEvent_def split: list.splits)

lemma client_run_inv:
  assumes "client_run J c bs outs c'" and "fresh_agents J"
  shows "mesh_inv c \<Longrightarrow> mesh_inv c'"
  using assms(1) by induction (auto intro: client_step_inv [OF _ assms(2)])

lemma mesh_inv_new: "mesh_inv (new_client\<lparr>cl_open := b\<rparr>)"
  by (simp add: mesh_inv_def attempts_ok_def new_client_def empty_mesh_def links_ok_def agents_of_def)

end
