(* ===== verification/Exchange.thy ===== *)
theory Exchange
  imports System_Properties Mesh_Runs
begin

text \<open>
  The handshake of two peers through the server: one dials, its description travels to the other, which answers with
  its own, and both trickle their candidates.  First what single operations do to a client that is otherwise at rest, then the
  journey of one message in each direction, then the whole exchange, then the journey of a candidate.
\<close>

section \<open>Clients at rest\<close>

definition at_rest :: "Client \<Rightarrow> bool" where
  "at_rest c \<longleftrightarrow> cl_open c \<and> cl_rx c = [] \<and> cl_rx_msg c = []
     \<and> mesh_events (cl_mesh c) = [] \<and> mesh_scratch (cl_mesh c) = []"

text \<open>Nothing but a callback adds to the event queues.\<close>

definition queues :: "Client \<Rightarrow> JuiceEvent list \<times> JuiceEvent list" where
  "queues c = (mesh_events (cl_mesh c), mesh_scratch (cl_mesh c))"

lemma queues_prims [simp]:
  "queues (set_links l c) = queues c" "queues (set_attempts a c) = queues c" "queues (juice_log j c) = queues c"
  "queues (SendServer m c) = queues c" "queues (set_link i link c) = queues c"
  by (simp_all add: queues_def set_links_def set_attempts_def juice_log_def SendServer_def set_link_def)

lemma queues_CreateLink [simp]: "CreateLink J i c = (c', l) \<Longrightarrow> queues c' = queues c"
  by (auto simp: CreateLink_def Let_def split: if_splits option.splits)

lemma queues_ShareLink [simp]: "ShareLink J l i c = (c', b) \<Longrightarrow> queues c' = queues c"
  by (auto simp: ShareLink_def Let_def split: option.splits)

lemma queues_DestroyLink [simp]: "queues (DestroyLink i c) = queues c"
  by (simp add: DestroyLink_def split: option.split)

lemma queues_P2PDescription [simp]: "queues (HandleP2PDescription J i d c) = queues c"
  by (auto simp: HandleP2PDescription_def Let_def fst_def split: option.split prod.split)

lemma queues_P2PSignal [simp]: "queues (Client_HandleP2PSignal J i k d c) = queues c"
  by (simp add: Client_HandleP2PSignal_def split: option.split)

lemma queues_SendP2P: "SendP2P J i d c = (c', b) \<Longrightarrow> queues c' = queues c"
  by (auto simp: SendP2P_def Let_def split: if_splits option.splits prod.splits bool.splits)

lemma queues_ClearRoomState: "queues (ClearRoomState c) = queues c"
proof -
  have "cl_mesh (foldl (\<lambda>c (i, link). juice_log (juice_destroy (link_agent link)) c) c ls) = cl_mesh c"
    for ls :: "(u32, PeerLink) stdmap" and c
    by (induction ls arbitrary: c) (auto simp: juice_log_def)
  then show ?thesis by (simp add: queues_def ClearRoomState_def DestroyAllLinks_def set_links_def set_attempts_def)
qed

lemma queues_CacheRoomState: "queues (CacheRoomState m c) = queues c"
proof (cases m)
  case (PeerLeft i)
  have "queues (set_attempts a (DestroyLink i d)) = queues d" for a d by simp
  then show ?thesis unfolding PeerLeft by (auto simp: Let_def queues_ClearRoomState) (simp add: queues_def)
qed (simp_all add: queues_ClearRoomState Let_def split: option.split, simp_all add: queues_def)

lemma queues_dispatch: "queues (dispatch J m c) = queues c"
proof -
  have "queues (c\<lparr>cl_inbox := x\<rparr>) = queues c" for x and c :: Client by (simp add: queues_def)
  then show ?thesis
    by (cases m) (simp_all add: dispatch_def Let_def queues_CacheRoomState del: CacheRoomState.simps, simp_all add: queues_def)
qed

lemma queues_dispatch_all: "queues (dispatch_all J ms c) = queues c"
  by (induction ms arbitrary: c) (simp_all add: dispatch_all_def queues_dispatch)

lemma PollPeers_rest: "queues c = ([], []) \<Longrightarrow> PollPeers c = c"
  by (simp add: PollPeers_def queues_def Let_def)

lemma Poll_sends:
  assumes "at_rest c"
  shows "Poll J [] [Transferred (cl_tx c)] c = Some (c\<lparr>cl_tx := []\<rparr>, cl_tx c, True)"
proof -
  have rest: "PollPeers c = c" using assms by (intro PollPeers_rest) (simp add: at_rest_def queues_def)
  have drain: "DrainServer [] c = (c, True)" by (simp add: DrainServer_def)
  have "carve_loop J (cl_rx c) c = Carved c []"
    using assms by (simp add: at_rest_def carve_loop_step next_frame_def)
  then have carve: "CarveServer J c = Some (c, True)" using assms by (simp add: at_rest_def CarveServer_def)
  have "FlushServer [Transferred (cl_tx c)] c = (c\<lparr>cl_tx := []\<rparr>, cl_tx c, True)" by (auto simp: FlushServer_def)
  then show ?thesis using assms by (simp add: at_rest_def Poll_def drain carve rest)
qed

lemma Poll_receives:
  assumes "at_rest c" and "list_all fits ms" and "a = concat (map FrameMessage ms)"
  shows "Poll J [Transferred a] [] c = Some ((dispatch_all J ms (c\<lparr>cl_rx := a\<rparr>))\<lparr>cl_rx := []\<rparr>, [], True)"
proof -
  let ?d = "dispatch_all J ms (c\<lparr>cl_rx := a\<rparr>)"
  have "carve_loop J (a @ []) (c\<lparr>cl_rx := a\<rparr>) = carve_loop J [] ?d"
    unfolding assms(3) by (rule carve_frames [OF assms(2)]) (use assms(1) in \<open>simp add: at_rest_def\<close>)
  then have carve: "carve_loop J a (c\<lparr>cl_rx := a\<rparr>) = Carved ?d []" by (simp add: carve_loop_step next_frame_def)
  have "queues (?d\<lparr>cl_rx := []\<rparr>) = ([], [])"
    using assms(1) queues_dispatch_all [of J ms "c\<lparr>cl_rx := a\<rparr>"] by (simp add: at_rest_def queues_def)
  then have "PollPeers (?d\<lparr>cl_rx := []\<rparr>) = ?d\<lparr>cl_rx := []\<rparr>" by (rule PollPeers_rest)
  then show ?thesis
    using assms(1) carve by (simp add: at_rest_def Poll_def DrainServer_def CarveServer_def FlushServer_def)
qed

section \<open>Dialling, answering and accepting\<close>

text \<open>
  A libjuice that gets its calls done: agents are created, descriptions fit the buffer of 4096 characters and
  gathering starts.
\<close>

definition willing :: "juice_api \<Rightarrow> bool" where
  "willing J \<longleftrightarrow> (\<forall>calls config. ja_create J calls config \<noteq> None)
     \<and> (\<forall>calls a. \<exists>s. ja_local_description J calls a = Some s \<and> length s \<le> 4096)
     \<and> (\<forall>calls a. ja_gather_candidates J calls a)"

definition described :: "juice_api \<Rightarrow> agent \<Rightarrow> string \<Rightarrow> bool" where
  "described J a t \<longleftrightarrow> length t \<le> 4096 \<and> (\<exists>calls s. ja_local_description J calls a = Some s \<and> t = c_str s)"

lemma c_str_twice: "c_str (c_str s) = c_str s"
  by (simp add: c_str_def takeWhile_idem)

lemma find_put_same [simp]: "sm_find (sm_put k v m) k = Some v"
  using map_of_filter_fst [of "\<lambda>k'. k' < k" m k]
  by (simp add: sm_find_def sm_put_def map_add_def)

lemma FindLink_simps [simp]:
  "FindLink i (set_link i l c) = Some l" "FindLink i (set_attempts a c) = FindLink i c"
  "FindLink i (c\<lparr>cl_rx := r\<rparr>) = FindLink i c" "FindLink i (c\<lparr>cl_tx := x\<rparr>) = FindLink i c"
  by (simp_all add: FindLink_def)

lemma tx_simps [simp]:
  "cl_tx (set_link i l c) = cl_tx c" "cl_tx (set_attempts a c) = cl_tx c" "cl_tx (juice_log j c) = cl_tx c"
  "cl_tx (SendServer m c) = cl_tx c @ FrameMessage m"
  by (simp_all add: set_link_def set_links_def set_attempts_def juice_log_def SendServer_def)

text \<open>A new link whose description is shared with the peer.\<close>

lemma willing_link:
  assumes "willing J" and "FindLink i c = None" and "attempts_at i c < max_connection_attempts"
  obtains c1 l where "CreateLink J i c = (c1, Some l)" and "FindLink i c1 = Some l" and "\<not> link_remote_set l"
    and "\<not> link_connected l" and "link_outbox l = []" and "cl_tx c1 = cl_tx c"
proof -
  let ?c = "set_attempts (sm_put i (attempts_at i c) (mesh_attempts (cl_mesh c))) c"
  obtain a where "ja_create J (cl_juice ?c) (link_config i (cl_ice ?c)) = Some a"
    using assms(1) by (fastforce simp: willing_def)
  then have "\<exists>c1 l. CreateLink J i c = (c1, Some l) \<and> FindLink i c1 = Some l \<and> \<not> link_remote_set l
      \<and> \<not> link_connected l \<and> link_outbox l = [] \<and> cl_tx c1 = cl_tx c"
    using assms(2,3) by (simp add: CreateLink_def Let_def)
  then show ?thesis using that by blast
qed

lemma willing_share:
  assumes "willing J"
  obtains c' t where "ShareLink J l i c = (c', True)" and "described J (link_agent l) t"
    and "cl_tx c' = cl_tx c @ FrameMessage (P2PSignal i Description t)" and "FindLink i c' = FindLink i c"
    and "set (cl_juice c) \<subseteq> set (cl_juice c')"
proof -
  obtain s where s: "ja_local_description J (cl_juice c) (link_agent l) = Some s" "length s \<le> 4096"
    using assms unfolding willing_def by blast
  then have "described J (link_agent l) (c_str s)"
    using length_takeWhile_le [of _ s] by (auto simp: described_def c_str_def intro: order_trans)
  then show ?thesis
    using that [of _ "c_str s"] s assms by (auto simp: ShareLink_def Let_def willing_def)
qed

lemma dial_facts:
  assumes "willing J" and "FindLink i c = None" and "attempts_at i c < max_connection_attempts"
    and "d \<noteq> []" and "length d \<le> max_p2p_message_size" and "i \<noteq> cl_id c" and "i \<in> set (cl_members c)"
  obtains c' l t where "SendP2P J i d c = (c', True)" and "FindLink i c' = Some l" and "\<not> link_remote_set l"
    and "link_outbox l = [d]" and "described J (link_agent l) t"
    and "cl_tx c' = cl_tx c @ FrameMessage (P2PSignal i Description t)"
proof -
  obtain c1 l where c1: "CreateLink J i c = (c1, Some l)" "FindLink i c1 = Some l" "\<not> link_remote_set l"
    "\<not> link_connected l" "link_outbox l = []" "cl_tx c1 = cl_tx c"
    by (rule willing_link [OF assms(1-3)])
  obtain c2 t where c2: "ShareLink J l i c1 = (c2, True)" "described J (link_agent l) t"
    "cl_tx c2 = cl_tx c1 @ FrameMessage (P2PSignal i Description t)" "FindLink i c2 = FindLink i c1"
    by (rule willing_share [OF assms(1)])
  show ?thesis
    by (rule that [of "set_link i (l\<lparr>link_outbox := [d]\<rparr>) c2" "l\<lparr>link_outbox := [d]\<rparr>" t])
      (use assms c1 c2 in \<open>simp_all add: SendP2P_def\<close>)
qed

lemma answer_facts:
  assumes "willing J" and "FindLink i c = None" and "c' = HandleP2PDescription J i s c"
  obtains l t where "FindLink i c' = Some l" and "link_remote_set l"
    and "juice_set_remote_description (link_agent l) (c_str s) \<in> set (cl_juice c')"
    and "described J (link_agent l) t" and "cl_tx c' = cl_tx c @ FrameMessage (P2PSignal i Description t)"
proof -
  let ?c = "set_attempts (sm_erase i (mesh_attempts (cl_mesh c))) c"
  have "attempts_at i ?c < max_connection_attempts" by (simp add: attempts_at_def sm.find_erase)
  then obtain c1 l where c1: "CreateLink J i ?c = (c1, Some l)" "FindLink i c1 = Some l" "\<not> link_remote_set l"
    "\<not> link_connected l" "link_outbox l = []" "cl_tx c1 = cl_tx ?c"
    using willing_link [OF assms(1), of i ?c] assms(2) by auto
  let ?l = "l\<lparr>link_remote_set := True\<rparr>"
  let ?c2 = "set_link i ?l (juice_log (juice_set_remote_description (link_agent l) (c_str s)) c1)"
  obtain c3 t where c3: "ShareLink J ?l i ?c2 = (c3, True)" "described J (link_agent ?l) t"
    "cl_tx c3 = cl_tx ?c2 @ FrameMessage (P2PSignal i Description t)" "FindLink i c3 = FindLink i ?c2"
    "set (cl_juice ?c2) \<subseteq> set (cl_juice c3)"
    by (rule willing_share [OF assms(1)])
  have "c' = c3" using assms(2,3) c1 c3(1) by (simp add: HandleP2PDescription_def Let_def)
  then show ?thesis using that [of ?l t] c1 c3 by auto
qed

lemma accept_facts:
  assumes "FindLink i c = Some l" and "\<not> link_remote_set l" and "c' = HandleP2PDescription J i s c"
  shows "FindLink i c' = Some (l\<lparr>link_remote_set := True\<rparr>)"
    and "juice_set_remote_description (link_agent l) (c_str s) \<in> set (cl_juice c')"
  using assms by (simp_all add: HandleP2PDescription_def Let_def)

section \<open>A signal from client to client\<close>

text \<open>A queued message of a client at rest is flushed, delivered and handled.\<close>

lemma rest_sends:
  assumes "system_reachable J F x" and "p \<in> srv_live (sys_server x)" and "at_rest (sys_clients x p)"
    and "cl_tx (sys_clients x p) = FrameMessage m" and "sys_up x p = []"
    and "conn_in (srv_conns (sys_server x) p) = []" and "conn_body (srv_conns (sys_server x) p) = []"
    and "fits m" and "HandleMessage p m (sys_server x) = Some s'"
  obtains y where "system_run J F x y" and "system_reachable J F y" and "handled (sys_server x) s'"
    and "sys_server y = s'" and "sys_clients y = (sys_clients x)(p := (sys_clients x p)\<lparr>cl_tx := []\<rparr>)"
    and "sys_up y = sys_up x" and "sys_rcvd y = sys_rcvd x"
proof -
  let ?c = "(sys_clients x p)\<lparr>cl_tx := []\<rparr>"
  let ?x1 = "sys_client p ?c [] (FrameMessage m) [] x"
  let ?y = "sys_served p s' [m] (sys_arrive p (FrameMessage m) (?x1\<lparr>sys_up := (sys_up ?x1)(p := [])\<rparr>))"
  have poll: "Poll (J p) [] [Transferred (FrameMessage m)] (sys_clients x p) = Some (?c, FrameMessage m, True)"
    using Poll_sends [OF assms(3), of "J p"] assms(4) by simp
  obtain later where "sys_down x p = sys_rcvd x p @ received [] @ later"
    using downstreamD(1) [OF system_facts(5) [OF assms(1)], of p] by (auto simp: prefix_def)
  then have "system_step J F x ?x1"
    using sys_poll [of x p J "[]" "[Transferred (FrameMessage m)]" ?c "FrameMessage m" True later "[]" F] poll assms(3,4)
    by (simp add: at_rest_def)
  moreover have "system_run J F ?x1 ?y" by (rule flushed_arrives) (use assms in simp_all)
  ultimately have run: "system_run J F x ?y" using system_run_trans system_more [OF system_refl] by blast
  have "handled (sys_server x) s'" "system_reachable J F ?y"
    using handled_reachable [OF assms(1) run assms(2,8)] assms(9) by simp_all
  then show ?thesis using that [OF run] assms(5) by (auto simp: fun_upd_idem)
qed

text \<open>A client at rest receives all that the server has for it.\<close>

lemma rest_receives:
  assumes "system_reachable J F x" and "served x q" and "at_rest (sys_clients x q)" and "list_all fits ms"
    and "concat (stream (sys_server x) q) = sys_rcvd x q @ concat (map FrameMessage ms)"
    and "c' = (dispatch_all (J q) ms ((sys_clients x q)\<lparr>cl_rx := concat (map FrameMessage ms)\<rparr>))\<lparr>cl_rx := []\<rparr>"
  obtains y where "system_run J F x y" and "system_reachable J F y" and "same_rooms x y"
    and "sys_clients y = (sys_clients x)(q := c')" and "sys_up y = sys_up x"
    and "sys_rcvd y = (sys_rcvd x)(q := concat (stream (sys_server x) q))"
    and "\<forall>r. stream (sys_server y) r = stream (sys_server x) r
       \<and> conn_in (srv_conns (sys_server y) r) = conn_in (srv_conns (sys_server x) r)
       \<and> conn_body (srv_conns (sys_server y) r) = conn_body (srv_conns (sys_server x) r)
       \<and> conn_writing (srv_conns (sys_server y) r) = conn_writing (srv_conns (sys_server x) r)"
proof -
  let ?s = "sys_server x" and ?a = "concat (map FrameMessage ms)"
  let ?s1 = "set_conn q ((srv_conns ?s q)\<lparr>conn_flight := None, conn_out := [], conn_sent := stream ?s q\<rparr>) ?s"
  obtain bs later where w: "system_run J F x (sys_wrote q ?s1 bs x)" "system_reachable J F (sys_wrote q ?s1 bs x)"
    "sys_down (sys_wrote q ?s1 bs x) q = sys_rcvd x q @ later" "concat (stream ?s q) = sys_rcvd x q @ later"
    "\<forall>r. stream ?s1 r = stream ?s r"
    by (rule queue_written [OF assms(1,2)])
  let ?x1 = "sys_wrote q ?s1 bs x"
  have "later = ?a" using w(4) assms(5) by simp
  moreover have "Poll (J q) [Transferred ?a] [] (sys_clients x q) = Some (c', [], True)"
    using Poll_receives [OF assms(3,4) refl, of "J q"] assms(6) by simp
  ultimately obtain ms' where step: "system_step J F ?x1 (sys_client q c' ?a [] ms' ?x1)"
    using poll_enabled [of ?x1 q J "[Transferred ?a]" "[]" c' "[]" True "[]" F] assms(3) w(3) by (auto simp: at_rest_def)
  let ?y = "sys_client q c' ?a [] ms' ?x1"
  have run: "system_run J F x ?y" by (rule system_more [OF w(1) step])
  moreover have "system_reachable J F ?y"
    using system_reachable_run [OF assms(1) run] assms(1) by (simp add: system_reachable_def ids_left_def)
  ultimately show ?thesis
    by (rule that [of ?y]) (use w(4,5) assms(5) in \<open>auto simp: same_rooms_def fun_eq_iff\<close>)
qed

lemma relay_eq:
  assumes "server_inv s" and "p \<in> srv_live s" and "q \<in> srv_live s" and "p \<noteq> q"
    and "conn_room (srv_conns s p) = conn_room (srv_conns s q)" and "conn_room (srv_conns s p) \<noteq> []"
  shows "HandleMessage p (P2PSignal (conn_id (srv_conns s q)) k t) s =
    Some (SendTo (conn_id (srv_conns s q)) (P2PSignal (conn_id (srv_conns s p)) k t) s)"
proof -
  obtain r where r: "srv_rooms s (conn_room (srv_conns s p)) = Some r"
    using inv_room_exists [OF assms(1,2,6)] by blast
  have "conn_id (srv_conns s q) \<in> set (room_members r)" using inv_member_iff [OF assms(1) r assms(3)] assms(5) by simp
  then show ?thesis
    using inv_id_inject [OF assms(1,2,3)] assms(4) r by (auto simp: Server_HandleP2PSignal_def Let_def)
qed

text \<open>The parts of the system a signal leaves alone.\<close>

definition same_seats :: "System \<Rightarrow> System \<Rightarrow> bool" where
  "same_seats x y \<longleftrightarrow> srv_live (sys_server y) = srv_live (sys_server x)
     \<and> (\<forall>r. conn_id (srv_conns (sys_server y) r) = conn_id (srv_conns (sys_server x) r)
          \<and> conn_room (srv_conns (sys_server y) r) = conn_room (srv_conns (sys_server x) r)
          \<and> conn_in (srv_conns (sys_server y) r) = conn_in (srv_conns (sys_server x) r)
          \<and> conn_body (srv_conns (sys_server y) r) = conn_body (srv_conns (sys_server x) r)
          \<and> conn_writing (srv_conns (sys_server y) r) = conn_writing (srv_conns (sys_server x) r))"

lemma carry_signal:
  assumes "system_reachable J F x" and "p \<noteq> q" and "served x p" and "up_to_date x q"
    and "conn_room (srv_conns (sys_server x) p) = conn_room (srv_conns (sys_server x) q)"
    and "conn_room (srv_conns (sys_server x) p) \<noteq> []"
    and "at_rest (sys_clients x p)" and "at_rest (sys_clients x q)" and "sys_up x p = []"
    and "conn_in (srv_conns (sys_server x) p) = []" and "conn_body (srv_conns (sys_server x) p) = []"
    and "cl_tx (sys_clients x p) = FrameMessage (P2PSignal (conn_id (srv_conns (sys_server x) q)) k t)"
    and "length t \<le> 4096" and m: "m = P2PSignal (conn_id (srv_conns (sys_server x) p)) k t"
  obtains y where "system_run J F x y" and "system_reachable J F y" and "same_seats x y"
    and "sys_up y = sys_up x" and "sys_rcvd y p = sys_rcvd x p" and "stream (sys_server y) p = stream (sys_server x) p"
    and "up_to_date y q"
    and "sys_clients y = (sys_clients x)(p := (sys_clients x p)\<lparr>cl_tx := []\<rparr>,
       q := (dispatch (J q) m ((sys_clients x q)\<lparr>cl_rx := FrameMessage m\<rparr>))\<lparr>cl_rx := []\<rparr>)"
proof -
  let ?s = "sys_server x"
  let ?s1 = "SendTo (conn_id (srv_conns ?s q)) m ?s"
  let ?c = "(dispatch (J q) m ((sys_clients x q)\<lparr>cl_rx := FrameMessage m\<rparr>))\<lparr>cl_rx := []\<rparr>"
  have inv: "server_inv ?s" by (rule system_facts(1) [OF assms(1)])
  have live: "p \<in> srv_live ?s" "q \<in> srv_live ?s" using assms(3,4) by (simp_all add: served_def up_to_date_def)
  obtain y where y: "system_run J F x y" "system_reachable J F y" "sys_server y = ?s1"
    "sys_clients y = (sys_clients x)(p := (sys_clients x p)\<lparr>cl_tx := []\<rparr>)" "sys_up y = sys_up x" "sys_rcvd y = sys_rcvd x"
    by (rule rest_sends [OF assms(1) live(1) assms(7,12,9,10,11), of ?s1])
      (use relay_eq [OF inv live assms(2,5,6)] assms(13) m in simp_all)
  have streams: "stream ?s1 q = stream ?s q @ [FrameMessage m]" "stream ?s1 p = stream ?s p"
    using registered_iff [OF inv] live inv_id_inject [OF inv live] assms(2) by (auto simp: stream_SendTo)
  have q: "served y q" "at_rest (sys_clients y q)" "sys_rcvd y q = concat (stream ?s q)" "sys_clients y q = sys_clients x q"
    using assms(2,4,8) y(3,4,6) by (simp_all add: served_def up_to_date_def)
  have fits: "list_all fits [m]" using m assms(13) by simp
  obtain z where z: "system_run J F y z" "system_reachable J F z" "same_rooms y z" "sys_clients z = (sys_clients y)(q := ?c)"
    "sys_up z = sys_up y" "sys_rcvd z = (sys_rcvd y)(q := concat (stream (sys_server y) q))"
    "\<forall>r. stream (sys_server z) r = stream (sys_server y) r
       \<and> conn_in (srv_conns (sys_server z) r) = conn_in (srv_conns (sys_server y) r)
       \<and> conn_body (srv_conns (sys_server z) r) = conn_body (srv_conns (sys_server y) r)
       \<and> conn_writing (srv_conns (sys_server z) r) = conn_writing (srv_conns (sys_server y) r)"
    by (rule rest_receives [OF y(2) q(1,2) fits, of ?c]) (simp_all add: q y(3) streams dispatch_all_def)
  have "cl_open ?c" using dispatch_frame(3) [of "J q" m] assms(8) by (simp add: at_rest_def)
  then have "up_to_date z q"
    using q(1) z by (simp add: up_to_date_def served_def same_rooms_def)
  moreover have "same_seats x z" using z(3,7) y(3) by (simp add: same_rooms_def same_seats_def)
  ultimately show ?thesis
    using that [OF system_run_trans [OF z(1) y(1)] z(2)] assms(2) y z streams by simp
qed

section \<open>The exchange\<close>

text \<open>A client that is up to date, at rest, and has nothing under way to the server.\<close>

definition calm :: "System \<Rightarrow> nat \<Rightarrow> bool" where
  "calm x p \<longleftrightarrow> up_to_date x p \<and> at_rest (sys_clients x p) \<and> idle_up x p"

lemma at_rest_outside:
  "outside_mesh c' = outside_mesh c \<Longrightarrow> queues c' = queues c \<Longrightarrow> at_rest c' = at_rest c"
  by (simp add: at_rest_def outside_mesh_def queues_def)

lemma signal_rest:
  assumes "at_rest c" and "c' = (dispatch J (P2PSignal i Description t) (c\<lparr>cl_rx := a\<rparr>))\<lparr>cl_rx := []\<rparr>"
  shows "at_rest c'"
  using assms dispatch_frame(2,3) [of J "P2PSignal i Description t" "c\<lparr>cl_rx := a\<rparr>"]
    queues_dispatch [of J "P2PSignal i Description t" "c\<lparr>cl_rx := a\<rparr>"]
  by (simp add: at_rest_def queues_def)

lemma dispatched_answer:
  assumes "at_rest c" and "FindLink i c = None" and "willing J" and "cl_tx c = []" and "c_str t = t"
    and "c' = (dispatch J (P2PSignal i Description t) (c\<lparr>cl_rx := a\<rparr>))\<lparr>cl_rx := []\<rparr>"
  obtains l u where "FindLink i c' = Some l" and "link_remote_set l"
    and "juice_set_remote_description (link_agent l) t \<in> set (cl_juice c')" and "described J (link_agent l) u"
    and "cl_tx c' = FrameMessage (P2PSignal i Description u)" and "at_rest c'"
proof -
  let ?e = "HandleP2PDescription J i t (c\<lparr>cl_rx := a\<rparr>)"
  have c': "c' = ?e\<lparr>cl_rx := []\<rparr>" using assms(6) by (simp add: dispatch_def Client_HandleP2PSignal_def)
  have "FindLink i (c\<lparr>cl_rx := a\<rparr>) = None" using assms(2) by simp
  then obtain l u where "FindLink i ?e = Some l" "link_remote_set l"
    "juice_set_remote_description (link_agent l) (c_str t) \<in> set (cl_juice ?e)" "described J (link_agent l) u"
    "cl_tx ?e = cl_tx (c\<lparr>cl_rx := a\<rparr>) @ FrameMessage (P2PSignal i Description u)"
    by (rule answer_facts [OF assms(3) _ refl])
  then show ?thesis using that [of l u] signal_rest [OF assms(1,6)] assms(4,5) by (simp add: c')
qed

lemma member_facts:
  assumes "system_reachable J F x" and "up_to_date x p" and "q \<in> srv_live (sys_server x)" and "p \<noteq> q"
    and "conn_room (srv_conns (sys_server x) p) = conn_room (srv_conns (sys_server x) q)"
    and "conn_room (srv_conns (sys_server x) p) \<noteq> []"
  shows "conn_id (srv_conns (sys_server x) q) \<noteq> cl_id (sys_clients x p)"
    and "conn_id (srv_conns (sys_server x) q) \<in> set (cl_members (sys_clients x p))"
proof -
  let ?s = "sys_server x"
  have inv: "server_inv ?s" by (rule system_facts(1) [OF assms(1)])
  have live: "p \<in> srv_live ?s" using assms(2) by (simp add: up_to_date_def served_def)
  obtain r where r: "srv_rooms ?s (conn_room (srv_conns ?s p)) = Some r" using inv_room_exists [OF inv live assms(6)] by blast
  have "cache_of (sys_clients x p) = room_view (conn_id (srv_conns ?s p)) r"
    using up_to_date_view [OF assms(1,2)] r by (simp add: expected_view_def)
  then have "cl_id (sys_clients x p) = conn_id (srv_conns ?s p)"
    "cl_members (sys_clients x p) = conn_id (srv_conns ?s p) # filter (\<lambda>j. j \<noteq> conn_id (srv_conns ?s p)) (room_members r)"
    by (simp_all add: cache_of_def room_view_def)
  moreover have "conn_id (srv_conns ?s q) \<noteq> conn_id (srv_conns ?s p)"
    using inv_id_inject [OF inv live assms(3)] assms(4) by auto
  moreover have "conn_id (srv_conns ?s q) \<in> set (room_members r)"
    using inv_member_iff [OF inv r assms(3)] assms(5) by simp
  ultimately show "conn_id (srv_conns ?s q) \<noteq> cl_id (sys_clients x p)"
    "conn_id (srv_conns ?s q) \<in> set (cl_members (sys_clients x p))" by simp_all
qed

text \<open>The first datagram to a peer makes a link and queues its description.\<close>

lemma first_datagram:
  assumes "system_reachable J F x" and "calm x p" and "q \<in> srv_live (sys_server x)" and "p \<noteq> q"
    and "conn_room (srv_conns (sys_server x) p) = conn_room (srv_conns (sys_server x) q)"
    and "conn_room (srv_conns (sys_server x) p) \<noteq> []" and "j = conn_id (srv_conns (sys_server x) q)"
    and "willing (J p)" and "FindLink j (sys_clients x p) = None"
    and "attempts_at j (sys_clients x p) < max_connection_attempts"
    and "d \<noteq> []" and "length d \<le> max_p2p_message_size"
  obtains y c l t where "system_run J F x y" and "system_reachable J F y" and "at_rest c"
    and "FindLink j c = Some l" and "\<not> link_remote_set l" and "link_outbox l = [d]" and "described (J p) (link_agent l) t"
    and "cl_tx c = FrameMessage (P2PSignal j Description t)"
    and "sys_server y = sys_server x" and "sys_clients y = (sys_clients x)(p := c)" and "sys_up y = sys_up x"
    and "sys_rcvd y = sys_rcvd x"
proof -
  have calm: "up_to_date x p" "at_rest (sys_clients x p)" "cl_tx (sys_clients x p) = []"
    using assms(2) by (simp_all add: calm_def idle_up_def)
  obtain c l t where c: "SendP2P (J p) j d (sys_clients x p) = (c, True)" "FindLink j c = Some l" "\<not> link_remote_set l"
    "link_outbox l = [d]" "described (J p) (link_agent l) t"
    "cl_tx c = cl_tx (sys_clients x p) @ FrameMessage (P2PSignal j Description t)"
    by (rule dial_facts [OF assms(8-12)]) (use member_facts [OF assms(1) calm(1) assms(3-6)] assms(7) in simp_all)
  let ?y = "sys_client p c [] [] [P2PSignal j Description t] x"
  have "system_step J F x ?y" using sys_send_p2p [of J p j d x c True "[P2PSignal j Description t]" F] c(1,6) by simp
  then have run: "system_run J F x ?y" by (rule system_more [OF system_refl])
  have reach: "system_reachable J F ?y"
    using system_reachable_run [OF assms(1) run] assms(1) by (simp add: system_reachable_def)
  have "at_rest c" using at_rest_outside [OF outside_SendP2P [OF c(1)] queues_SendP2P [OF c(1)]] calm(2) by simp
  from that [OF run reach this c(2-5)] show ?thesis using c(6) calm(3) by (simp add: fun_upd_idem)
qed

text \<open>The offer reaches the peer, which answers it.\<close>

lemma offer_answered:
  assumes "system_reachable J F x" and "calm x p" and "calm x q" and "p \<noteq> q"
    and "conn_room (srv_conns (sys_server x) p) = conn_room (srv_conns (sys_server x) q)"
    and "conn_room (srv_conns (sys_server x) p) \<noteq> []"
    and "i = conn_id (srv_conns (sys_server x) p)" and "j = conn_id (srv_conns (sys_server x) q)"
    and "willing (J p)" and "willing (J q)"
    and "FindLink j (sys_clients x p) = None" and "FindLink i (sys_clients x q) = None"
    and "attempts_at j (sys_clients x p) < max_connection_attempts"
    and "d \<noteq> []" and "length d \<le> max_p2p_message_size"
  obtains z l t l' t' where "system_run J F x z" and "system_reachable J F z" and "same_seats x z"
    and "up_to_date z p" and "up_to_date z q" and "at_rest (sys_clients z p)" and "at_rest (sys_clients z q)"
    and "sys_up z = sys_up x" and "cl_tx (sys_clients z q) = FrameMessage (P2PSignal i Description t')"
    and "cl_tx (sys_clients z p) = []" and "FindLink j (sys_clients z p) = Some l" and "\<not> link_remote_set l" and "link_outbox l = [d]"
    and "described (J p) (link_agent l) t" and "FindLink i (sys_clients z q) = Some l'" and "link_remote_set l'"
    and "juice_set_remote_description (link_agent l') t \<in> set (cl_juice (sys_clients z q))"
    and "described (J q) (link_agent l') t'"
proof -
  have live: "q \<in> srv_live (sys_server x)" using assms(3) by (simp add: calm_def up_to_date_def served_def)
  obtain y c l t where y: "system_run J F x y" "system_reachable J F y" "at_rest c" "FindLink j c = Some l"
    "\<not> link_remote_set l" "link_outbox l = [d]" "described (J p) (link_agent l) t"
    "cl_tx c = FrameMessage (P2PSignal j Description t)" "sys_server y = sys_server x"
    "sys_clients y = (sys_clients x)(p := c)" "sys_up y = sys_up x" "sys_rcvd y = sys_rcvd x"
    by (rule first_datagram [OF assms(1,2) live assms(4,5,6,8,9,11,13,14,15)])
  let ?m = "P2PSignal i Description t"
  define e where "e = (dispatch (J q) ?m ((sys_clients x q)\<lparr>cl_rx := FrameMessage ?m\<rparr>))\<lparr>cl_rx := []\<rparr>"
  have t: "length t \<le> 4096" "c_str t = t" using y(7) by (auto simp: described_def c_str_twice)
  have calm_y: "served y p" "up_to_date y q" "at_rest (sys_clients y p)" "at_rest (sys_clients y q)"
    "sys_up y p = []" "sys_up y q = []" "cl_tx (sys_clients y q) = []"
    using assms(2,3,4) y(3,9-12) by (simp_all add: calm_def up_to_date_def served_def idle_up_def at_rest_def)
  have idle_y: "conn_in (srv_conns (sys_server y) r) = [] \<and> conn_body (srv_conns (sys_server y) r) = []" if "r = p \<or> r = q" for r
    using that assms(2,3) y(9) by (auto simp: calm_def idle_up_def)
  obtain z where z: "system_run J F y z" "system_reachable J F z" "same_seats y z" "sys_up z = sys_up y"
    "sys_rcvd z p = sys_rcvd y p" "stream (sys_server z) p = stream (sys_server y) p" "up_to_date z q"
    "sys_clients z = (sys_clients y)(p := (sys_clients y p)\<lparr>cl_tx := []\<rparr>, q := e)"
    by (rule carry_signal [OF y(2) assms(4) calm_y(1,2) _ _ calm_y(3,4,5), of Description t ?m])
      (use assms y idle_y t in \<open>simp_all add: e_def\<close>)
  have e_calm: "FindLink i (sys_clients x q) = None" "at_rest (sys_clients x q)" "cl_tx (sys_clients x q) = []"
    using assms(3,12) by (simp_all add: calm_def idle_up_def)
  obtain l' t' where ans: "FindLink i e = Some l'" "link_remote_set l'"
    "juice_set_remote_description (link_agent l') t \<in> set (cl_juice e)" "described (J q) (link_agent l') t'"
    "cl_tx e = FrameMessage (P2PSignal i Description t')" "at_rest e"
    by (rule dispatched_answer [OF e_calm(2,1) assms(10) e_calm(3) t(2) e_def])
  have cl: "sys_clients z p = c\<lparr>cl_tx := []\<rparr>" "sys_clients z q = e" using z(8) y(10) assms(4) by simp_all
  have "at_rest (sys_clients z p)" "at_rest (sys_clients z q)" using y(3) ans(6) cl by (simp_all add: at_rest_def)
  moreover have "up_to_date z p"
    using assms(2) y(9,12) z cl calm_y(1) y(3) by (simp add: calm_def up_to_date_def served_def same_seats_def at_rest_def)
  moreover have "same_seats x z" using z(3) y(9) by (simp add: same_seats_def)
  moreover have "FindLink j (sys_clients z p) = Some l" using y(4) cl by simp
  ultimately show ?thesis
    using that [OF system_run_trans [OF z(1) y(1)] z(2)] z(4,7) y(5-7,11) ans cl by simp
qed

text \<open>The answer is taken by the one that dialled; both are calm again.\<close>

lemma accept_quiet:
  assumes "FindLink i c = Some l" and "\<not> link_remote_set l"
  shows "cl_tx (HandleP2PDescription J i s c) = cl_tx c"
  using assms by (simp add: HandleP2PDescription_def Let_def)

lemma calm_sender:
  assumes "up_to_date x p" and "at_rest (sys_clients y p)" and "cl_tx (sys_clients y p) = []" and "same_seats x y"
    and "sys_up x p = []" and "sys_up y = sys_up x" and "sys_rcvd y p = sys_rcvd x p"
    and "stream (sys_server y) p = stream (sys_server x) p"
    and "conn_in (srv_conns (sys_server x) p) = []" and "conn_body (srv_conns (sys_server x) p) = []"
  shows "calm y p"
  using assms by (simp add: calm_def up_to_date_def served_def idle_up_def same_seats_def at_rest_def)

lemma descriptions_exchanged:
  assumes "system_reachable J F x" and "calm x p" and "calm x q" and "p \<noteq> q"
    and "conn_room (srv_conns (sys_server x) p) = conn_room (srv_conns (sys_server x) q)"
    and "conn_room (srv_conns (sys_server x) p) \<noteq> []"
    and "i = conn_id (srv_conns (sys_server x) p)" and "j = conn_id (srv_conns (sys_server x) q)"
    and "willing (J p)" and "willing (J q)"
    and "FindLink j (sys_clients x p) = None" and "FindLink i (sys_clients x q) = None"
    and "attempts_at j (sys_clients x p) < max_connection_attempts"
    and "d \<noteq> []" and "length d \<le> max_p2p_message_size"
  obtains y l l' t t' where "system_run J F x y" and "system_reachable J F y" and "same_seats x y"
    and "calm y p" and "calm y q"
    and "FindLink j (sys_clients y p) = Some l" and "FindLink i (sys_clients y q) = Some l'"
    and "link_remote_set l" and "link_remote_set l'" and "link_outbox l = [d]"
    and "described (J p) (link_agent l) t" and "described (J q) (link_agent l') t'"
    and "juice_set_remote_description (link_agent l) t' \<in> set (cl_juice (sys_clients y p))"
    and "juice_set_remote_description (link_agent l') t \<in> set (cl_juice (sys_clients y q))"
proof -
  obtain z l t l' t' where run: "system_run J F x z" and z: "system_reachable J F z" "same_seats x z"
    "up_to_date z p" "up_to_date z q" and rest: "at_rest (sys_clients z p)" "at_rest (sys_clients z q)"
    and up: "sys_up z = sys_up x" and tx: "cl_tx (sys_clients z q) = FrameMessage (P2PSignal i Description t')"
    and quiet: "cl_tx (sys_clients z p) = []"
    and l: "FindLink j (sys_clients z p) = Some l" "\<not> link_remote_set l" "link_outbox l = [d]" "described (J p) (link_agent l) t"
    and l': "FindLink i (sys_clients z q) = Some l'" "link_remote_set l'"
      "juice_set_remote_description (link_agent l') t \<in> set (cl_juice (sys_clients z q))" "described (J q) (link_agent l') t'"
    by (rule offer_answered [OF assms])
  have t': "length t' \<le> 4096" "c_str t' = t'" using l'(4) by (auto simp: described_def c_str_twice)
  let ?n = "P2PSignal j Description t'" and ?c = "sys_clients z p"
  define g where "g = (dispatch (J p) ?n (?c\<lparr>cl_rx := FrameMessage ?n\<rparr>))\<lparr>cl_rx := []\<rparr>"
  have idle: "sys_up z r = [] \<and> conn_in (srv_conns (sys_server z) r) = [] \<and> conn_body (srv_conns (sys_server z) r) = []"
    if "r = p \<or> r = q" for r
    using that assms(2,3) z(2) up by (auto simp: same_seats_def calm_def idle_up_def)
  have "served z q" using z(4) by (simp add: up_to_date_def)
  then obtain w where w: "system_run J F z w" "system_reachable J F w" "same_seats z w" "sys_up w = sys_up z"
    "sys_rcvd w q = sys_rcvd z q" "stream (sys_server w) q = stream (sys_server z) q" "up_to_date w p"
    "sys_clients w = (sys_clients z)(q := (sys_clients z q)\<lparr>cl_tx := []\<rparr>, p := g)"
    by (rule carry_signal [OF z(1) assms(4) [symmetric] _ z(3) _ _ rest(2,1), of Description t' ?n])
      (use assms(3-8) z(2) tx idle t'(1) in \<open>simp_all add: same_seats_def g_def\<close>)
  have g: "FindLink j (?c\<lparr>cl_rx := FrameMessage ?n\<rparr>) = Some l" using l(1) by simp
  note accepted = accept_facts [OF g l(2) refl, where J = "J p" and s = t'] accept_quiet [OF g l(2), where J = "J p" and s = t']
  have g_facts: "FindLink j g = Some (l\<lparr>link_remote_set := True\<rparr>)"
    "juice_set_remote_description (link_agent l) t' \<in> set (cl_juice g)" "cl_tx g = []" "at_rest g"
    using accepted t'(2) quiet signal_rest [OF rest(1) g_def] by (simp_all add: g_def dispatch_def Client_HandleP2PSignal_def)
  have "calm w p"
    using w(3,4,7,8) g_facts(3,4) idle [of p] by (simp add: calm_def idle_up_def same_seats_def)
  moreover have "calm w q"
    by (rule calm_sender [OF z(4) _ _ w(3) _ w(4-6)]) (use w(8) assms(4) rest(2) idle in \<open>simp_all add: at_rest_def\<close>)
  moreover have "same_seats x w" using z(2) w(3) by (simp add: same_seats_def)
  ultimately show ?thesis
    using that [OF system_run_trans [OF w(1) run] w(2), of "l\<lparr>link_remote_set := True\<rparr>" l' t t'] w(8) g_facts(1,2) l(3,4) l' assms(4)
    by simp
qed

section \<open>Candidates\<close>

text \<open>
  While it gathers, libjuice reports candidates (\<open>Some\<close>) and then that there are no more (\<open>None\<close>): the
  callback, the signal that goes out for it, and the call the other side makes.
\<close>

definition trickle_callback :: "agent \<Rightarrow> string option \<Rightarrow> u32 \<Rightarrow> P2PMesh \<Rightarrow> P2PMesh" where
  "trickle_callback a r peer m =
     (case r of Some sdp \<Rightarrow> OnJuiceCandidate a sdp peer m | None \<Rightarrow> OnJuiceGatheringDone a peer m)"

definition trickle_kind :: "string option \<Rightarrow> P2PSignalKind" where
  "trickle_kind r = (case r of Some _ \<Rightarrow> Candidate | None \<Rightarrow> GatheringDone)"

definition trickle_text :: "string option \<Rightarrow> string" where
  "trickle_text r = (case r of Some sdp \<Rightarrow> c_str sdp | None \<Rightarrow> [])"

definition trickle_call :: "agent \<Rightarrow> string option \<Rightarrow> juice_call" where
  "trickle_call a r = (case r of Some sdp \<Rightarrow> juice_add_remote_candidate a (c_str sdp) | None \<Rightarrow> juice_set_remote_gathering_done a)"

definition reported :: "nat \<Rightarrow> u32 \<Rightarrow> agent \<Rightarrow> string option \<Rightarrow> System \<Rightarrow> System" where
  "reported p j a r x =
     sys_client p ((sys_clients x p)\<lparr>cl_mesh := trickle_callback a r j (cl_mesh (sys_clients x p))\<rparr>) [] [] [] x"

lemma reported_simps [simp]:
  "sys_server (reported p j a r x) = sys_server x" "sys_up (reported p j a r x) = sys_up x"
  "sys_rcvd (reported p j a r x) = sys_rcvd x" "sys_down (reported p j a r x) = sys_down x"
  by (simp_all add: reported_def)

lemma reported_step: "system_step J F x (reported p j a r x)"
proof -
  have "\<exists>ev. trickle_callback a r j (cl_mesh (sys_clients x p)) = PushJuiceEvent a j ev (cl_mesh (sys_clients x p))"
    by (auto simp: trickle_callback_def OnJuiceCandidate_def OnJuiceGatheringDone_def split: option.split)
  then show ?thesis using sys_callback [OF refl, of J F x p] by (auto simp: reported_def)
qed

lemma Poll_trickle:
  assumes "at_rest c" and "FindLink j c = Some l" and "link_agent l = a"
  shows "Poll J [] [] (c\<lparr>cl_mesh := trickle_callback a r j (cl_mesh c)\<rparr>)
     = Some (SendServer (P2PSignal j (trickle_kind r) (trickle_text r)) c, [], True)"
proof -
  let ?d = "c\<lparr>cl_mesh := trickle_callback a r j (cl_mesh c)\<rparr>"
  have rest: "cl_open c" "cl_rx c = []" "mesh_events (cl_mesh c) = []" "mesh_scratch (cl_mesh c) = []"
    using assms(1) by (simp_all add: at_rest_def)
  have same: "c\<lparr>cl_mesh := (cl_mesh c)\<lparr>mesh_events := [], mesh_scratch := []\<rparr>\<rparr> = c"
    using rest by simp
  have peers: "PollPeers ?d = SendServer (P2PSignal j (trickle_kind r) (trickle_text r)) c"
    using assms(2,3) rest same
    by (cases r) (simp_all add: PollPeers_def HandleJuiceEvent_def FindLink_def trickle_callback_def trickle_kind_def
        trickle_text_def OnJuiceCandidate_def OnJuiceGatheringDone_def PushJuiceEvent_def blank_event_def SendServer_def
        Let_def)
  have "CarveServer J ?d = Some (?d, True)"
    using rest by (simp add: CarveServer_def carve_loop_step next_frame_def)
  moreover have "DrainServer [] ?d = (?d, True)" by (simp add: DrainServer_def)
  ultimately show ?thesis using rest peers by (simp add: Poll_def FlushServer_def)
qed

lemma trickle_dispatch:
  assumes "FindLink i c = Some l" and "cl_rx c = []"
  shows "(dispatch J (P2PSignal i (trickle_kind r) (trickle_text r)) (c\<lparr>cl_rx := b\<rparr>))\<lparr>cl_rx := []\<rparr>
     = juice_log (trickle_call (link_agent l) r) c"
  using assms
  by (cases r) (simp_all add: dispatch_def Client_HandleP2PSignal_def trickle_kind_def trickle_text_def trickle_call_def
      juice_log_def c_str_twice)

lemma trickle_carried:
  assumes "system_reachable J F x" and "calm x p" and "calm x q" and "p \<noteq> q"
    and "conn_room (srv_conns (sys_server x) p) = conn_room (srv_conns (sys_server x) q)"
    and "conn_room (srv_conns (sys_server x) p) \<noteq> []"
    and "i = conn_id (srv_conns (sys_server x) p)" and "j = conn_id (srv_conns (sys_server x) q)"
    and "FindLink j (sys_clients x p) = Some l" and "FindLink i (sys_clients x q) = Some l'"
    and "length (trickle_text r) \<le> 4096"
  obtains y where "system_run J F (reported p j (link_agent l) r x) y" and "system_reachable J F y" and "same_seats x y"
    and "calm y p" and "calm y q" and "sys_clients y p = sys_clients x p"
    and "sys_clients y q = juice_log (trickle_call (link_agent l') r) (sys_clients x q)"
proof -
  let ?x1 = "reported p j (link_agent l) r x" and ?m = "P2PSignal j (trickle_kind r) (trickle_text r)"
  let ?n = "P2PSignal i (trickle_kind r) (trickle_text r)" and ?c = "sys_clients x p"
  let ?x2 = "sys_client p (SendServer ?m ?c) [] [] [?m] ?x1"
  have p: "up_to_date x p" "at_rest ?c" "idle_up x p" and q: "up_to_date x q" "at_rest (sys_clients x q)" "idle_up x q"
    using assms(2,3) by (simp_all add: calm_def)
  obtain later where "sys_down x p = sys_rcvd x p @ later"
    using downstreamD(1) [OF system_facts(5) [OF assms(1)], of p] by (auto simp: prefix_def)
  then have step: "system_step J F ?x1 ?x2"
    using sys_poll [of ?x1 p J "[]" "[]" "SendServer ?m ?c" "[]" True later "[?m]" F] p(2)
      Poll_trickle [OF p(2) assms(9) refl, of "J p" r] by (simp add: reported_def at_rest_def)
  then have run: "system_run J F ?x1 ?x2" by (rule system_more [OF system_refl])
  have "system_run J F x ?x2" by (rule system_more [OF system_more [OF system_refl reported_step] step])
  then have reach: "system_reachable J F ?x2"
    using system_reachable_run [OF assms(1)] assms(1) by (simp add: system_reachable_def reported_def)
  have x2: "sys_server ?x2 = sys_server x" "sys_clients ?x2 = (sys_clients x)(p := SendServer ?m ?c)"
    "sys_up ?x2 = sys_up x" "sys_rcvd ?x2 = sys_rcvd x" by (simp_all add: reported_def)
  have two: "served ?x2 p" "up_to_date ?x2 q" "at_rest (sys_clients ?x2 p)" "at_rest (sys_clients ?x2 q)"
    using p q assms(4) unfolding up_to_date_def served_def at_rest_def x2 by (simp_all add: SendServer_def)
  obtain y where y: "system_run J F ?x2 y" "system_reachable J F y" "same_seats ?x2 y" "sys_up y = sys_up ?x2"
    "sys_rcvd y p = sys_rcvd ?x2 p" "stream (sys_server y) p = stream (sys_server ?x2) p" "up_to_date y q"
    "sys_clients y = (sys_clients ?x2)(p := (sys_clients ?x2 p)\<lparr>cl_tx := []\<rparr>,
       q := (dispatch (J q) ?n ((sys_clients ?x2 q)\<lparr>cl_rx := FrameMessage ?n\<rparr>))\<lparr>cl_rx := []\<rparr>)"
    by (rule carry_signal [OF reach assms(4) two(1,2) _ _ two(3,4), of "trickle_kind r" "trickle_text r" ?n])
      (use assms p(3) in \<open>simp_all add: x2 idle_up_def SendServer_def\<close>)
  have cp: "sys_clients y p = ?c" using y(8) assms(4) p(3) by (simp add: x2 SendServer_def idle_up_def)
  have "cl_rx (sys_clients x q) = []" using q(2) by (simp add: at_rest_def)
  then have cq: "sys_clients y q = juice_log (trickle_call (link_agent l') r) (sys_clients x q)"
    using y(8) assms(4) trickle_dispatch [OF assms(10), of "J q" r "FrameMessage ?n"]
    by (simp add: x2 reported_def)
  have seats: "same_seats x y" using y(3) by (simp add: same_seats_def x2)
  have "calm y p"
    by (rule calm_sender [OF p(1) _ _ seats]) (use p cp y(4-6) [unfolded x2] in \<open>simp_all add: idle_up_def\<close>)
  moreover have "calm y q"
    using y(4) [unfolded x2] y(7) cq q(2,3) seats
    by (simp add: calm_def idle_up_def at_rest_def same_seats_def juice_log_def)
  ultimately show ?thesis using that [OF system_run_trans [OF y(1) run] y(2) seats] cp cq by blast
qed

end
