(* ===== verification/Exchange_Properties.thy ===== *)
theory Exchange_Properties
  imports Exchange
begin

text \<open>
  The properties of the handshake between two peers, descriptions first and then candidates, and a concrete system in which it
  takes place: the sample room with both clients up to date and at rest.
\<close>

text \<open>C13: Peers find each other. In any reachable state, when two members of a room are up to date with nothing under way
  and the first sends its first datagram to the second, there is a schedule after which each has a link to the
  other: the second's agent was given the description of the first's agent and the first's agent that of the second's,
  both relayed by the server, and the datagram waits in the link for the connection to come up.\<close>

theorem peers_exchange_descriptions:
  assumes "system_reachable J F x" and "calm x p" and "calm x q" and "p \<noteq> q"
    and "conn_room (srv_conns (sys_server x) p) = conn_room (srv_conns (sys_server x) q)"
    and "conn_room (srv_conns (sys_server x) p) \<noteq> []"
    and "i = conn_id (srv_conns (sys_server x) p)" and "j = conn_id (srv_conns (sys_server x) q)"
    and "willing (J p)" and "willing (J q)"
    and "FindLink j (sys_clients x p) = None" and "FindLink i (sys_clients x q) = None"
    and "attempts_at j (sys_clients x p) < max_connection_attempts"
    and "d \<noteq> []" and "length d \<le> max_p2p_message_size"
  shows "\<exists>y l l' t t'. system_run J F x y
     \<and> FindLink j (sys_clients y p) = Some l \<and> FindLink i (sys_clients y q) = Some l'
     \<and> link_remote_set l \<and> link_remote_set l' \<and> link_outbox l = [d]
     \<and> described (J p) (link_agent l) t \<and> described (J q) (link_agent l') t'
     \<and> juice_set_remote_description (link_agent l) t' \<in> set (cl_juice (sys_clients y p))
     \<and> juice_set_remote_description (link_agent l') t \<in> set (cl_juice (sys_clients y q))"
  by (rule descriptions_exchanged [OF assms]) blast

text \<open>C14: Candidates reach the peer. In any reachable state, when two members of a room have links to each other and nothing under way, and
  libjuice reports a candidate for the first's link, or the end of gathering, there is a schedule after which the second has made exactly one more call, which
  hands that candidate, or the end, to its agent of the link; both are then as before with nothing under way, so the next report follows the same way.\<close>

theorem candidates_reach_peer:
  assumes "system_reachable J F x" and "calm x p" and "calm x q" and "p \<noteq> q"
    and "conn_room (srv_conns (sys_server x) p) = conn_room (srv_conns (sys_server x) q)"
    and "conn_room (srv_conns (sys_server x) p) \<noteq> []"
    and "i = conn_id (srv_conns (sys_server x) p)" and "j = conn_id (srv_conns (sys_server x) q)"
    and "FindLink j (sys_clients x p) = Some l" and "FindLink i (sys_clients x q) = Some l'"
    and "length (trickle_text r) \<le> 4096"
  shows "\<exists>y. system_run J F (reported p j (link_agent l) r x) y \<and> calm y p \<and> calm y q
     \<and> sys_clients y p = sys_clients x p
     \<and> sys_clients y q = juice_log (trickle_call (link_agent l') r) (sys_clients x q)"
  by (rule trickle_carried [OF assms]) blast

section \<open>A concrete exchange\<close>

text \<open>An application's request of a client at rest leaves the clients as they were.\<close>

lemma rest_requests:
  assumes "system_reachable J F x" and "p \<in> srv_live (sys_server x)" and "at_rest (sys_clients x p)" and "idle_up x p"
    and "fits m" and "HandleMessage p m (sys_server x) = Some s'"
  obtains y where "system_reachable J F y" and "sys_server y = s'"
    and "sys_clients y = sys_clients x" and "sys_up y = sys_up x" and "sys_rcvd y = sys_rcvd x"
proof -
  let ?c = "SendServer m (sys_clients x p)"
  let ?x1 = "sys_client p ?c [] [] [m] x"
  have run: "system_run J F x ?x1" by (rule system_more [OF system_refl sys_request])
  have reach: "system_reachable J F ?x1"
    using system_reachable_run [OF assms(1) run] assms(1) by (simp add: system_reachable_def)
  have "?c\<lparr>cl_tx := []\<rparr> = sys_clients x p" using assms(4) by (simp add: SendServer_def idle_up_def)
  then have same: "(sys_clients ?x1)(p := (sys_clients ?x1 p)\<lparr>cl_tx := []\<rparr>) = sys_clients x" by (simp add: fun_upd_idem)
  obtain y where "system_reachable J F y" "sys_server y = s'"
    "sys_clients y = (sys_clients ?x1)(p := (sys_clients ?x1 p)\<lparr>cl_tx := []\<rparr>)" "sys_up y = sys_up ?x1" "sys_rcvd y = sys_rcvd ?x1"
    by (rule rest_sends [OF reach, of p m s'])
      (use assms in \<open>simp_all add: at_rest_def idle_up_def SendServer_def\<close>)
  then show ?thesis using that [of y] unfolding same by (simp add: fun_upd_idem)
qed

text \<open>Messages other than signals leave an empty mesh empty.\<close>

definition unlinked :: "Client \<Rightarrow> bool" where
  "unlinked c \<longleftrightarrow> mesh_links (cl_mesh c) = [] \<and> mesh_attempts (cl_mesh c) = []"

lemma dispatch_unlinked:
  assumes "\<not> signal m" and "unlinked c"
  shows "unlinked (dispatch J m c) \<and> cl_tx (dispatch J m c) = cl_tx c"
  using assms
  by (cases m) (auto simp: dispatch_def Let_def unlinked_def ClearRoomState_def DestroyAllLinks_def DestroyLink_def FindLink_def
      set_attempts_def set_links_def sm_erase_def split: option.split)

lemma dispatch_all_unlinked:
  assumes "\<forall>m \<in> set ms. \<not> signal m" and "unlinked c"
  shows "unlinked (dispatch_all J ms c) \<and> cl_tx (dispatch_all J ms c) = cl_tx c"
  using assms
proof (induction ms arbitrary: c)
  case (Cons m ms)
  have "unlinked (dispatch J m c) \<and> cl_tx (dispatch J m c) = cl_tx c" by (rule dispatch_unlinked) (use Cons.prems in simp_all)
  then show ?case using Cons.IH [of "dispatch J m c"] Cons.prems(1) by (simp add: dispatch_all_def)
qed (simp add: dispatch_all_def)

definition joined_messages :: "nat \<Rightarrow> ServerMessage list" where
  "joined_messages p = (if p = 0
     then [AssignClientId 1, IceServersMsg (cfg_ice sample_config), AssignRoomId ''ABCD'', HostChanged 1, PeerJoined 2]
     else [AssignClientId 2, IceServersMsg (cfg_ice sample_config), AssignRoomId ''ABCD'', PeerJoined 1, HostChanged 1,
       RoomAccessChanged True False])"

lemma hosted_stream:
  "stream sample_hosted 0 = map FrameMessage [AssignClientId 1, IceServersMsg (cfg_ice sample_config), AssignRoomId ''ABCD'', HostChanged 1]"
  "stream sample_hosted 1 = map FrameMessage [AssignClientId 2, IceServersMsg (cfg_ice sample_config)]"
  by (simp_all add: sample_hosted_def HandleCreateRoom_def Let_def two_facts new_connection_def
      sample_config_def sample_code stream_SendTo, simp_all add: stream_def two_facts new_connection_def sample_config_def)

lemma joined_stream_eq: "p < 2 \<Longrightarrow> stream sample_joined p = map FrameMessage (joined_messages p)"
  unfolding sample_joined_def HandleJoinRoom_admitted [OF sample_admitted] Let_def
  by (auto simp: less_2_cases_iff stream_SendAll stream_SendToMany copies_def hosted_facts hosted_stream [simplified]
      joined_messages_def hydration_def new_room_def)

lemma joined_messages_ok: "list_all fits (joined_messages p)" "\<forall>m \<in> set (joined_messages p). \<not> signal m"
  using config_ok_sample by (simp_all add: joined_messages_def config_ok_def)

text \<open>A new client of the sample room, before and after it has received what the server has for it.\<close>

definition unread :: "System \<Rightarrow> nat \<Rightarrow> bool" where
  "unread x p \<longleftrightarrow> served x p \<and> idle_up x p \<and> sys_rcvd x p = [] \<and> sys_clients x p = new_client\<lparr>cl_open := True\<rparr>
     \<and> stream (sys_server x) p = map FrameMessage (joined_messages p)"

lemma read_joined:
  assumes "system_reachable J F x" and "unread x p"
  obtains y where "system_reachable J F y" and "same_rooms x y" and "calm y p" and "unlinked (sys_clients y p)"
    and "\<And>q. q \<noteq> p \<Longrightarrow> unread x q \<Longrightarrow> unread y q" and "\<And>q. q \<noteq> p \<Longrightarrow> calm x q \<Longrightarrow> calm y q"
    and "\<And>q. q \<noteq> p \<Longrightarrow> sys_clients y q = sys_clients x q"
proof -
  let ?c = "new_client\<lparr>cl_open := True\<rparr>" and ?ms = "joined_messages p"
  let ?d = "dispatch_all (J p) ?ms (?c\<lparr>cl_rx := concat (map FrameMessage ?ms)\<rparr>)"
  have served: "served x p" and idle: "idle_up x p" and new: "sys_rcvd x p = []" "sys_clients x p = ?c"
    "stream (sys_server x) p = map FrameMessage ?ms"
    using assms(2) by (simp_all add: unread_def)
  have rest: "at_rest ?c" by (simp add: at_rest_def new_client_def empty_mesh_def)
  obtain y where y: "system_reachable J F y" "same_rooms x y" "sys_clients y = (sys_clients x)(p := ?d\<lparr>cl_rx := []\<rparr>)"
    "sys_up y = sys_up x" "sys_rcvd y = (sys_rcvd x)(p := concat (stream (sys_server x) p))"
    "\<forall>r. stream (sys_server y) r = stream (sys_server x) r
       \<and> conn_in (srv_conns (sys_server y) r) = conn_in (srv_conns (sys_server x) r)
       \<and> conn_body (srv_conns (sys_server y) r) = conn_body (srv_conns (sys_server x) r)
       \<and> conn_writing (srv_conns (sys_server y) r) = conn_writing (srv_conns (sys_server x) r)"
    by (rule rest_receives [OF assms(1) served _ joined_messages_ok(1) [of p]]) (use new rest in simp_all)
  have un: "unlinked ?d \<and> cl_tx ?d = []"
    using dispatch_all_unlinked [OF joined_messages_ok(2), of "?c\<lparr>cl_rx := concat (map FrameMessage ?ms)\<rparr>" "J p" p]
    by (simp add: unlinked_def new_client_def empty_mesh_def)
  have "at_rest (?d\<lparr>cl_rx := []\<rparr>)"
    using queues_dispatch_all [of "J p" ?ms] dispatch_all_frame(2,3) [of "J p" ?ms] rest
    by (simp add: at_rest_def queues_def)
  then have "calm y p"
    using y served idle un by (simp add: calm_def up_to_date_def served_def idle_up_def same_rooms_def at_rest_def)
  moreover have "unlinked (sys_clients y p)" using un y(3) by (simp add: unlinked_def)
  moreover have "calm x q \<Longrightarrow> calm y q" if "q \<noteq> p" for q
    using that y by (simp add: calm_def up_to_date_def served_def idle_up_def same_rooms_def)
  moreover have "unread x q \<Longrightarrow> unread y q" if "q \<noteq> p" for q
    using that y by (simp add: unread_def served_def idle_up_def same_rooms_def) (simp add: new_client_def)
  ultimately show ?thesis using that [OF y(1,2)] y(3) by simp
qed

lemma calm_system:
  obtains x where "system_reachable (\<lambda>_. sample_juice) {} x" and "calm x 0" and "calm x 1"
    and "unlinked (sys_clients x 0)" and "unlinked (sys_clients x 1)"
    and "conn_room (srv_conns (sys_server x) 0) = ''ABCD''" and "conn_room (srv_conns (sys_server x) 1) = ''ABCD''"
    and "conn_id (srv_conns (sys_server x) 0) = 1" and "conn_id (srv_conns (sys_server x) 1) = 2"
proof -
  let ?J = "\<lambda>_ :: nat. sample_juice" and ?c = "new_client\<lparr>cl_open := True\<rparr>"
  have start: "sys_clients sample_start = (\<lambda>_. ?c)" "sys_up sample_start = (\<lambda>_. [])" "sys_rcvd sample_start = (\<lambda>_. [])"
    by (simp_all add: sample_start_def system_start_def)
  have rest: "at_rest ?c" "cl_tx ?c = []" by (simp_all add: at_rest_def new_client_def empty_mesh_def)
  have bufs: "conn_in (srv_conns sample_two p) = [] \<and> conn_body (srv_conns sample_two p) = []
      \<and> conn_writing (srv_conns sample_two p)" if "p < 2" for p
    using that by (auto simp: less_2_cases_iff two_facts new_connection_def)
  obtain y where y: "system_reachable ?J {} y" "sys_server y = sample_hosted" "sys_clients y = (\<lambda>_. ?c)"
    "sys_up y = (\<lambda>_. [])" "sys_rcvd y = (\<lambda>_. [])"
    by (rule rest_requests [OF start_reachable, of 0 CreateRoom sample_hosted])
      (simp_all add: start start_facts two_facts create_two fits_CreateRoom rest)
  obtain z where z: "system_reachable ?J {} z" "sys_server z = sample_joined" "sys_clients z = (\<lambda>_. ?c)"
    "sys_up z = (\<lambda>_. [])" "sys_rcvd z = (\<lambda>_. [])"
    by (rule rest_requests [OF y(1), of 1 "JoinRoom ''ABCD'' []" sample_joined])
      (simp_all add: y hosted_facts rest sample_joined_def idle_up_def bufs [of 1, simplified])
  have "unread z p" if "p < 2" for p
    using that bufs [OF that] z rest joined_stream_eq [OF that]
    by (auto simp: unread_def served_def idle_up_def joined_facts less_2_cases_iff)
  then have "unread z 0" "unread z 1" by simp_all
  obtain u where u: "system_reachable ?J {} u" "same_rooms z u" "calm u 0" "unlinked (sys_clients u 0)" "unread u 1"
    by (rule read_joined [OF z(1) \<open>unread z 0\<close>]) (use \<open>unread z 1\<close> in simp)
  obtain x where "system_reachable ?J {} x" "same_rooms u x" "calm x 1" "unlinked (sys_clients x 1)" "calm x 0"
    "sys_clients x 0 = sys_clients u 0"
    by (rule read_joined [OF u(1,5)]) (use u in simp)
  then show ?thesis using that [of x] u z(2) by (simp add: same_rooms_def joined_facts)
qed

theorem peers_exchange_descriptions_witness:
  "\<exists>x y l l'. system_run (\<lambda>_. sample_juice) {} x y
     \<and> FindLink 2 (sys_clients y 0) = Some l \<and> FindLink 1 (sys_clients y 1) = Some l'
     \<and> link_remote_set l \<and> link_remote_set l' \<and> link_outbox l = [[42]]"
proof -
  obtain x where x: "system_reachable (\<lambda>_. sample_juice) {} x" "calm x 0" "calm x 1"
    "unlinked (sys_clients x 0)" "unlinked (sys_clients x 1)"
    "conn_room (srv_conns (sys_server x) 0) = ''ABCD''" "conn_room (srv_conns (sys_server x) 1) = ''ABCD''"
    "conn_id (srv_conns (sys_server x) 0) = 1" "conn_id (srv_conns (sys_server x) 1) = 2"
    by (rule calm_system)
  have "willing sample_juice" by (simp add: willing_def sample_juice_def)
  moreover have "FindLink 2 (sys_clients x 0) = None" "FindLink 1 (sys_clients x 1) = None"
    "attempts_at 2 (sys_clients x 0) < max_connection_attempts"
    using x(4,5) by (simp_all add: unlinked_def FindLink_def attempts_at_def)
  ultimately show ?thesis
    using peers_exchange_descriptions [OF x(1-3), of 1 2 "[42]"] x(6-9) by auto
qed

theorem candidates_reach_peer_witness:
  "\<exists>(x :: System) (y :: System) l'. FindLink 1 (sys_clients x 1) = Some l'
     \<and> last (cl_juice (sys_clients y 1)) = juice_add_remote_candidate (link_agent l') ''a=candidate:1''
     \<and> calm y 0 \<and> calm y 1"
proof -
  obtain x where x: "system_reachable (\<lambda>_. sample_juice) {} x" "calm x 0" "calm x 1"
    "unlinked (sys_clients x 0)" "unlinked (sys_clients x 1)"
    "conn_room (srv_conns (sys_server x) 0) = ''ABCD''" "conn_room (srv_conns (sys_server x) 1) = ''ABCD''"
    "conn_id (srv_conns (sys_server x) 0) = 1" "conn_id (srv_conns (sys_server x) 1) = 2"
    by (rule calm_system)
  have fresh: "willing sample_juice" "FindLink 2 (sys_clients x 0) = None" "FindLink 1 (sys_clients x 1) = None"
    "attempts_at 2 (sys_clients x 0) < max_connection_attempts"
    using x(4,5) by (simp_all add: willing_def sample_juice_def unlinked_def FindLink_def attempts_at_def)
  obtain y l l' where y: "system_reachable (\<lambda>_. sample_juice) {} y" "same_seats x y" "calm y 0" "calm y 1"
    "FindLink 2 (sys_clients y 0) = Some l" "FindLink 1 (sys_clients y 1) = Some l'"
    by (rule descriptions_exchanged [OF x(1-3), of 1 2 "[42]"]) (use x fresh in simp_all)
  have seats: "0 \<noteq> (1 :: nat)" "conn_room (srv_conns (sys_server y) 0) = conn_room (srv_conns (sys_server y) 1)"
    "conn_room (srv_conns (sys_server y) 0) \<noteq> []" "1 = conn_id (srv_conns (sys_server y) 0)"
    "2 = conn_id (srv_conns (sys_server y) 1)" using x(6-9) y(2) by (simp_all add: same_seats_def)
  have "length (trickle_text (Some ''a=candidate:1'')) \<le> 4096" by (simp add: trickle_text_def c_str_def)
  from candidates_reach_peer [OF y(1,3,4) seats y(5,6) this] obtain z where "calm z 0" "calm z 1"
    "sys_clients z 1 = juice_log (trickle_call (link_agent l') (Some ''a=candidate:1'')) (sys_clients y 1)" by blast
  then show ?thesis using y(6) by (intro exI [of _ y] exI [of _ z] exI [of _ l']) (simp add: trickle_call_def c_str_def juice_log_def)
qed

end
