(* ===== verification/Wire_Properties.thy ===== *)
theory Wire_Properties
  imports Framing
begin

text \<open>
  The properties of the wire format: serializer, output buffer, fragmentation
  and reassembly.
\<close>

text \<open>C5: Decoding is exact. A byte string decodes to a message, leaving some bytes over, if and only if
  the message's strings and lists have sizes the format can carry and the byte string is the message's
  encoding followed by those bytes; so messages survive the round trip and the decoder accepts nothing
  but encodings.\<close>

theorem decode_exact:
  "in_ServerMessage bs = Inr (m, rest) \<longleftrightarrow> wf_message m \<and> bs = message_bytes m @ rest"
  by (rule in_ServerMessage_iff)

text \<open>Encodings are prefix-free: when two encodable messages, each followed by arbitrary bytes, give the
  same byte string, they are the same message with the same bytes after it.\<close>

lemma encoding_prefix_free:
  assumes "wf_message m" and "wf_message n" and "message_bytes m @ r = message_bytes n @ s"
  shows "m = n \<and> r = s"
  using wmsg.prefix_free [of m n r s] assms by (simp add: message_bytes_def)

text \<open>C37: The growing output buffer. The archive starts with an empty vector, grows it by half when a write
  does not fit and trims it at the end; for every encodable message below 2 to the 61 bytes no overflow check
  fires and the vector ends up with exactly the message's bytes.\<close>

theorem output_buffer_exact:
  assumes "length (message_bytes m) < 2 ^ 61"
  shows "zpp_out (out_ServerMessage m) = Inr (message_bytes m)"
  using zpp_out_concat [of "out_ServerMessage m"] assms by (simp add: message_bytes_def)

theorem output_buffer_exact_witness:
  "zpp_out (out_ServerMessage (RoomError NotHost ''x'')) = Inr [5, 3, 1, 0, 0, 0, 0x78]"
  using output_buffer_exact [of "RoomError NotHost ''x''"]
  by (simp add: message_bytes_def out_ServerMessage_def out_u8_def out_string_def out_u32_def
      byte_of_char_def of_char_def le_put_numeral)

text \<open>C6: Framing round trip. For every message within the reassembly cap, reassembling the frames that
  \<open>FrameMessage\<close> makes of it yields its encoding, whatever follows on the stream stays untouched, and
  decoding yields the message.\<close>

theorem frame_roundtrip:
  assumes "fits m"
  shows "unframe [] (FrameMessage m @ rest) = Some (message_bytes m, rest)
     \<and> in_ServerMessage (message_bytes m) = Inr (m, [])"
  using assms unframe_FrameMessage message_bytes_decode by (simp add: fits_def)

theorem frame_roundtrip_witness:
  "fits (JoinRoom ''ROOM'' (replicate 3000 CHR ''p''))
   \<and> unframe [] (FrameMessage (JoinRoom ''ROOM'' (replicate 3000 CHR ''p'')) @ [9])
      = Some (message_bytes (JoinRoom ''ROOM'' (replicate 3000 CHR ''p'')), [9])"
proof -
  have "fits (JoinRoom ''ROOM'' (replicate 3000 CHR ''p''))"
    by (simp add: fits_def length_message_bytes wire)
  then show ?thesis using frame_roundtrip [of "JoinRoom ''ROOM'' (replicate 3000 CHR ''p'')" "[9]"] by simp
qed

text \<open>Fragments respect the frame size. Every frame of a framed message has a header that decodes to a
  length of at most \<open>max_message_size\<close>, and a message that fits one frame is its four-byte little-endian
  length, with the top bit clear, followed by its encoding.\<close>

lemma single_frame_layout:
  assumes "length (message_bytes m) \<le> max_message_size"
  shows "FrameMessage m = le_put 4 (length (message_bytes m)) @ message_bytes m
     \<and> DecodeFrameHeader (take 4 (FrameMessage m)) = Some (length (message_bytes m), False)"
proof -
  let ?n = "length (message_bytes m)"
  have frame: "FrameMessage m = frame_header ?n False @ message_bytes m"
    using assms by (simp add: FrameMessage_def frame_loop.simps [of _ 0])
  have "unat (of_nat ?n :: u32) = ?n" using assms by (simp add: unat_of_nat)
  then have "frame_header ?n False = le_put 4 ?n" by (simp add: frame_header_def out_u32_def)
  then show ?thesis using frame DecodeFrameHeader_frame_header [of ?n False] assms by simp
qed

text \<open>Metadata fits one frame. A key and a value within the limits the server enforces make a
  \<open>RoomDataChanged\<close> or \<open>MemberDataChanged\<close> message of at most \<open>max_message_size\<close> bytes, as the comment on
  the limits promises.\<close>

lemma metadata_fits_one_frame:
  assumes "length key \<le> max_room_data_key" and "length val \<le> max_room_data_value"
  shows "length (message_bytes (RoomDataChanged key val)) \<le> max_message_size
     \<and> length (message_bytes (MemberDataChanged i key val)) \<le> max_message_size"
  using assms by (simp add: length_message_bytes wire)

text \<open>Header and reassembly caps. An accepted header announces at most \<open>max_message_size\<close> bytes, and
  reassembly never holds more than \<open>max_reassembled_size\<close> bytes.\<close>

lemma reassembly_bounded:
  assumes "unframe body stream' = Some (msg, rest)"
  shows "length msg \<le> max_reassembled_size \<and> length msg \<le> length body + length stream'"
  using assms
proof (induction body stream' rule: unframe.induct)
  case (1 body stream')
  note front = "1.prems" [unfolded unframe.simps [of body stream']]
  show ?case
    using front "1.IH" by (fastforce simp: AppendFragment_def split: if_splits option.splits)
qed

text \<open>Only \<open>SetRoomJoinable\<close> and \<open>RoomAccessChanged\<close> can carry an indeterminate \<open>bool\<close>. The decoder
  never yields one from a message with another index, but does so from either of these two.\<close>

lemma undefined_bool_sources:
  "in_ServerMessage bs = Inl (Undefined_bool b) \<Longrightarrow> hd bs \<in> {17, 20}"
proof (cases bs)
  case Nil
  then show "in_ServerMessage bs = Inl (Undefined_bool b) \<Longrightarrow> hd bs \<in> {17, 20}"
    by (simp add: in_ServerMessage_def in_u8_def rbind_def in_fundamental_def)
next
  case (Cons v rest)
  assume bad: "in_ServerMessage bs = Inl (Undefined_bool b)"
  have "in_u8 bs = Inr (v, rest)" using u8.dec_enc [OF TrueI, of v rest] by (simp add: Cons out_u8_def)
  then have alt: "in_alternative v rest = Inl (Undefined_bool b)"
    using bad by (simp add: in_ServerMessage_def rbind_def)
  then have "unat v < 25" and "\<not> bool_safe (loaders ! unat v)"
    by (auto simp: in_alternative_def bool_safe_def split: if_splits)
  then have "unat v = 17 \<or> unat v = 20" using bool_safe_loaders by blast
  then have "v = 17 \<or> v = 20" by (auto simp: word_unat_eq_iff)
  then show "hd bs \<in> {17, 20}" by (auto simp: Cons)
qed

end
