(* ===== verification/Server_Properties.thy ===== *)
theory Server_Properties
  imports Sample
begin

text \<open>
  The properties of the server: integrity of its tables along every run, the
  promises of each room operation, and delivery of requests and replies.
\<close>

text \<open>C2: The server's tables stay consistent. In every state that any interleaving of accepts, reads of
  arbitrary client bytes, writes and disconnects can reach before the ids run out, every room is non-empty,
  duplicate-free, hosted by a member and within its limits, member data belongs to members, the id table
  holds exactly the live connections, and a connection names a room exactly when that room lists it.\<close>

theorem reachable_tables_consistent:
  assumes "config_ok cfg" and "server_run (fst (Server_Init cfg a b c d (new_server rng cfg'))) s"
    and "ids_left s"
  shows "server_inv s"
  using server_run_inv [OF assms(2,3) server_inv_Init codes_ok_Init [OF assms(1)]] by simp

theorem reachable_tables_consistent_witness:
  "server_run sample_boot sample_joined \<and> room_members (the (srv_rooms sample_joined ''ABCD'')) = [1, 2]
   \<and> server_inv sample_joined"
  using reachable_tables_consistent [OF config_ok_sample run_joined [unfolded sample_boot_def] joined_ids]
    run_joined by (simp add: joined_facts sample_room_def)

text \<open>C3: The server keeps every client's view current. In every reachable state, what has been written
  to a client, is being written or is queued for it is a sequence of complete frames of messages within the
  cap, all of them of the server's direction and with error codes the protocol names, and replaying these messages gives exactly the room the server has the client in: code, host,
  joinability, password flag, members, room data and member data; or the empty view outside a room.\<close>

theorem reachable_views_current:
  assumes "config_ok cfg" and "server_run (fst (Server_Init cfg a b c d (new_server rng cfg'))) s"
    and "ids_left s" and "p \<in> srv_live s" and "conn_writing (srv_conns s p)"
  shows "\<exists>ms. stream s p = map FrameMessage ms \<and> list_all sendable ms
     \<and> observe_all ms (lobby_view 0) = expected_view s p"
  using server_run_coherent [OF assms(2,3) server_inv_Init codes_ok_Init [OF assms(1)]
      config_ok_Init [OF assms(1)] coherent_Init] assms(4,5)
  by (simp add: coherent_def coherent_conn_def)

theorem reachable_views_current_witness:
  "\<exists>ms. stream sample_joined 1 = map FrameMessage ms \<and> list_all sendable ms
     \<and> observe_all ms (lobby_view 0) = room_view 2 sample_room"
  using reachable_views_current [OF config_ok_sample run_joined [unfolded sample_boot_def] joined_ids, of 1]
  by (simp add: joined_facts two_facts new_connection_def expected_view_def)

text \<open>C8: Admission. A client outside every room becomes a member of the room it asks for exactly when the
  room exists, has not banned it, is open, and has no password or the password given; a refused request
  changes no room, and no membership of the client.\<close>

theorem join_admission:
  assumes "server_inv s" and "p \<in> srv_live s" and "conn_room (srv_conns s p) = []"
  shows "((\<exists>r'. srv_rooms (HandleJoinRoom p k w s) k = Some r' \<and> conn_id (srv_conns s p) \<in> set (room_members r'))
      \<longleftrightarrow> (\<exists>r. srv_rooms s k = Some r \<and> conn_id (srv_conns s p) \<notin> set (room_banned_members r)
           \<and> room_open r \<and> (room_password r = [] \<or> w = room_password r)))
     \<and> ((\<nexists>r. admitted s p k w r) \<longrightarrow> srv_rooms (HandleJoinRoom p k w s) = srv_rooms s
           \<and> conn_room (srv_conns (HandleJoinRoom p k w s) p) = [])"
proof (cases "\<exists>r. admitted s p k w r")
  case True
  then obtain r where r: "admitted s p k w r" by blast
  then show ?thesis
    using HandleJoinRoom_rooms [OF r] by (auto simp: admitted_def)
next
  case False
  have out: "\<not> (srv_rooms s k = Some r \<and> conn_id (srv_conns s p) \<in> set (room_members r))" for r
    using inv_member_iff [OF assms(1) _ assms(2), of k r] inv_room_ok [OF assms(1), of k r] assms(3) by auto
  from HandleJoinRoom_refused [OF False] show ?thesis
    using False out assms(3) by (auto simp: admitted_def)
qed

theorem join_admission_witness:
  "\<exists>r'. srv_rooms (HandleJoinRoom 1 ''ABCD'' ''any'' sample_hosted) ''ABCD'' = Some r' \<and> 2 \<in> set (room_members r')"
  using join_admission [OF hosted_ok(1), of 1 "''ABCD''" "''any''"]
  by (simp add: hosted_facts new_room_def)

text \<open>C9: Bans hold. In every reachable state no room counts a client among its members that it has
  banned, and from one state to the next a room that lives on never forgets a ban.\<close>

theorem bans_hold:
  assumes "config_ok cfg" and "server_run (fst (Server_Init cfg a b c d (new_server rng cfg'))) s"
    and "ids_left s"
  shows "(\<forall>k r. srv_rooms s k = Some r \<longrightarrow> set (room_banned_members r) \<inter> set (room_members r) = {})
    \<and> (\<forall>s' k r r'. server_step s s' \<longrightarrow> srv_rooms s k = Some r \<longrightarrow> srv_rooms s' k = Some r' \<longrightarrow>
         set (room_banned_members r) \<subseteq> set (room_banned_members r'))"
  using bans.reachable [OF assms] server_step_bans_grow [of s] by (simp add: barred_def)

theorem bans_hold_witness:
  "\<exists>r. srv_rooms sample_banned ''ABCD'' = Some r \<and> room_banned_members r = [2]
     \<and> set (room_banned_members r) \<inter> set (room_members r) = {}"
  using bans_hold [OF config_ok_sample run_banned [unfolded sample_boot_def] banned_ids]
  by (simp add: banned_rooms)


text \<open>C18: Host-only actions. Setting room data, kicking, banning, transferring the host role, opening or closing
  the room and setting its password, asked for by a client that is not the host of its room, have one effect:
  the client is sent \<open>NotInRoom\<close> or \<open>NotHost\<close>.\<close>

theorem host_only_actions:
  assumes "m \<in> {SetRoomData k v, KickMember i, BanMember i, TransferHost i, SetRoomJoinable b, SetRoomPassword w}"
    and "\<forall>r. srv_rooms s (conn_room (srv_conns s p)) = Some r \<longrightarrow> room_host r \<noteq> conn_id (srv_conns s p)"
  shows "HandleMessage p m s = Some (SendTo (conn_id (srv_conns s p))
     (RoomError (if srv_rooms s (conn_room (srv_conns s p)) = None then NotInRoom else NotHost) []) s)"
proof -
  have "HostRoom p s = (SendTo (conn_id (srv_conns s p))
     (RoomError (if srv_rooms s (conn_room (srv_conns s p)) = None then NotInRoom else NotHost) []) s, None)"
    using assms(2) by (auto simp: HostRoom_def Let_def split: option.splits)
  then show ?thesis
    using assms(1)
    by (auto simp: HandleSetRoomData_def HandleKickMember_def HandleBanMember_def HandleTransferHost_def
        HandleSetRoomJoinable_def HandleSetRoomPassword_def Let_def)
qed

theorem host_only_actions_witness:
  "HandleMessage 1 (KickMember 1) sample_joined = Some (SendTo 2 (RoomError NotHost []) sample_joined)"
  using host_only_actions [of "KickMember 1" "[]" "[]" 1 False "[]" sample_joined 1]
  by (simp add: joined_facts sample_room_def new_room_def)

text \<open>C25: A disconnect leaves no trace. When a session ends, the client's id leaves the id table, every member
  list and every member-data map, and no room is hosted by it any more.\<close>

theorem disconnect_forgets_client:
  assumes "server_inv s" and "p \<in> srv_live s" and "i = conn_id (srv_conns s p)" and "s' = Session_end p s"
  shows "p \<notin> srv_live s' \<and> srv_connections s' i = None
     \<and> (\<forall>k r. srv_rooms s' k = Some r \<longrightarrow>
          i \<notin> set (room_members r) \<and> room_host r \<noteq> i \<and> sm_find (room_member_data r) i = None)"
proof -
  have inv: "server_inv s'" using Session_end_inv [OF assms(1,2)] assms(4) by simp
  have gone: "p \<notin> srv_live s'" "srv_connections s' i = None"
    using assms(3,4) by (simp_all add: Session_end_def Let_def LeaveRoom_frame)
  have "i \<notin> set (room_members r) \<and> room_host r \<noteq> i \<and> sm_find (room_member_data r) i = None"
    if r: "srv_rooms s' k = Some r" for k r
  proof -
    have out: "i \<notin> set (room_members r)" using inv_member_connected [OF inv r, of i] gone(2) by auto
    have "room_host r \<in> set (room_members r)" "fst ` set (room_member_data r) \<subseteq> set (room_members r)"
      using inv_room_ok [OF inv r] by (auto simp: room_ok_def)
    then show ?thesis using out by (auto simp: sm_find_None)
  qed
  then show ?thesis using gone by blast
qed

theorem disconnect_forgets_client_witness:
  "srv_connections (Session_end 0 sample_joined) 1 = None \<and> 0 \<notin> srv_live (Session_end 0 sample_joined)"
  using disconnect_forgets_client [OF joined_ok(1), of 0 1] by (simp add: joined_facts)

text \<open>C23: Departures. When a client leaves its room, the room closes if nobody remains; otherwise the others keep their
  order, the host stays or, when it was the host who left, the oldest remaining member takes over, the data of the departed is dropped, and each remaining member is
  sent the departure and then the new host, if there is one. Other rooms are untouched.\<close>

theorem departure_effect:
  assumes "server_inv s" and "p \<in> srv_live s" and "conn_room (srv_conns s p) = k" and "srv_rooms s k = Some r"
    and "i = conn_id (srv_conns s p)" and "rest = filter (\<lambda>j. j \<noteq> i) (room_members r)"
  shows "\<exists>r'. srv_rooms (Server_LeaveRoom p s) = (srv_rooms s)(k := if rest = [] then None else Some r')
     \<and> room_members r' = rest \<and> room_host r' = (if room_host r = i then hd rest else room_host r)
     \<and> sm_find (room_member_data r') i = None
     \<and> (\<forall>q \<in> srv_live s. conn_id (srv_conns s q) \<in> set rest \<longrightarrow>
          stream (Server_LeaveRoom p s) q = stream s q @ map FrameMessage
            (PeerLeft i # (if room_host r = i then [HostChanged (hd rest)] else [])))"
proof -
  have k: "k \<noteq> []" and ok: "room_ok k r" using inv_room_ok [OF assms(1,4)] by auto
  have empty: "set (room_members r) \<subseteq> {i} \<longleftrightarrow> rest = []" using assms(6) filter_neq_Nil [of i "room_members r"] by auto
  have "stream (Server_LeaveRoom p s) q = stream s q @ map FrameMessage
      (PeerLeft i # (if room_host r = i then [HostChanged (hd rest)] else []))"
    if q: "q \<in> srv_live s" "conn_id (srv_conns s q) \<in> set rest" for q
  proof -
    have "distinct rest" using ok assms(6) by (simp add: room_ok_def)
    then have one: "copies (set_room k x s) q rest m = [m]" for x m
      using copies_inv [OF assms(1) q(1), of rest m] q(2) by (simp add: copies_def)
    have notices: "leave_notices i r = PeerLeft i # (if room_host r = i then [HostChanged (hd rest)] else [])"
      using assms(6) by (simp add: leave_notices_def without_member_def Let_def)
    have "rest \<noteq> []" using q(2) by auto
    then have "stream (Server_LeaveRoom p s) q = stream s q
        @ map FrameMessage (concat (map (copies (set_room k (remaining_room i r) s) q rest) (leave_notices i r)))"
      using empty assms(6) by (simp add: LeaveRoom_eq [OF assms(3) k assms(4,5)] stream_foldl)
    then show ?thesis by (simp add: notices one)
  qed
  moreover have "srv_rooms (Server_LeaveRoom p s) = (srv_rooms s)(k := if rest = [] then None else Some (without_member i r))"
    using LeaveRoom_srv_rooms [OF assms(3) k assms(4,5)] empty by (simp add: remaining_room_def)
  moreover have "room_members (without_member i r) = rest" "sm_find (room_member_data (without_member i r)) i = None"
    "room_host (without_member i r) = (if room_host r = i then hd rest else room_host r)"
    using assms(6) ok by (simp_all add: without_member_def Let_def sm.find_erase room_ok_def)
  ultimately show ?thesis by blast
qed

theorem departure_effect_witness:
  "\<exists>r'. srv_rooms (Server_LeaveRoom 0 sample_joined) = (srv_rooms sample_joined)(''ABCD'' \<mapsto> r')
     \<and> room_members r' = [2] \<and> room_host r' = 2"
proof -
  have room: "room_host sample_room = 1" "room_members sample_room = [1, 2]"
    by (simp_all add: sample_room_def new_room_def)
  show ?thesis
    using departure_effect [OF joined_ok(1), of 0 "''ABCD''" sample_room 1 "[2]"]
    by (auto simp: joined_facts room)
qed

text \<open>C26: Chat reaches exactly the room. A chat message is queued once, with the sender's own id whatever id the
  client claimed, for each member of the sender's room including the sender, and for nobody else.\<close>

theorem chat_reaches_room:
  assumes "server_inv s" and "p \<in> srv_live s" and "q \<in> srv_live s" and "conn_room (srv_conns s p) \<noteq> []"
  shows "\<exists>s'. HandleMessage p (RoomChat claimed t) s = Some s'
     \<and> stream s' q = stream s q @ (if conn_room (srv_conns s q) = conn_room (srv_conns s p)
         then [FrameMessage (RoomChat (conn_id (srv_conns s p)) t)] else [])"
proof -
  obtain r where r: "srv_rooms s (conn_room (srv_conns s p)) = Some r"
    using inv_room_exists [OF assms(1,2,4)] by blast
  have "distinct (room_members r)" using inv_room_ok [OF assms(1) r] by (simp add: room_ok_def)
  from copies_inv [OF assms(1,3) this] inv_member_iff [OF assms(1) r assms(3)] show ?thesis
    by (simp add: HandleRoomChat_def r stream_SendToMany)
qed

theorem chat_reaches_room_witness:
  "\<exists>s'. HandleMessage 1 (RoomChat 99 ''hi'') sample_joined = Some s'
     \<and> stream s' 0 = stream sample_joined 0 @ [FrameMessage (RoomChat 2 ''hi'')]"
  using chat_reaches_room [OF joined_ok(1), of 1 0 99 "''hi''"] by (simp add: joined_facts)

text \<open>C27: Signalling is relayed within the room only. A signal reaches its target, carrying the sender's id and
  the payload unchanged, exactly when the target is another member of the sender's room; nothing else about
  the server changes and nobody else is sent anything.\<close>

theorem signal_relay:
  assumes "server_inv s" and "p \<in> srv_live s" and "q \<in> srv_live s"
  shows "\<exists>s'. HandleMessage p (P2PSignal target kind payload) s = Some s' \<and> srv_rooms s' = srv_rooms s
     \<and> stream s' q = stream s q
         @ (if q \<noteq> p \<and> conn_id (srv_conns s q) = target \<and> conn_room (srv_conns s p) \<noteq> []
              \<and> conn_room (srv_conns s q) = conn_room (srv_conns s p)
            then [FrameMessage (P2PSignal (conn_id (srv_conns s p)) kind payload)] else [])"
proof (cases "conn_room (srv_conns s p) = []")
  case True
  then show ?thesis
    using inv_no_empty_room [OF assms(1)] by (simp add: Server_HandleP2PSignal_def Let_def)
next
  case False
  obtain r where r: "srv_rooms s (conn_room (srv_conns s p)) = Some r"
    using inv_room_exists [OF assms(1,2) False] by blast
  show ?thesis
  proof (cases "target = conn_id (srv_conns s q)")
    case True
    then show ?thesis
      using False inv_id_inject [OF assms(1,3,2)] inv_member_iff [OF assms(1) r assms(3)]
        inv_registered [OF assms(1,3)]
      by (simp add: Server_HandleP2PSignal_def Let_def r stream_SendTo)
  next
    case other: False
    then show ?thesis
      using registered_iff [OF assms(1,3), of target]
      by (auto simp: Server_HandleP2PSignal_def Let_def r stream_SendTo)
  qed
qed

theorem signal_relay_witness:
  "\<exists>s'. HandleMessage 0 (P2PSignal 2 Candidate ''c'') sample_joined = Some s'
     \<and> stream s' 1 = stream sample_joined 1 @ [FrameMessage (P2PSignal 1 Candidate ''c'')]"
  using signal_relay [OF joined_ok(1), of 0 1 2 Candidate "''c''"] by (simp add: joined_facts)

end
