(* ===== verification/Operation_Properties.thy ===== *)
theory Operation_Properties
  imports Sample
begin

text \<open>
  The properties of the server's single operations: metadata, room creation, ids, kicks,
  passwords, and the delivery of requests and replies.
\<close>

text \<open>C19: Room data behaves as a bounded map. A pair the host sets is refused without a change exactly when
  it is malformed or would be one key too many; otherwise the key maps to the value, or to nothing for an
  empty value, every other key is as before, and every member is told exactly when the map changed.\<close>

theorem room_data_semantics:
  assumes "server_inv s" and "p \<in> srv_live s" and "srv_rooms s k = Some r" and "conn_room (srv_conns s p) = k"
    and "room_host r = conn_id (srv_conns s p)"
    and "refused = (bad_pair key val \<or> val \<noteq> [] \<and> sm_find (room_data r) key = None
        \<and> sm_size (room_data r) \<ge> max_room_data_keys)"
  shows "\<exists>s' r'. HandleMessage p (SetRoomData key val) s = Some s' \<and> srv_rooms s' k = Some r'
     \<and> sm_find (room_data r') = (if refused then sm_find (room_data r)
          else (sm_find (room_data r))(key := (if val = [] then None else Some val)))
     \<and> (refused \<longrightarrow> s' = SendTo (conn_id (srv_conns s p)) (RoomError BadRoomData key) s)
     \<and> (\<not> refused \<longrightarrow> (if sm_find (room_data r') = sm_find (room_data r) then s' = s
          else s' = SendToMany (room_members r) (RoomDataChanged key val) (set_room k (Some r') s)))"
proof -
  have wf: "sm_wf (room_data r)" "sm_size (room_data r) \<le> max_room_data_keys"
    using inv_room_ok [OF assms(1,3)] by (auto simp: room_ok_def)
  have host: "HostRoom p s = (s, Some r)" using assms(3-5) by (simp add: HostRoom_def)
  note parts = HandleSetRoomData_def Let_def host assms(3-6) put_limited_def sm.size_put [OF wf(1)]
    sm.find_put [OF wf(1)] sm.find_erase
  show ?thesis
  proof (cases "refused \<or> sm_find (room_data r) key = (if val = [] then None else Some val)")
    case True
    then have "HandleSetRoomData p key val s =
        (if refused then SendTo (conn_id (srv_conns s p)) (RoomError BadRoomData key) s else s)"
      using wf by (auto simp: parts split: option.splits)
    moreover have "\<not> refused \<Longrightarrow>
        (sm_find (room_data r))(key := (if val = [] then None else Some val)) = sm_find (room_data r)"
      using True by (auto simp: fun_upd_idem)
    ultimately show ?thesis using assms(3) by auto
  next
    case False
    let ?d = "if val = [] then sm_erase key (room_data r) else sm_put key val (room_data r)"
    have "HandleSetRoomData p key val s =
        SendToMany (room_members r) (RoomDataChanged key val) (set_room k (Some (r\<lparr>room_data := ?d\<rparr>)) s)"
      using False wf by (auto simp: parts split: option.splits)
    moreover have "sm_find ?d = (sm_find (room_data r))(key := (if val = [] then None else Some val))"
      by (simp add: parts)
    moreover have "sm_find ?d \<noteq> sm_find (room_data r)"
      using False calculation(2) by (metis fun_upd_same)
    ultimately show ?thesis using False by (auto intro!: exI [of _ "r\<lparr>room_data := ?d\<rparr>"])
  qed
qed

theorem room_data_semantics_witness:
  "\<exists>s' r'. HandleMessage 0 (SetRoomData ''map'' ''desert'') sample_joined = Some s'
     \<and> srv_rooms s' ''ABCD'' = Some r' \<and> sm_find (room_data r') ''map'' = Some ''desert''"
proof -
  have room: "sm_find (room_data sample_room) = Map.empty" "sm_size (room_data sample_room) = 0"
    "room_host sample_room = conn_id (srv_conns sample_joined 0)"
    by (simp_all add: joined_facts) (simp_all add: sample_room_def new_room_def sm_size_def fun_eq_iff)
  have "\<not> bad_pair ''map'' ''desert''" by (simp add: bad_pair_def)
  with room_data_semantics [OF joined_ok(1) _ _ _ room(3), of "''ABCD''" False "''map''" "''desert''"] room
  show ?thesis by (auto simp: joined_facts)
qed

text \<open>What room creation does when it returns: the client gets a code of the configured length
  over the alphabet without look-alikes that no room uses, and becomes the only member and host of a fresh
  open room under that code.\<close>

lemma created_room:
  assumes "server_inv s" and "p \<in> srv_live s" and "conn_room (srv_conns s p) = []"
    and "HandleMessage p CreateRoom s = Some s'"
  shows "\<exists>k. srv_rooms s k = None \<and> srv_rooms s' = (srv_rooms s)(k \<mapsto> new_room k (conn_id (srv_conns s p)))
     \<and> conn_room (srv_conns s' p) = k \<and> length k = unat (cfg_room_code_length (srv_config s))
     \<and> set k \<subseteq> set alphabet \<and> k \<noteq> []"
proof -
  obtain k rng where fresh:
    "fresh_code (srv_rooms s) (unat (cfg_room_code_length (srv_config s))) (srv_rng s) = Some (k, rng)"
    and s': "s' = SendTo (conn_id (srv_conns s p)) (HostChanged (conn_id (srv_conns s p)))
      (SendTo (conn_id (srv_conns s p)) (AssignRoomId k)
        (set_conn_room p k (set_room k (Some (new_room k (conn_id (srv_conns s p)))) (s\<lparr>srv_rng := rng\<rparr>))))"
    using assms(3,4) by (auto simp: HandleCreateRoom_def Let_def split: option.splits)
  have k: "srv_rooms s k = None" "length k = unat (cfg_room_code_length (srv_config s))" "set k \<subseteq> set alphabet"
    using fresh_code_new [OF fresh] fresh_code_alphabet [OF fresh] by auto
  moreover have "k \<noteq> []" using k(2) assms(1) by (auto simp: server_inv_def unat_eq_0)
  ultimately show ?thesis using s' by auto
qed

text \<open>C28: Room creation. When a client outside every room asks for one and the random engine at some point yields a block of outputs that
  spells an unused code, however many collisions come first, the handler returns: the client is the only member and the host of a
  fresh open room under a code of the configured length, over the alphabet without look-alikes, that no room had.\<close>

theorem create_room_terminates:
  assumes "server_inv s" and "p \<in> srv_live s" and "conn_room (srv_conns s p) = []"
    and "srv_rooms s (fst (MakeRoomCode len (\<lambda>i. srv_rng s (i + n * len)))) = None"
    and "len = unat (cfg_room_code_length (srv_config s))"
  shows "\<exists>s' k. HandleMessage p CreateRoom s = Some s' \<and> srv_rooms s k = None
     \<and> srv_rooms s' = (srv_rooms s)(k \<mapsto> new_room k (conn_id (srv_conns s p)))
     \<and> conn_room (srv_conns s' p) = k \<and> length k = len \<and> set k \<subseteq> set alphabet \<and> k \<noteq> []"
proof -
  obtain code rng where "fresh_code (srv_rooms s) len (srv_rng s) = Some (code, rng)"
    using fresh_code_terminates [of "srv_rooms s" len "srv_rng s" n] assms(4) by auto
  then obtain s' where "HandleMessage p CreateRoom s = Some s'"
    using assms(3,5) by (auto simp: HandleCreateRoom_def Let_def)
  then show ?thesis using created_room [OF assms(1-3)] assms(5) by blast
qed

theorem create_room_terminates_witness:
  "\<exists>s' k. HandleMessage 1 CreateRoom sample_two = Some s' \<and> srv_rooms s' = (srv_rooms sample_two)(k \<mapsto> new_room k 2)
     \<and> length k = 4"
proof -
  have "1 \<in> srv_live sample_two" "conn_room (srv_conns sample_two 1) = []" "conn_id (srv_conns sample_two 1) = 2"
    "srv_rooms sample_two (fst (MakeRoomCode 4 (\<lambda>i. srv_rng sample_two (i + 0 * 4)))) = None"
    "4 = unat (cfg_room_code_length (srv_config sample_two))"
    by (simp_all add: two_facts sample_config_def new_connection_def)
  with create_room_terminates [OF two_ok(1) this(1,2,4,5)] show ?thesis by metis
qed

text \<open>Ids identify clients. In every state reachable before the 32-bit counter wraps, no connection has the
  reserved id 0 and two different connections, live or gone, never had the same id.\<close>

lemma ids_unique_and_nonzero:
  assumes "config_ok cfg" and "server_run (fst (Server_Init cfg a b c d (new_server rng cfg'))) s"
    and "ids_left s" and "p < srv_alloc s" and "q < srv_alloc s"
  shows "conn_id (srv_conns s p) \<noteq> 0 \<and> (conn_id (srv_conns s p) = conn_id (srv_conns s q) \<longrightarrow> p = q)"
proof -
  have "server_inv s"
    using server_run_inv [OF assms(2,3) server_inv_Init codes_ok_Init [OF assms(1)]] by simp
  then have ids: "conn_id (srv_conns s n) = of_nat (Suc n)" if "n < srv_alloc s" for n
    using that by (simp add: server_inv_def ids_ok_def)
  have less: "p < 2 ^ 32" "q < 2 ^ 32" "Suc p < 2 ^ 32" using assms(3-5) by (auto simp: ids_left_def)
  have "unat (of_nat (Suc p) :: u32) = Suc p" using less(3) by (intro unat_of_nat_pow) simp
  then have "(of_nat (Suc p) :: u32) \<noteq> 0" by (metis unat_0 nat.distinct(1))
  then show ?thesis
    using of_nat_id_inject [OF less(1,2)] unfolding ids [OF assms(4)] ids [OF assms(5)] by blast
qed

text \<open>Kicking keeps the room. A kick of another member by the host takes that member out of the room and its
  data with it, tells it so last of all, and leaves the room in place under the same host, so the room
  reference the handler still holds stays valid.\<close>

lemma kick_keeps_room:
  assumes "server_inv s" and "p \<in> srv_live s" and "q \<in> srv_live s" and "srv_rooms s k = Some r"
    and "conn_room (srv_conns s p) = k" and "room_host r = conn_id (srv_conns s p)"
    and "conn_room (srv_conns s q) = k" and "q \<noteq> p" and "i = conn_id (srv_conns s q)"
  shows "\<exists>s' r'. HandleMessage p (KickMember i) s = Some s' \<and> srv_rooms s' k = Some r'
     \<and> room_members r' = filter (\<lambda>j. j \<noteq> i) (room_members r) \<and> room_host r' = room_host r
     \<and> sm_find (room_member_data r') i = None \<and> conn_room (srv_conns s' q) = []
     \<and> stream s' q = stream s q @ [FrameMessage KickedByHost]"
proof -
  let ?t = "SendTo i KickedByHost s"
  have k: "k \<noteq> []" and id: "room_id r = k" using inv_room_ok [OF assms(1,4)] by (auto simp: room_ok_def)
  have ne: "i \<noteq> room_host r" using inv_id_inject [OF assms(1,3,2)] assms(6,8,9) by simp
  have reg: "srv_connections s i = Some q" using inv_registered [OF assms(1,3)] assms(9) by simp
  have host: "HostRoom p s = (s, Some r)" using assms(4-6) by (simp add: HostRoom_def)
  have rem: "removable i r s = Some q" using ne reg assms(7) id by (simp add: removable_def)
  have msg: "HandleMessage p (KickMember i) s = Some (Server_LeaveRoom q ?t)"
    by (simp add: HandleKickMember_def Let_def host rem)
  have "room_host r \<in> set (room_members r)" using inv_room_ok [OF assms(1,4)] by (simp add: room_ok_def)
  then have some: "\<not> set (room_members r) \<subseteq> {i}" using ne by auto
  have leave: "srv_rooms (Server_LeaveRoom q ?t) = (srv_rooms ?t)(k := remaining_room i r)"
    by (rule LeaveRoom_srv_rooms) (simp_all add: assms k)
  have quiet: "copies (set_room k x ?t) q (filter (\<lambda>j. j \<noteq> i) (room_members r)) n = []" for x n
    using registered_iff [OF assms(1,3)] assms(9) by (intro copies_absent) auto
  have "Server_LeaveRoom q ?t = set_conn_room q []
      (foldl (\<lambda>s m. SendToMany (filter (\<lambda>j. j \<noteq> i) (room_members r)) m s)
         (set_room k (remaining_room i r) ?t)
         (if set (room_members r) \<subseteq> {i} then [] else leave_notices i r))"
    by (rule LeaveRoom_eq) (simp_all add: assms k)
  then have "stream (Server_LeaveRoom q ?t) q = stream s q @ [FrameMessage KickedByHost]"
    by (simp add: stream_foldl quiet stream_SendTo some reg)
  then show ?thesis
    using msg leave some ne
    by (auto simp: remaining_room_def without_member_def Let_def LeaveRoom_conn_room sm.find_erase)
qed

text \<open>Requests get through. A request within the cap that has arrived completely, in however many fragments, is
  reassembled and handled, and the bytes after it are left for the next turn.\<close>

lemma request_handled:
  assumes "conn_in (srv_conns s p) = FrameMessage m @ rest" and "conn_body (srv_conns s p) = []" and "fits m"
    and "HandleMessage p m (set_conn p ((srv_conns s p)\<lparr>conn_in := rest, conn_body := []\<rparr>) s) = Some s'"
  shows "read_turns p s s'"
  by (rule reads_frames [OF FrameMessage_frames_to [OF assms(3)] assms(2,1,4)])

text \<open>C31: Bounded reassembly. In every reachable state every connection's reassembly buffer is within the cap,
  whatever the clients send.\<close>

theorem server_buffers_bounded:
  assumes "config_ok cfg" and "server_run (fst (Server_Init cfg a b c d (new_server rng cfg'))) s"
    and "ids_left s"
  shows "length (conn_body (srv_conns s p)) \<le> max_reassembled_size"
  using bodies.reachable [OF assms] by (simp add: bodies_bounded_def)

theorem server_buffers_bounded_witness:
  "server_run sample_boot sample_banned \<and> length (conn_body (srv_conns sample_banned 0)) \<le> max_reassembled_size"
  using server_buffers_bounded [OF config_ok_sample run_banned [unfolded sample_boot_def] banned_ids] run_banned by simp

text \<open>C33: Passwords stay on the server. What anybody is sent when the host sets a password, and when a client
  joins with the right one, depends on whether there is a password but not on which.\<close>

theorem password_never_sent:
  assumes "w \<noteq> []" and "w' \<noteq> []" and "length w \<le> max_room_password" and "length w' \<le> max_room_password"
  shows "stream (HandleSetRoomPassword p w s) q = stream (HandleSetRoomPassword p w' s) q
     \<and> stream (HandleJoinRoom p k w (set_room k (Some (r\<lparr>room_password := w\<rparr>)) s)) q =
       stream (HandleJoinRoom p k w' (set_room k (Some (r\<lparr>room_password := w'\<rparr>)) s)) q"
proof
  show "stream (HandleSetRoomPassword p w s) q = stream (HandleSetRoomPassword p w' s) q"
  proof (cases rule: HostRoom_cases [of p s])
    case (refused m)
    then show ?thesis by (simp add: HandleSetRoomPassword_def Let_def)
  next
    case (host room)
    then show ?thesis
      using assms
      by (auto simp: HandleSetRoomPassword_def Let_def stream_SendToMany copies_def)
  qed
  let ?s = "\<lambda>w. set_room k (Some (r\<lparr>room_password := w\<rparr>)) s"
  have adm: "admitted (?s w) p k w (r\<lparr>room_password := w\<rparr>) \<longleftrightarrow>
      admitted (?s w') p k w' (r\<lparr>room_password := w'\<rparr>)"
    by (simp add: admitted_def)
  have hyd: "hydration k (r\<lparr>room_password := w\<rparr>) = hydration k (r\<lparr>room_password := w'\<rparr>)"
    using assms by (simp add: hydration_def)
  show "stream (HandleJoinRoom p k w (?s w)) q = stream (HandleJoinRoom p k w' (?s w')) q"
  proof (cases "admitted (?s w) p k w (r\<lparr>room_password := w\<rparr>)")
    case True
    then show ?thesis
      using adm hyd
      by (simp add: HandleJoinRoom_admitted [OF True] HandleJoinRoom_admitted [of _ p k w'] Let_def
          stream_SendAll stream_SendToMany copies_def)
  next
    case False
    then show ?thesis
      using assms by (auto simp: HandleJoinRoom_def Let_def admitted_def stream_SendTo)
  qed
qed

theorem password_never_sent_witness:
  "stream (HandleSetRoomPassword 0 ''swordfish'' sample_joined) 1 = stream (HandleSetRoomPassword 0 ''xyzzy'' sample_joined) 1"
  using password_never_sent [of "''swordfish''" "''xyzzy''" 0 sample_joined 1] by simp

text \<open>C40: What happens after the id counter wraps. When the next id is still in use by a live client, the new
  connection is not registered: the table keeps pointing to the old client, the newcomer's own
  id and ice servers are queued for the old client, and the newcomer is sent nothing.\<close>

theorem id_wraparound_misroutes:
  assumes "srv_connections s (srv_next_id s) = Some p" and "p < srv_alloc s" and "s' = AcceptLoop_turn s"
    and "n = srv_alloc s"
  shows "srv_connections s' (srv_next_id s) = Some p \<and> conn_id (srv_conns s' n) = srv_next_id s \<and> n \<in> srv_live s'
     \<and> stream s' n = []
     \<and> stream s' p = stream s p
         @ map FrameMessage [AssignClientId (srv_next_id s), IceServersMsg (cfg_ice (srv_config s))]"
proof -
  have "p \<noteq> n" using assms(2,4) by simp
  then show ?thesis
    using assms
    by (simp add: AcceptLoop_turn_def Session_begin_def Let_def stream_SendTo)
      (simp add: stream_def new_connection_def)
qed

theorem id_wraparound_misroutes_witness:
  "stream (AcceptLoop_turn (sample_two\<lparr>srv_next_id := 1\<rparr>)) 2 = []
   \<and> srv_connections (AcceptLoop_turn (sample_two\<lparr>srv_next_id := 1\<rparr>)) 1 = Some 0"
proof -
  let ?s = "sample_two\<lparr>srv_next_id := 1\<rparr>"
  have "srv_connections ?s (srv_next_id ?s) = Some 0" "0 < srv_alloc ?s" "2 = srv_alloc ?s"
    by (simp_all add: two_facts)
  from id_wraparound_misroutes [OF this(1,2) refl this(3)] have "stream (AcceptLoop_turn ?s) 2 = []"
    "srv_connections (AcceptLoop_turn ?s) (srv_next_id ?s) = Some 0" by blast+
  then show ?thesis by simp
qed

end
