(* ===== verification/Client_Properties.thy ===== *)
theory Client_Properties
  imports Sample Client_Requests
begin

text \<open>
  The properties of the client's server connection: the cache refines the room-view contract, the byte
  stream is carved independently of its pieces, valid streams never end the connection, and a
  connection that ends leaves no room state behind.
\<close>

text \<open>C7: The cache implements the contract. Dispatching any message and abstracting the cache is the same as
  abstracting first and observing the message; this covers every alternative, including the ones that
  carry transport metadata or signalling.\<close>

theorem cache_refines_contract: "cache_of (dispatch J m c) = observe m (cache_of c)"
  by (rule cache_dispatch)

text \<open>A connected client is always at a point of the server's message sequence. After any interleaving of
  polls, requests, datagrams, callbacks and reads of the event queue, with the bytes received so far being any
  prefix of a sequence of framed messages, the cache is the replay of a prefix of those messages, and the events
  handed out and still queued are exactly the surfaced ones of that prefix, in order; the whole stream gives
  the whole sequence.\<close>

lemma client_follows_stream:
  assumes "list_all fits ms" and "concat (map FrameMessage ms) = bs @ more'"
    and "client_run J (new_client\<lparr>cl_open := True\<rparr>) bs outs cl" and "cl_open cl"
  shows "\<exists>n. cache_of cl = observe_all (take n ms) (lobby_view 0)
     \<and> outs @ cl_inbox cl = filter surfaced (take n ms) \<and> (more' = [] \<longrightarrow> n = length ms)"
proof -
  obtain ns where ns: "parse_stream [] bs = Some (ns, cl_rx_msg cl, cl_rx cl)"
    "cache_of cl = observe_all ns (lobby_view 0)" "outs @ cl_inbox cl = filter surfaced ns"
    using client_run_tracks [OF assms(3) refl assms(4)] by (auto simp: tracks_def)
  have whole: "parse_stream [] (bs @ more') = Some (ms, [], [])"
    using parse_frames [OF assms(1)] assms(2) by simp
  then obtain later where "ms = ns @ later" using parse_append [OF ns(1), of more'] by auto
  moreover have "more' = [] \<longrightarrow> ms = ns" using whole ns(1) by auto
  ultimately show ?thesis using ns(2,3) by (intro exI [of _ "length ns"]) auto
qed

text \<open>C22: Valid streams never end the connection. If the socket reports no error and the bytes received
  including this poll are a prefix of framed messages within the cap, the poll returns true and the
  client stays connected; in particular the loops of a poll end and no message is lost to undefined behaviour.\<close>

theorem valid_stream_keeps_connection:
  assumes "list_all fits ms" and "concat (map FrameMessage ms) = (bs @ received reads) @ more'"
    and "client_run J (new_client\<lparr>cl_open := True\<rparr>) bs outs cl" and "cl_open cl"
    and "\<not> failing reads" and "\<not> failing writes"
  shows "\<exists>cl' sent. Poll J reads writes cl = Some (cl', sent, True) \<and> cl_open cl'"
proof (rule Poll_stays_open [OF assms(4) client_run_tracks [OF assms(3) refl assms(4)] assms(5,6)])
  have "parse_stream [] ((bs @ received reads) @ more') \<noteq> None"
    using parse_frames [OF assms(1)] assms(2) by simp
  then show "parse_stream [] (bs @ received reads) \<noteq> None" by (rule parse_prefix)
qed

theorem valid_stream_keeps_connection_witness:
  "\<exists>cl' sent. Poll sample_juice [Transferred (FrameMessage KickedByHost), Would_block] []
     (new_client\<lparr>cl_open := True\<rparr>) = Some (cl', sent, True) \<and> cl_open cl'"
  by (rule valid_stream_keeps_connection [of "[KickedByHost]" "[]" _ "[]", OF _ _ client_refl]) simp_all

text \<open>Flushing conserves bytes. Whatever pieces the socket accepts, what a flush hands to it followed by
  what stays queued is what was queued, so requests leave in order, without loss or repetition.\<close>

lemma flush_conserves_bytes: "FlushServer writes c = (c', sent, ok) \<Longrightarrow> sent @ cl_tx c' = cl_tx c"
  by (rule FlushServer_conserves)

text \<open>A lost connection clears the room. When a poll of a connected client reports failure, the socket is
  closed, the cached room state is that of a client outside every room, and the mesh has no links and no
  attempt counters.\<close>

lemma failed_poll_clears_room:
  assumes "cl_open c" and "Poll J reads writes c = Some (c', sent, False)"
  shows "\<not> cl_open c' \<and> cache_of c' = lobby_view (cl_id c')
     \<and> mesh_links (cl_mesh c') = [] \<and> mesh_attempts (cl_mesh c') = []"
proof -
  obtain d where "c' = DisconnectServer d"
    using assms
    by (auto simp: Poll_def DrainServer_def CarveServer_def FlushServer_def Let_def
        split: prod.splits if_splits carve_result.splits)
  moreover have "cache_of (ClearRoomState d) = lobby_view (cl_id (ClearRoomState d))" for d
    using cache_ClearRoomState [of d] by (simp add: cache_of_def lobby_view_def)
  moreover have "mesh_links (cl_mesh (ClearRoomState d)) = [] \<and> mesh_attempts (cl_mesh (ClearRoomState d)) = []" for d
    by (simp add: ClearRoomState_def DestroyAllLinks_def set_attempts_def set_links_def)
  ultimately show ?thesis using DisconnectServer_closed [of d] by (simp add: DisconnectServer_def)
qed

text \<open>A poll that meets a malformed header dispatches the complete messages before it and hangs up, with everything it
  had to read still in the buffer.\<close>

lemma malformed_poll:
  assumes "cl_open c" and "cl_rx_msg c = []" and "cl_rx c @ received reads = concat (map FrameMessage ms) @ bad"
    and "list_all fits ms" and "4 \<le> length bad" and "DecodeFrameHeader (take 4 bad) = None" and "\<not> failing reads"
  obtains c' where "Poll J reads writes c = Some (c', [], False)" and "\<not> cl_open c'" and "cl_rx_msg c' = []"
    and "cl_rx c' = cl_rx c @ received reads" and "cl_inbox c' = cl_inbox c @ filter surfaced ms"
proof -
  let ?c = "c\<lparr>cl_rx := cl_rx c @ received reads\<rparr>"
  have "carve_loop J (cl_rx c @ received reads) ?c = carve_loop J bad (dispatch_all J ms ?c)"
    unfolding assms(3) by (rule carve_frames [OF assms(4)]) (simp add: assms(2))
  also have "\<dots> = Carve_disconnect (dispatch_all J ms ?c)" using assms(5,6) by (simp add: carve_loop_step next_frame_def)
  finally have "Poll J reads writes c = Some (DisconnectServer (dispatch_all J ms ?c), [], False)"
    using assms(1,7) by (simp add: Poll_def DrainServer_def drain_loop_received CarveServer_def)
  then show ?thesis
    by (rule that) (simp_all add: DisconnectServer_def ClearRoomState_frame dispatch_all_frame assms(2))
qed

text \<open>C39: Stale bytes survive a reconnect. A client reads complete messages followed by a malformed header: the poll hangs
  up, and keeps all it has read. When the same client object connects again, to whatever server, its next poll hands
  out those messages a second time and hangs up again, before any byte of the new connection is looked at, and the
  buffer still begins with the same bytes, so every later connection ends like this.\<close>

theorem stale_bytes_break_reconnect:
  assumes "cl_open c" and "cl_rx_msg c = []" and "cl_rx c @ received reads = concat (map FrameMessage ms) @ bad"
    and "list_all fits ms" and "4 \<le> length bad" and "DecodeFrameHeader (take 4 bad) = None"
    and "\<not> failing reads" and "\<not> failing reads'"
  shows "\<exists>c' d. Poll J reads writes c = Some (c', [], False) \<and> \<not> cl_open c'
     \<and> cl_inbox c' = cl_inbox c @ filter surfaced ms
     \<and> Poll J reads' writes' (fst (Connect (Connected True) c')) = Some (d, [], False) \<and> \<not> cl_open d
     \<and> cl_inbox d = cl_inbox c' @ filter surfaced ms
     \<and> cl_rx_msg d = [] \<and> cl_rx d = concat (map FrameMessage ms) @ bad @ received reads'"
proof -
  obtain c' where c': "Poll J reads writes c = Some (c', [], False)" "\<not> cl_open c'" "cl_rx_msg c' = []"
    "cl_rx c' = cl_rx c @ received reads" "cl_inbox c' = cl_inbox c @ filter surfaced ms"
    by (rule malformed_poll [OF assms(1-7)])
  let ?c = "fst (Connect (Connected True) c')"
  have "cl_open ?c" "cl_rx_msg ?c = []" "cl_inbox ?c = cl_inbox c'"
    "cl_rx ?c @ received reads' = concat (map FrameMessage ms) @ bad @ received reads'"
    using c'(3,4) assms(3) by (simp_all add: Connect_def)
  note c = this
  obtain d where "Poll J reads' writes' ?c = Some (d, [], False)" "\<not> cl_open d" "cl_rx_msg d = []"
    "cl_rx d = cl_rx ?c @ received reads'" "cl_inbox d = cl_inbox ?c @ filter surfaced ms"
    by (rule malformed_poll [OF c(1,2,4) assms(4) _ _ assms(8)]) (use assms(5,6) in simp_all)
  with c' c(3,4) show ?thesis by auto
qed

theorem stale_bytes_break_reconnect_witness:
  "\<exists>c' d. Poll sample_juice [Transferred (FrameMessage KickedByHost @ [255, 255, 255, 255])] []
         (fst (Connect (Connected True) new_client)) = Some (c', [], False)
     \<and> Poll sample_juice [Transferred (FrameMessage (AssignClientId 1))] [] (fst (Connect (Connected True) c')) = Some (d, [], False)
     \<and> cl_inbox d = [KickedByHost, KickedByHost]"
proof -
  let ?bad = "[255, 255, 255, 255] :: bytes"
  have head: "DecodeFrameHeader (take 4 ?bad) = None"
    by (simp add: DecodeFrameHeader_def in_u32_def in_fundamental_def rbind_def rret_def frame_more_flag_def Let_def)
  from stale_bytes_break_reconnect [of "fst (Connect (Connected True) new_client)"
      "[Transferred (FrameMessage KickedByHost @ ?bad)]" "[KickedByHost]" ?bad "[Transferred (FrameMessage (AssignClientId 1))]"
      sample_juice "[]" "[]", OF _ _ _ _ _ head]
  show ?thesis by (auto simp: Connect_def new_client_def)
qed

text \<open>Bytes that arrive just before the end of the connection are lost: a poll whose reads end in an error, a closed
  connection included, hands out nothing of what it read, however complete, and leaves it in the buffer.\<close>

lemma bytes_before_close_lost:
  assumes "cl_open c" and "failing reads"
  shows "\<exists>c'. Poll J reads writes c = Some (c', [], False) \<and> cl_inbox c' = cl_inbox c \<and> cl_rx c' = cl_rx c @ received reads"
  using assms by (simp add: Poll_def DrainServer_def drain_loop_received DisconnectServer_def ClearRoomState_frame)

end
