(* ===== verification/Client_Life.thy ===== *)
theory Client_Life
  imports Mesh_Runs Sample
begin

text \<open>
  The whole life of a client object: created, connected and reconnected, polled and called in any order.  The
  mesh invariant and the types of the cached maps hold at every moment of it.
\<close>

section \<open>The life of a client\<close>

inductive client_life :: "juice_api \<Rightarrow> Client \<Rightarrow> bool" for J where
  life_new: "client_life J new_client"
| life_connect: "client_life J c \<Longrightarrow> client_life J (fst (Connect outcome c))"
| life_step: "client_life J c \<Longrightarrow> client_step J c bs outs c' \<Longrightarrow> client_life J c'"

lemma mesh_inv_Connect: "mesh_inv (fst (Connect outcome c)) = mesh_inv c"
  by (simp add: Connect_def split: connect_outcome.split)

lemma client_life_inv: "client_life J c \<Longrightarrow> fresh_agents J \<Longrightarrow> mesh_inv c"
proof (induction rule: client_life.induct)
  case life_new
  then show ?case using mesh_inv_new [of False] by (simp add: new_client_def)
qed (auto simp: mesh_inv_Connect intro: client_step_inv)

text \<open>A libjuice that numbers its agents: the sum of all it gave out before is above each of them.\<close>

fun given :: "juice_call \<Rightarrow> nat" where
  "given (juice_create cfg (Some a)) = Suc a"
| "given _ = 0"

definition counting_juice :: juice_api where
  "counting_juice = sample_juice\<lparr>ja_create := (\<lambda>calls config. Some (sum_list (map given calls)))\<rparr>"

lemma juice_run_given: "juice_run js = Some (L, D) \<Longrightarrow> a \<in> L \<Longrightarrow> a < sum_list (map given js)"
proof (induction js arbitrary: L D rule: rev_induct)
  case (snoc j js)
  obtain L' D' where run: "juice_run js = Some (L', D')" and j: "juice_track j (L', D') = Some (L, D)"
    using snoc.prems(1) by (cases "juice_run js") auto
  have "L \<subseteq> L' \<union> {b. given j = Suc b}"
    using j by (cases "(j, L', D')" rule: juice_track.cases) (auto split: if_splits)
  then have "a \<in> L' \<or> given j = Suc a" using snoc.prems(2) by auto
  then show ?case using snoc.IH [OF run] by auto
qed simp

lemma counting_juice_fresh: "fresh_agents counting_juice"
  unfolding fresh_agents_def counting_juice_def by (auto dest: juice_run_given)

section \<open>The cached maps\<close>

text \<open>Whatever an operation does to the cache, it replays messages or clears it.\<close>

lemma Poll_cache:
  assumes "Poll J reads writes c = Some (c', sent, ok)" and "maps_ok (cache_of c)"
  shows "maps_ok (cache_of c')"
proof -
  let ?c = "c\<lparr>cl_rx := cl_rx c @ received reads\<rparr>"
  have gone: "maps_ok (cache_of (DisconnectServer d))" for d
    by (simp add: DisconnectServer_def cache_ClearRoomState)
  have flush: "maps_ok (cache_of (fst (FlushServer writes d)))" if "maps_ok (cache_of d)" for d
    using that gone outside_meshD(1) [OF outside_mesh_prims(8)]
    by (auto simp: FlushServer_def Let_def split: prod.split)
  show ?thesis
  proof (cases "cl_open c \<and> \<not> failing reads")
    case False
    then show ?thesis
      using assms gone by (auto simp: Poll_def DrainServer_def drain_loop_received split: if_splits)
  next
    case True
    show ?thesis
    proof (cases "carve_loop J (cl_rx c @ received reads) ?c")
      case (Carved d r)
      have "\<exists>ns. cache_of d = observe_all ns (cache_of c)"
        using carve_parse [where c = ?c and a = "cl_rx c @ received reads" and J = J] Carved
        by (auto simp: carves_as_def split: option.splits)
      then have "maps_ok (cache_of d)" using assms(2) maps_ok_observe_all by auto
      then have "maps_ok (cache_of (PollPeers (d\<lparr>cl_rx := r\<rparr>)))"
        using outside_meshD(1) [OF outside_PollPeers [of "d\<lparr>cl_rx := r\<rparr>"]] by simp
      then show ?thesis
        using flush [of "PollPeers (d\<lparr>cl_rx := r\<rparr>)"] assms(1) True Carved
        by (simp add: Poll_def DrainServer_def drain_loop_received CarveServer_def)
    qed (use assms(1) True gone in \<open>auto simp: Poll_def DrainServer_def drain_loop_received CarveServer_def\<close>)
  qed
qed

lemma client_step_maps:
  assumes "client_step J c bs outs c'" and "maps_ok (cache_of c)"
  shows "maps_ok (cache_of c')"
  using assms
proof (induction rule: client_step.induct)
  case (cs_poll c reads writes c' sent ok)
  then show ?case using Poll_cache by blast
next
  case (cs_request c m)
  then show ?case by (simp add: outside_meshD(1) [OF outside_mesh_prims(4)])
next
  case (cs_send_p2p c i d)
  then show ?case by (simp add: outside_meshD(1) [OF outside_SendP2P_fst])
next
  case (cs_next_p2p c)
  then show ?case by (simp add: outside_meshD(1) [OF outside_NextP2P])
next
  case (cs_callback c a peer ev)
  then show ?case by (simp add: outside_meshD(1) [OF outside_mesh_prims(7)])
qed (auto simp: Client_Next_def cache_of_def split: list.splits)

lemma client_life_maps: "client_life J c \<Longrightarrow> maps_ok (cache_of c)"
proof (induction rule: client_life.induct)
  case life_new
  have "cache_of new_client = lobby_view 0" by (simp add: cache_of_def new_client_def lobby_view_def)
  then show ?case by simp
next
  case (life_connect c outcome)
  have "cache_of (fst (Connect outcome c)) = cache_of c"
    by (simp add: Connect_def cache_of_def split: connect_outcome.split)
  then show ?case using life_connect by simp
qed (rule client_step_maps)

lemma client_run_life: "client_run J c bs outs c' \<Longrightarrow> client_life J c \<Longrightarrow> client_life J c'"
  by (induction rule: client_run.induct) (auto intro: life_step)

lemma connected_life: "client_life J (new_client\<lparr>cl_open := True\<rparr>)"
  using life_connect [OF life_new, of J "Connected True"] by (simp add: Connect_def)

text \<open>C35: The types of a client's maps. At every moment of a client's life, through disconnects and reconnects,
  the cached room data, the cached member data, every member's map, the table of links and the attempt
  counters are strictly sorted by key, so a lookup and a walk by index agree; no cached key has an empty value, no
  member an empty map, and no counter exceeds three.\<close>

theorem client_maps_typed:
  assumes "fresh_agents J" and "client_life J c"
  shows "maps_ok (cache_of c) \<and> sm_wf (mesh_links (cl_mesh c)) \<and> sm_wf (mesh_attempts (cl_mesh c))
     \<and> (\<forall>(i, n) \<in> set (mesh_attempts (cl_mesh c)). n \<le> 3)"
  using client_life_maps [OF assms(2)] client_life_inv [OF assms(2,1)]
  by (auto simp: mesh_inv_def attempts_ok_def sm_find_iff)

theorem client_maps_typed_witness:
  "\<exists>c. client_life counting_juice c \<and> cl_open c \<and> maps_ok (cache_of c) \<and> sm_wf (mesh_links (cl_mesh c))"
proof -
  obtain c where "client_run counting_juice (new_client\<lparr>cl_open := True\<rparr>) (concat (stream sample_joined 1)) [] c" "cl_open c"
    using sample_client by blast
  moreover from this have "client_life counting_juice c" using client_run_life connected_life by blast
  ultimately show ?thesis using client_maps_typed [OF counting_juice_fresh] by blast
qed

end
