(* ===== verification/Mesh_Properties.thy ===== *)
theory Mesh_Properties
  imports Client_Life
begin

text \<open>
  The properties of the peer mesh: libjuice's contract holds along the whole life of a client and no agent
  leaks, events of dead agents change nothing, dialling is bounded, and early datagrams leave in
  order once the link is up.
\<close>

section \<open>A client in a room\<close>

text \<open>A client in a room with peer 7, and the same client once it has sent a datagram there.\<close>

definition room_messages :: "ServerMessage list" where
  "room_messages = [AssignClientId 5, AssignRoomId ''ABCD'', PeerJoined 7]"

definition meshed :: Client where
  "meshed = new_client\<lparr>cl_open := True, cl_id := 5, cl_room := ''ABCD'', cl_members := [5, 7],
     cl_inbox := [AssignRoomId ''ABCD'', PeerJoined 7]\<rparr>"

definition dialled :: Client where
  "dialled = fst (SendP2P counting_juice 7 [1] meshed)"

lemma meshed_poll:
  "Poll counting_juice [Transferred (concat (map FrameMessage room_messages))] [] (new_client\<lparr>cl_open := True\<rparr>) =
     Some (meshed, [], True)"
proof -
  let ?c = "new_client\<lparr>cl_open := True, cl_rx := concat (map FrameMessage room_messages)\<rparr>"
  have "carve_loop counting_juice (concat (map FrameMessage room_messages) @ []) ?c =
      carve_loop counting_juice [] (dispatch_all counting_juice room_messages ?c)"
    by (rule carve_frames) (simp_all add: room_messages_def fits_def length_message_bytes wire new_client_def)
  then show ?thesis
    by (simp add: Poll_def DrainServer_def CarveServer_def FlushServer_def PollPeers_def meshed_def dispatch_def
        dispatch_all_def room_messages_def new_client_def empty_mesh_def carve_loop.simps [of _ "[]"])
qed

lemma meshed_life: "client_life counting_juice meshed"
proof -
  have "client_life counting_juice (new_client\<lparr>cl_open := True\<rparr>)"
    using life_connect [OF life_new, of _ "Connected True"] by (simp add: Connect_def)
  then show ?thesis by (rule life_step) (rule cs_poll [OF _ meshed_poll], simp)
qed

lemma dialled_life: "client_life counting_juice dialled"
  unfolding dialled_def by (rule life_step [OF meshed_life cs_send_p2p])

lemma dialled_facts:
  "FindLink 7 dialled = Some \<lparr>link_agent = 0, link_ctx_peer = 7, link_remote_set = False, link_connected = False,
     link_outbox = [[1]]\<rparr>"
  "cl_juice dialled = [juice_create (link_config 7 no_ice) (Some 0), juice_get_local_description 0, juice_gather_candidates 0]"
  "cl_members dialled = [5, 7]" "cl_id dialled = 5"
  by (simp_all add: dialled_def meshed_def SendP2P_def CreateLink_def ShareLink_def new_client_def empty_mesh_def
      FindLink_def attempts_at_def counting_juice_def sample_juice_def Let_def juice_log_def set_link_def
      set_links_def set_attempts_def SendServer_def sm_put_def sm_find_def)

section \<open>Lifetime of agents\<close>

text \<open>C4: libjuice's contract holds for the whole life of a client. Whatever the server and the peers send and in
  whatever order polls, sends, reconnects and callbacks happen, every call names an agent that was created and not
  yet destroyed, no agent gets a second remote description, and the live agents are exactly the ones of the links;
  the destructor leaves none alive.\<close>

theorem juice_contract_respected:
  assumes "fresh_agents J" and "client_life J c"
  shows "(\<exists>D. juice_run (cl_juice c) = Some (agents_of (\<lambda>i. FindLink i c), D))
     \<and> (\<exists>D. juice_run (cl_juice (destroy_client c)) = Some ({}, D))"
proof
  have inv: "mesh_inv c" by (rule client_life_inv [OF assms(2,1)])
  then show "\<exists>D. juice_run (cl_juice c) = Some (agents_of (\<lambda>i. FindLink i c), D)"
    by (force simp: mesh_inv_def links_ok_def FindLink_def)
  show "\<exists>D. juice_run (cl_juice (destroy_client c)) = Some ({}, D)"
    using DestroyAllLinks_inv [OF inv] by (simp add: destroy_client_def)
qed

theorem juice_contract_respected_witness:
  "(\<exists>D. juice_run (cl_juice dialled) = Some (agents_of (\<lambda>i. FindLink i dialled), D)) \<and> cl_juice dialled \<noteq> []
     \<and> (\<exists>D. juice_run (cl_juice (destroy_client dialled)) = Some ({}, D))"
  using juice_contract_respected [OF counting_juice_fresh dialled_life] by (simp add: dialled_facts)

text \<open>C34: Late callbacks are harmless. An event of an agent that is no longer alive, which libjuice's
  threads may have queued before the agent was destroyed, changes nothing, even if the peer has a new link.\<close>

theorem dead_agent_events_ignored:
  assumes "fresh_agents J" and "client_life J c" and "juice_run (cl_juice c) = Some (L, D)" and "ev_agent ev \<notin> L"
  shows "HandleJuiceEvent ev c = c"
proof (cases "FindLink (ev_peer ev) c")
  case (Some l)
  have "links_ok (L, D) (sm_find (mesh_links (cl_mesh c)))"
    using client_life_inv [OF assms(2,1)] assms(3) by (simp add: mesh_inv_def)
  then have "link_agent l \<in> L" using linked_agent_live Some by (simp add: FindLink_def)
  then show ?thesis using Some assms(4) by (auto simp: HandleJuiceEvent_def)
qed (simp add: HandleJuiceEvent_def)

theorem dead_agent_events_ignored_witness:
  "HandleJuiceEvent ((blank_event Kind_State)\<lparr>ev_agent := 3, ev_peer := 7, ev_state := JUICE_STATE_FAILED\<rparr>) dialled
     = dialled"
  by (rule dead_agent_events_ignored [OF counting_juice_fresh dialled_life, of "{0}" "{}"])
    (simp_all add: dialled_facts juice_run_def)

section \<open>Dialling\<close>

fun dials :: "u32 \<Rightarrow> juice_call \<Rightarrow> bool" where
  "dials i (juice_create cfg (Some a)) = (jc_peer cfg = i)"
| "dials i _ = False"

definition dial_count :: "u32 \<Rightarrow> Client \<Rightarrow> nat" where
  "dial_count i c = length (filter (dials i) (cl_juice c))"

text \<open>
  What renews a peer's budget.  A link that comes up does; so does an offer the peer makes when there is nothing for it
  to answer, since answering is always allowed; the peer's departure; and the end of the stay in the room, by the client's own
  departure, a kick or a ban.  A description that answers the client's own offer does not.
\<close>

definition link_up :: "u32 \<Rightarrow> JuiceEvent \<Rightarrow> bool" where
  "link_up i ev \<longleftrightarrow> ev_peer ev = i \<and> ev_kind ev = Kind_State
     \<and> ev_state ev \<in> {JUICE_STATE_CONNECTED, JUICE_STATE_COMPLETED}"

definition comes_up :: "u32 \<Rightarrow> JuiceEvent \<Rightarrow> Client \<Rightarrow> bool" where
  "comes_up i ev c \<longleftrightarrow> link_up i ev \<and> (case FindLink i c of None \<Rightarrow> False | Some l \<Rightarrow> link_agent l = ev_agent ev)"

fun renews :: "u32 \<Rightarrow> ServerMessage \<Rightarrow> Client \<Rightarrow> bool" where
  "renews i (P2PSignal j kind payload) c \<longleftrightarrow>
     j = i \<and> kind = Description \<and> (case FindLink i c of None \<Rightarrow> True | Some l \<Rightarrow> link_remote_set l)"
| "renews i (PeerLeft j) c \<longleftrightarrow> j = i \<or> j = cl_id c"
| "renews i KickedByHost c \<longleftrightarrow> True"
| "renews i BannedByHost c \<longleftrightarrow> True"
| "renews i _ c \<longleftrightarrow> False"

text \<open>
  Everything a client does, as a sequence of the operations that touch links, counters or libjuice, with the number of
  renewals for peer \<open>i\<close>: sends to any peer, libjuice's events, messages from the server and the loss of the
  connection.  Any other operation leaves the counters and the calls alone.
\<close>

inductive dialling :: "juice_api \<Rightarrow> u32 \<Rightarrow> nat \<Rightarrow> Client \<Rightarrow> Client \<Rightarrow> bool" for J i where
  dialling_refl: "dialling J i 0 c c"
| dialling_send: "dialling J i n c c' \<Longrightarrow> dialling J i n c (fst (SendP2P J j d c'))"
| dialling_event: "dialling J i n c c' \<Longrightarrow>
     dialling J i (n + of_bool (comes_up i ev c')) c (HandleJuiceEvent ev c')"
| dialling_message: "dialling J i n c c' \<Longrightarrow>
     dialling J i (n + of_bool (renews i m c')) c (dispatch J m c')"
| dialling_lost: "dialling J i n c c' \<Longrightarrow> dialling J i (n + 1) c (DisconnectServer c')"
| dialling_other: "dialling J i n c c' \<Longrightarrow> mesh_attempts (cl_mesh c'') = mesh_attempts (cl_mesh c') \<Longrightarrow>
     cl_juice c'' = cl_juice c' \<Longrightarrow> dialling J i n c c''"

lemma dialling_trans: "dialling J i n d e \<Longrightarrow> dialling J i m c d \<Longrightarrow> dialling J i (m + n) c e"
  by (induction rule: dialling.induct) (simp, (metis add.assoc dialling.intros)+)

text \<open>The operations of the client are such sequences.\<close>

lemma dialling_frame: "mesh_attempts (cl_mesh c') = mesh_attempts (cl_mesh c) \<Longrightarrow> cl_juice c' = cl_juice c \<Longrightarrow> dialling J i 0 c c'"
  by (rule dialling_other [OF dialling_refl])

fun carved_dialling :: "juice_api \<Rightarrow> u32 \<Rightarrow> Client \<Rightarrow> carve_result \<Rightarrow> bool" where
  "carved_dialling J i c (Carved c' r) = (\<exists>n. dialling J i n c c')"
| "carved_dialling J i c (Carve_disconnect c') = (\<exists>n. dialling J i n c c')"
| "carved_dialling J i c Carve_undefined = True"

lemma carved_dialling_trans: "dialling J i n c d \<Longrightarrow> carved_dialling J i d r \<Longrightarrow> carved_dialling J i c r"
  by (cases r) (auto dest: dialling_trans)

lemma carve_loop_dialling: "carved_dialling J i c (carve_loop J r c)"
proof (induction r c rule: carve_induct [where J = J])
  case (step r c)
  have id: "\<exists>n. dialling J i n c c" using dialling_refl by blast
  have frame: "dialling J i 0 c (c\<lparr>cl_rx_msg := b\<rparr>)" for b by (rule dialling_frame) simp_all
  then have faulty: "\<exists>n. dialling J i n c (c\<lparr>cl_rx_msg := b\<rparr>)" for b by blast
  have msg: "dialling J i (0 + of_bool (renews i m (c\<lparr>cl_rx_msg := b\<rparr>))) c (dispatch J m (c\<lparr>cl_rx_msg := b\<rparr>))" for m b
    by (rule dialling_message [OF frame])
  show ?case
    using step id faulty carved_dialling_trans [OF frame] carved_dialling_trans [OF msg]
    by (auto simp: carve_loop_step [of J r c] split: frame_step.split in_fault.split)
qed

lemma events_dialling: "\<exists>n. dialling J i n c (foldl (\<lambda>c ev. HandleJuiceEvent ev c) c evs)"
proof (induction evs arbitrary: c)
  case Nil
  then show ?case using dialling_refl by auto
next
  case (Cons ev evs)
  then show ?case using dialling_trans [OF _ dialling_event [OF dialling_refl]] by (metis foldl_Cons)
qed

lemma PollPeers_dialling: "\<exists>n. dialling J i n c (PollPeers c)"
proof -
  let ?c = "c\<lparr>cl_mesh := (cl_mesh c)\<lparr>mesh_events := mesh_scratch (cl_mesh c), mesh_scratch := mesh_events (cl_mesh c)\<rparr>\<rparr>"
  let ?d = "foldl (\<lambda>c ev. HandleJuiceEvent ev c) ?c (mesh_events (cl_mesh c))"
  obtain n where n: "dialling J i n ?c ?d" using events_dialling by blast
  have "dialling J i 0 c ?c" by (rule dialling_frame) simp_all
  then have "dialling J i (0 + n) c ?d" by (rule dialling_trans [OF n])
  then have "dialling J i (0 + n) c (?d\<lparr>cl_mesh := (cl_mesh ?d)\<lparr>mesh_scratch := []\<rparr>\<rparr>)"
    by (rule dialling_other) simp_all
  then show ?thesis by (auto simp: PollPeers_def Let_def)
qed

lemma Poll_dialling:
  assumes "Poll J reads writes c = Some (c', sent, ok)"
  shows "\<exists>n. dialling J i n c c'"
proof -
  let ?c = "c\<lparr>cl_rx := cl_rx c @ received reads\<rparr>"
  have rx: "dialling J i 0 c ?c" by (rule dialling_frame) simp_all
  have lost: "\<exists>n. dialling J i n c d \<Longrightarrow> \<exists>n. dialling J i n c (DisconnectServer d)" for d using dialling_lost by blast
  have flush: "\<exists>n. dialling J i n c (fst (FlushServer writes d))" if "\<exists>n. dialling J i n c d" for d
  proof -
    have tx: "\<exists>n. dialling J i n c (d\<lparr>cl_tx := bs\<rparr>)" for bs using that dialling_other [of J i _ c d "d\<lparr>cl_tx := bs\<rparr>"] by auto
    then show ?thesis using lost by (auto simp: FlushServer_def Let_def split: prod.split)
  qed
  show ?thesis
  proof (cases "cl_open c \<and> \<not> failing reads")
    case False
    then show ?thesis
      using assms dialling_refl [of J i c] lost rx
      by (auto simp: Poll_def DrainServer_def drain_loop_received split: if_splits)
  next
    case True
    have carved: "carved_dialling J i c (carve_loop J (cl_rx c @ received reads) ?c)"
      by (rule carved_dialling_trans [OF rx carve_loop_dialling])
    show ?thesis
    proof (cases "carve_loop J (cl_rx c @ received reads) ?c")
      case (Carved d r)
      then obtain n where "dialling J i n c d" using carved by auto
      then have "dialling J i n c (d\<lparr>cl_rx := r\<rparr>)" by (rule dialling_other) simp_all
      then have "\<exists>n. dialling J i n c (PollPeers (d\<lparr>cl_rx := r\<rparr>))"
        using dialling_trans PollPeers_dialling by blast
      from flush [OF this] show ?thesis
        using assms True Carved by (simp add: Poll_def DrainServer_def drain_loop_received CarveServer_def)
    qed (use assms True lost carved in \<open>auto simp: Poll_def DrainServer_def drain_loop_received CarveServer_def\<close>)
  qed
qed

lemma client_step_dialling: "client_step J c bs outs c' \<Longrightarrow> \<exists>n. dialling J i n c c'"
proof (induction rule: client_step.induct)
  case (cs_poll c reads writes c' sent ok)
  then show ?case using Poll_dialling by blast
next
  case (cs_send_p2p c j d)
  then show ?case using dialling_send [OF dialling_refl] by blast
qed (auto simp: SendServer_def Client_Next_def NextP2P_def PushJuiceEvent_def split: list.splits
      intro!: exI [of _ 0] dialling_frame)

lemma Connect_dialling: "dialling J i 0 c (fst (Connect outcome c))"
  by (rule dialling_frame) (simp_all add: Connect_def split: connect_outcome.split)

text \<open>What the budget is about: the attempts table, its entry for the peer, and the dials so far.\<close>

definition budget :: "u32 \<Rightarrow> Client \<Rightarrow> bool \<times> u32 \<times> nat" where
  "budget i c = (sm_wf (mesh_attempts (cl_mesh c)), attempts_at i c, dial_count i c)"

lemma budget_log [simp]: "\<not> dials i j \<Longrightarrow> budget i (juice_log j c) = budget i c"
  by (simp add: budget_def attempts_at_def dial_count_def)

lemma budget_frame [simp]:
  "budget i (set_link k l c) = budget i c" "budget i (set_links ls c) = budget i c"
  "budget i (SendServer m c) = budget i c" "budget i (c\<lparr>cl_p2p_inbox := q\<rparr>) = budget i c"
  by (simp_all add: budget_def attempts_at_def dial_count_def)

lemma budget_logs [simp]: "(\<And>x. \<not> dials i (f x)) \<Longrightarrow> budget i (foldl (\<lambda>c x. juice_log (f x) c) c xs) = budget i c"
  by (induction xs arbitrary: c) simp_all

lemma budget_links [simp]:
  "budget i (DestroyLink k c) = budget i c" "budget i (FlushLink k l c) = budget i c"
  "budget i (fst (ShareLink J l k c)) = budget i c"
  by (simp_all add: DestroyLink_def FlushLink_def ShareLink_def Let_def split: option.split)

lemma budget_erase:
  "k \<noteq> i \<Longrightarrow> fst (budget i c) \<Longrightarrow> budget i (set_attempts (sm_erase k (mesh_attempts (cl_mesh c))) c) = budget i c"
  by (simp add: budget_def attempts_at_def dial_count_def sm.find_erase sm.wf_erase)

text \<open>One more dial is always one more attempt, and there are three.\<close>

definition spends :: "bool \<times> u32 \<times> nat \<Rightarrow> bool \<times> u32 \<times> nat \<Rightarrow> bool" where
  "spends b b' \<longleftrightarrow> fst b \<longrightarrow> b' = b
     \<or> b' = (True, fst (snd b) + 1, snd (snd b) + 1) \<and> fst (snd b) < max_connection_attempts"

lemma attempts_at_put:
  "sm_wf (mesh_attempts (cl_mesh c)) \<Longrightarrow>
   attempts_at i (set_attempts (sm_put k n (mesh_attempts (cl_mesh c))) c) = (if i = k then n else attempts_at i c)"
  by (simp add: attempts_at_def sm.find_put)

lemma budget_put:
  "sm_wf (mesh_attempts (cl_mesh c)) \<Longrightarrow> budget i (set_attempts (sm_put k n (mesh_attempts (cl_mesh c))) c) =
     (True, if i = k then n else attempts_at i c, dial_count i c)"
  by (simp add: budget_def attempts_at_put sm.wf_put dial_count_def)

lemma budget_CreateLink: "spends (budget i c) (budget i (fst (CreateLink J k c)))"
proof (cases "sm_wf (mesh_attempts (cl_mesh c))")
  case wf: True
  let ?n = "attempts_at k c"
  let ?c = "set_attempts (sm_put k ?n (mesh_attempts (cl_mesh c))) c"
  let ?cfg = "link_config k (cl_ice ?c)"
  have c: "budget i ?c = budget i c" using wf by (simp only: budget_put) (simp add: budget_def)
  show ?thesis
  proof (cases "?n \<ge> max_connection_attempts")
    case True
    then show ?thesis using c by (simp add: CreateLink_def spends_def)
  next
    case False
    show ?thesis
    proof (cases "ja_create J (cl_juice c) ?cfg")
      case None
      then have "budget i (fst (CreateLink J k c)) = budget i ?c"
        using False by (simp add: CreateLink_def Let_def)
      then show ?thesis using c by (simp add: spends_def)
    next
      case (Some a)
      let ?d = "juice_log (juice_create ?cfg (Some a)) ?c"
      have wf': "sm_wf (mesh_attempts (cl_mesh ?d))" using wf by (simp add: sm.wf_put)
      have "budget i (fst (CreateLink J k c)) =
          budget i (set_attempts (sm_put k (?n + 1) (mesh_attempts (cl_mesh ?d))) ?d)"
        using False Some by (simp add: CreateLink_def Let_def split: option.split)
      also have "\<dots> = (True, if i = k then ?n + 1 else attempts_at i ?d, dial_count i ?d)"
        by (rule budget_put [OF wf'])
      also have "attempts_at i ?d = attempts_at i c" using wf by (simp add: attempts_at_def sm.find_put)
      also have "dial_count i ?d = dial_count i c + (if i = k then 1 else 0)"
        by (simp add: dial_count_def link_config_def)
      finally show ?thesis using wf False by (simp add: spends_def budget_def not_le)
    qed
  qed
qed (simp add: spends_def budget_def)

lemma budget_SendP2P: "spends (budget i c) (budget i (fst (SendP2P J k d c)))"
proof -
  obtain c1 r where c1: "CreateLink J k c = (c1, r)" by fastforce
  have create: "spends (budget i c) (budget i c1)" using budget_CreateLink [of i c J k] c1 by simp
  have deliver: "budget i (fst (case FindLink k c of None \<Rightarrow> (c, False)
      | Some l \<Rightarrow> if \<not> link_connected l then (set_link k (l\<lparr>link_outbox := link_outbox l @ [d]\<rparr>) c, True)
        else (juice_log (juice_send (link_agent l) d) c, b l))) = budget i c" for c b
    by (simp split: option.split)
  have share: "ShareLink J l k c1 = (c2, ok) \<Longrightarrow> budget i c2 = budget i c1" for l c2 ok
    using budget_links(3) [of i J l k c1] by simp
  have same: "spends (budget i c) (budget i c)" by (simp add: spends_def)
  show ?thesis
    using create same share
    by (cases "FindLink k c"; cases r)
      (auto simp: SendP2P_def c1 Let_def deliver split: prod.split bool.split)
qed

lemma budget_HandleJuiceEvent:
  assumes "\<not> comes_up i ev c" and "fst (budget i c)"
  shows "budget i (HandleJuiceEvent ev c) = budget i c"
  using assms
  by (cases "ev_peer ev = i")
    (auto simp: HandleJuiceEvent_def HandleLinkState_def comes_up_def link_up_def budget_erase
      split: option.split JuiceEventKind.split juice_state.split)

text \<open>
  The account: the unspent part of the budget pays for dials, and each of \<open>k\<close> renewals adds three at most.
\<close>

definition charged :: "nat \<Rightarrow> bool \<times> u32 \<times> nat \<Rightarrow> bool \<times> u32 \<times> nat \<Rightarrow> bool" where
  "charged k b b' \<longleftrightarrow> (fst b \<and> fst (snd b) \<le> max_connection_attempts \<longrightarrow>
     fst b' \<and> fst (snd b') \<le> max_connection_attempts
     \<and> snd (snd b') + unat (fst (snd b)) \<le> snd (snd b) + unat (fst (snd b')) + 3 * k)"

lemma charged_same [simp]: "charged k b b" by (simp add: charged_def)

lemma charged_trans: "charged k b b' \<Longrightarrow> charged k' b' b'' \<Longrightarrow> charged (k + k') b b''"
  by (auto simp: charged_def)

lemma charged_spends: "spends b b' \<Longrightarrow> charged 0 b b'"
proof -
  have "n < 3 \<Longrightarrow> n + 1 \<le> (3 :: u32) \<and> unat (n + 1) = unat n + 1" for n
    by (simp add: word_less_nat_alt word_le_nat_alt unat_word_ariths(1))
  then show "spends b b' \<Longrightarrow> charged 0 b b'" by (auto simp: spends_def charged_def)
qed

lemma charged_erase: "charged 1 (budget i c) (budget i (set_attempts (sm_erase k (mesh_attempts (cl_mesh c))) c))"
  by (auto simp: charged_def budget_def attempts_at_def dial_count_def sm.find_erase sm.wf_erase word_le_nat_alt
      split: option.split)

lemma charged_DestroyAllLinks: "charged 1 (budget i c) (budget i (DestroyAllLinks c))"
proof -
  let ?d = "foldl (\<lambda>c (i, link). juice_log (juice_destroy (link_agent link)) c) c (mesh_links (cl_mesh c))"
  have "budget i ?d = budget i c"
    using budget_logs [of i "\<lambda>x. juice_destroy (link_agent (snd x))" c "mesh_links (cl_mesh c)"] by (simp add: case_prod_unfold)
  then have "dial_count i ?d = dial_count i c" by (simp add: budget_def)
  then show ?thesis
    by (simp add: charged_def budget_def DestroyAllLinks_def attempts_at_def dial_count_def word_le_nat_alt)
qed

lemma charged_ClearRoomState: "charged 1 (budget i c) (budget i (ClearRoomState c))"
  using charged_DestroyAllLinks [of i c] by (simp add: ClearRoomState_def budget_def attempts_at_def dial_count_def)

lemma charged_erase_other:
  "k \<noteq> i \<Longrightarrow> charged 0 (budget i c) (budget i (set_attempts (sm_erase k (mesh_attempts (cl_mesh c))) c))"
  using budget_erase [of k i c] by (cases "fst (budget i c)") (simp_all add: charged_def)

text \<open>An offer: the answer is one dial of a renewed budget.\<close>

lemma charged_HandleP2PDescription:
  "charged (of_bool (renews i (P2PSignal j Description payload) c)) (budget i c) (budget i (HandleP2PDescription J j payload c))"
proof (cases "case FindLink j c of None \<Rightarrow> True | Some l \<Rightarrow> link_remote_set l")
  case offer: True
  let ?d = "case FindLink j c of None \<Rightarrow> c | Some l \<Rightarrow> DestroyLink j c"
  let ?e = "set_attempts (sm_erase j (mesh_attempts (cl_mesh ?d))) ?d"
  obtain d r where d: "CreateLink J j ?e = (d, r)" by fastforce
  have same: "budget i ?d = budget i c" by (simp split: option.split)
  then have "charged (of_bool (j = i)) (budget i c) (budget i ?e)"
    using charged_erase [of i ?d j] charged_erase_other [of j i ?d] by (cases "j = i") simp_all
  then have "charged (of_bool (j = i) + 0) (budget i c) (budget i d)"
    by (rule charged_trans [OF _ charged_spends]) (use budget_CreateLink [of i ?e J j] d in simp)
  moreover have "budget i (HandleP2PDescription J j payload c) = budget i d"
    using offer d by (cases "FindLink j c"; cases r) (simp_all add: HandleP2PDescription_def Let_def)
  moreover have "renews i (P2PSignal j Description payload) c = (j = i)" using offer by auto
  ultimately show ?thesis by simp
next
  case False
  then obtain l where "FindLink j c = Some l" "\<not> link_remote_set l" by (auto split: option.splits)
  then have "budget i (HandleP2PDescription J j payload c) = budget i c"
    by (simp add: HandleP2PDescription_def Let_def)
  then show ?thesis by simp
qed

lemma budget_outside [simp]:
  "budget i (c\<lparr>cl_id := j\<rparr>) = budget i c" "budget i (c\<lparr>cl_ice := ice\<rparr>) = budget i c"
  "budget i (c\<lparr>cl_inbox := ms\<rparr>) = budget i c" "budget i (c\<lparr>cl_members := is\<rparr>) = budget i c"
  "budget i (c\<lparr>cl_data := d\<rparr>) = budget i c" "budget i (c\<lparr>cl_member_data := md\<rparr>) = budget i c"
  "budget i (c\<lparr>cl_room := r\<rparr>) = budget i c" "budget i (c\<lparr>cl_host := h\<rparr>) = budget i c"
  "budget i (c\<lparr>cl_room_open := b\<rparr>) = budget i c" "budget i (c\<lparr>cl_room_passworded := b\<rparr>) = budget i c"
  "budget i (c\<lparr>cl_open := b\<rparr>) = budget i c"
  by (simp_all add: budget_def attempts_at_def dial_count_def)

lemma charged_PeerLeft: "charged (of_bool (renews i (PeerLeft j) c)) (budget i c) (budget i (CacheRoomState (PeerLeft j) c))"
proof (cases "j = cl_id c")
  case True
  then show ?thesis using charged_ClearRoomState by simp
next
  case False
  let ?c = "DestroyLink j (c\<lparr>cl_members := filter (\<lambda>k. k \<noteq> j) (cl_members c), cl_member_data := sm_erase j (cl_member_data c)\<rparr>)"
  have "budget i ?c = budget i c" by simp
  then have "charged (of_bool (j = i)) (budget i c) (budget i (set_attempts (sm_erase j (mesh_attempts (cl_mesh ?c))) ?c))"
    using charged_erase [of i ?c j] charged_erase_other [of j i ?c] by (cases "j = i") simp_all
  then show ?thesis using False by (simp add: Let_def)
qed

lemma charged_CacheRoomState: "charged (of_bool (renews i m c)) (budget i c) (budget i (CacheRoomState m c))"
proof (cases m)
  case (PeerLeft j)
  then show ?thesis by (simp only: charged_PeerLeft)
qed (simp_all add: charged_ClearRoomState [simplified] Let_def split: option.split)

lemma charged_dispatch: "charged (of_bool (renews i m c)) (budget i c) (budget i (dispatch J m c))"
proof (cases m)
  case (P2PSignal j kind payload)
  then show ?thesis
    using charged_HandleP2PDescription [of i j payload c J]
    by (auto simp: dispatch_def Client_HandleP2PSignal_def split: option.split)
qed (use charged_CacheRoomState [of i m c] in \<open>simp_all add: dispatch_def Let_def del: CacheRoomState.simps renews.simps\<close>)

lemma charged_HandleJuiceEvent: "charged (of_bool (comes_up i ev c)) (budget i c) (budget i (HandleJuiceEvent ev c))"
proof (cases "comes_up i ev c")
  case True
  then obtain l where "FindLink i c = Some l" "link_agent l = ev_agent ev" by (auto simp: comes_up_def link_up_def split: option.splits)
  then have "budget i (HandleJuiceEvent ev c) = budget i (set_attempts (sm_erase i (mesh_attempts (cl_mesh c))) c)"
    using True by (auto simp: comes_up_def link_up_def HandleJuiceEvent_def HandleLinkState_def)
  then show ?thesis using True charged_erase [of i c i] by simp
next
  case False
  then show ?thesis using budget_HandleJuiceEvent [OF False] by (cases "fst (budget i c)") (simp_all add: charged_def)
qed

lemma dialling_charged: "dialling J i n c c' \<Longrightarrow> charged n (budget i c) (budget i c')"
proof (induction rule: dialling.induct)
  case (dialling_send n c c' j d)
  then show ?case using charged_trans [OF _ charged_spends [OF budget_SendP2P]] by (metis add_0_right)
next
  case (dialling_event n c c' ev)
  then show ?case using charged_trans charged_HandleJuiceEvent by blast
next
  case (dialling_message n c c' m)
  then show ?case using charged_trans charged_dispatch by blast
next
  case (dialling_lost n c c')
  have "charged 1 (budget i c') (budget i (DisconnectServer c'))"
    using charged_ClearRoomState [of i "c'\<lparr>cl_open := False\<rparr>"] by (simp add: DisconnectServer_def)
  then show ?case using charged_trans dialling_lost.IH by blast
next
  case (dialling_other n c c' c'')
  then have "budget i c'' = budget i c'" by (simp add: budget_def attempts_at_def dial_count_def)
  then show ?case using dialling_other by simp
qed simp

text \<open>C21: Dialling is bounded. Whatever a client does, sends to any peer, link failures, offers and departures of peers,
  kicks, lost connections, agents are created for a peer at most three times, and three times more for each renewal: a link
  that came up, an offer of the peer that had to be answered, the peer's departure, or the end of the stay
  in the room. When that allowance is spent, a send to the peer without a link makes no call and returns false. Every step of a
  client's life is such a sequence of operations.\<close>

theorem dialling_bounded:
  assumes "fresh_agents J" and "client_life J c" and "dialling J i n c c'"
  shows "dial_count i c' \<le> dial_count i c + 3 * (n + 1)
     \<and> (dial_count i c' = dial_count i c + 3 * (n + 1) \<and> FindLink i c' = None \<longrightarrow>
        cl_juice (fst (SendP2P J i d c')) = cl_juice c' \<and> \<not> snd (SendP2P J i d c'))
     \<and> (\<forall>bs outs c''. client_step J c' bs outs c'' \<longrightarrow> (\<exists>k. dialling J i (n + k) c c''))
     \<and> dialling J i n c (fst (Connect outcome c'))"
proof (intro conjI allI impI)
  have inv: "mesh_inv c" by (rule client_life_inv [OF assms(2,1)])
  have "fst (budget i c)" using inv by (simp add: budget_def mesh_inv_def attempts_ok_def)
  then have bound: "attempts_at i c' \<le> 3"
    and count: "dial_count i c' + unat (attempts_at i c) \<le> dial_count i c + unat (attempts_at i c') + 3 * n"
    using dialling_charged [OF assms(3)] attempts_at_bound [OF inv] by (simp_all add: charged_def budget_def)
  have three: "unat (attempts_at i c') \<le> 3" using bound by (simp add: word_le_nat_alt)
  then show "dial_count i c' \<le> dial_count i c + 3 * (n + 1)" using count by simp
  assume "dial_count i c' = dial_count i c + 3 * (n + 1) \<and> FindLink i c' = None"
  moreover from this have "attempts_at i c' = 3" using count three by (simp add: word_unat_eq_iff)
  ultimately show "cl_juice (fst (SendP2P J i d c')) = cl_juice c'" "\<not> snd (SendP2P J i d c')"
    by (auto simp: SendP2P_def CreateLink_def Let_def)
next
  fix bs outs c''
  assume "client_step J c' bs outs c''"
  then show "\<exists>k. dialling J i (n + k) c c''" using client_step_dialling dialling_trans [OF _ assms(3)] by blast
next
  show "dialling J i n c (fst (Connect outcome c'))" using dialling_trans [OF Connect_dialling assms(3)] by simp
qed

text \<open>Peer 7 answers the client's offer and then makes an offer of its own: the second description renews the
  budget and is answered with a second agent.\<close>

definition answered :: Client where
  "answered = dispatch counting_juice (P2PSignal 7 Description ''offer'')
     (dispatch counting_juice (P2PSignal 7 Description ''answer'') dialled)"

lemma answered_dialling: "dialling counting_juice 7 1 meshed answered" "dial_count 7 answered = 2"
proof -
  let ?J = counting_juice
  let ?d = "dispatch ?J (P2PSignal 7 Description ''answer'') dialled"
  have d: "?d = set_link 7 ((the (FindLink 7 dialled))\<lparr>link_remote_set := True\<rparr>)
      (juice_log (juice_set_remote_description 0 ''answer'') dialled)"
    using dialled_facts(1) by (simp add: dispatch_def Client_HandleP2PSignal_def HandleP2PDescription_def Let_def c_str_def)
  have "sm_wf (mesh_links (cl_mesh dialled))"
    using client_life_inv [OF dialled_life counting_juice_fresh] by (simp add: mesh_inv_def)
  then have l: "FindLink 7 ?d = Some ((the (FindLink 7 dialled))\<lparr>link_remote_set := True\<rparr>)"
    by (simp add: d FindLink_def set_link_def set_links_def juice_log_def sm.find_put)
  have "dialling ?J 7 0 meshed dialled" unfolding dialled_def by (rule dialling_send [OF dialling_refl])
  from dialling_message [OF this, of "P2PSignal 7 Description ''answer''"]
  have "dialling ?J 7 0 meshed ?d" using dialled_facts(1) by simp
  from dialling_message [OF this, of "P2PSignal 7 Description ''offer''"]
  show "dialling ?J 7 1 meshed answered" using l by (simp add: answered_def)
  show "dial_count 7 answered = 2"
    by (simp add: answered_def dialled_def meshed_def dispatch_def Client_HandleP2PSignal_def HandleP2PDescription_def
        SendP2P_def CreateLink_def ShareLink_def DestroyLink_def new_client_def empty_mesh_def FindLink_def attempts_at_def
        counting_juice_def sample_juice_def Let_def juice_log_def set_link_def set_links_def set_attempts_def SendServer_def
        sm_put_def sm_find_def sm_erase_def dial_count_def link_config_def)
qed

theorem dialling_bounded_witness: "dial_count 7 answered = 2 \<and> dial_count 7 answered \<le> dial_count 7 meshed + 3 * (1 + 1)"
  using dialling_bounded [OF counting_juice_fresh meshed_life answered_dialling(1)] answered_dialling(2) by simp

section \<open>Datagrams\<close>

lemma SendP2P_queues:
  assumes "FindLink i c = Some l" and "\<not> link_connected l" and "i \<noteq> cl_id c" and "i \<in> set (cl_members c)"
    and "d \<noteq> []" and "length d \<le> max_p2p_message_size"
  shows "SendP2P J i d c = (set_link i (l\<lparr>link_outbox := link_outbox l @ [d]\<rparr>) c, True)"
  using assms by (simp add: SendP2P_def)

lemma set_link_frame [simp]:
  "cl_id (set_link i l c) = cl_id c" "cl_members (set_link i l c) = cl_members c"
  by (simp_all add: set_link_def set_links_def)

lemma sends_queue:
  assumes "mesh_inv c" and "FindLink i c = Some l" and "\<not> link_connected l" and "i \<noteq> cl_id c"
    and "i \<in> set (cl_members c)" and "\<forall>d \<in> set ds. d \<noteq> [] \<and> length d \<le> max_p2p_message_size"
  shows "cl_juice (foldl (\<lambda>c d. fst (SendP2P J i d c)) c ds) = cl_juice c
     \<and> FindLink i (foldl (\<lambda>c d. fst (SendP2P J i d c)) c ds) = Some (l\<lparr>link_outbox := link_outbox l @ ds\<rparr>)
     \<and> mesh_inv (foldl (\<lambda>c d. fst (SendP2P J i d c)) c ds)"
  using assms
proof (induction ds arbitrary: c l)
  case (Cons d ds)
  let ?l = "l\<lparr>link_outbox := link_outbox l @ [d]\<rparr>"
  have send: "fst (SendP2P J i d c) = set_link i ?l c" using SendP2P_queues [of i c l d J] Cons.prems by simp
  have inv: "mesh_inv (set_link i ?l c)" using Cons.prems by (intro mesh_inv_set_link [of c i l]) simp_all
  have "FindLink i (set_link i ?l c) = Some ?l"
    using Cons.prems(1) by (simp add: FindLink_def sm.find_put mesh_inv_def)
  from Cons.IH [OF inv this] Cons.prems send show ?case by simp
qed simp

text \<open>C20: Early datagrams are neither lost nor reordered. Datagrams sent to a member while its link is
  still being built are queued; when libjuice reports the link up, exactly these, after whatever was queued before
  them, go out on that link's agent in the order they were sent, the queue is empty, the link counts as connected
  and the peer's dialling budget is reset.\<close>

theorem early_datagrams_in_order:
  assumes "fresh_agents J" and "client_life J c" and "FindLink i c = Some l" and "\<not> link_connected l"
    and "i \<noteq> cl_id c" and "i \<in> set (cl_members c)"
    and "\<forall>d \<in> set ds. d \<noteq> [] \<and> length d \<le> max_p2p_message_size"
    and "link_up i ev" and "ev_agent ev = link_agent l"
    and "c' = HandleJuiceEvent ev (foldl (\<lambda>c d. fst (SendP2P J i d c)) c ds)"
  shows "cl_juice c' = cl_juice c @ map (juice_send (link_agent l)) (link_outbox l @ ds)
     \<and> FindLink i c' = Some (l\<lparr>link_connected := True, link_outbox := []\<rparr>) \<and> attempts_at i c' = 0"
proof -
  let ?c = "foldl (\<lambda>c d. fst (SendP2P J i d c)) c ds"
  let ?l = "l\<lparr>link_outbox := link_outbox l @ ds\<rparr>"
  have sent: "cl_juice ?c = cl_juice c" "FindLink i ?c = Some ?l" and inv: "mesh_inv ?c"
    using sends_queue [OF client_life_inv [OF assms(2,1)] assms(3-7), of J] by simp_all
  have "c' = FlushLink i (?l\<lparr>link_connected := True\<rparr>) (set_attempts (sm_erase i (mesh_attempts (cl_mesh ?c))) ?c)"
    using assms(8-10) sent by (auto simp: link_up_def HandleJuiceEvent_def HandleLinkState_def)
  then show ?thesis
    using sent inv
    by (simp add: FlushLink_def foldl_log_juice FindLink_def attempts_at_def mesh_inv_def sm.find_put sm.find_erase)
qed

theorem early_datagrams_in_order_witness:
  "cl_juice (HandleJuiceEvent ((blank_event Kind_State)\<lparr>ev_peer := 7, ev_state := JUICE_STATE_CONNECTED\<rparr>)
     (foldl (\<lambda>c d. fst (SendP2P counting_juice 7 d c)) dialled [[2], [3, 4]])) =
   cl_juice dialled @ [juice_send 0 [1], juice_send 0 [2], juice_send 0 [3, 4]]"
  using early_datagrams_in_order [OF counting_juice_fresh dialled_life dialled_facts(1) _ _ _ _ _ _ refl,
      of "[[2], [3, 4]]" "(blank_event Kind_State)\<lparr>ev_peer := 7, ev_state := JUICE_STATE_CONNECTED\<rparr>"]
  by (simp add: dialled_facts(3,4) link_up_def blank_event_def)

end
