(* ===== verification/Settings_Properties.thy ===== *)
theory Settings_Properties
  imports Sample
begin

text \<open>
  The properties of the requests that change a room's settings: host, joinability, password and
  member data, with what every connected client is sent for them.
\<close>

lemma stream_room [simp]: "stream (set_room k r s) q = stream s q"
  by (simp add: stream_def)

lemma stream_reply:
  assumes "server_inv s" and "p \<in> srv_live s" and "q \<in> srv_live s"
  shows "stream (SendTo (conn_id (srv_conns s p)) m s) q = stream s q @ (if q = p then [FrameMessage m] else [])"
  using inv_registered [OF assms(1,2)] by (auto simp: stream_SendTo)

lemma stream_members:
  assumes "server_inv s" and "q \<in> srv_live s" and "srv_rooms s k = Some r"
  shows "stream (SendToMany (room_members r) m (set_room k r' s)) q =
     stream s q @ (if conn_room (srv_conns s q) = k then [FrameMessage m] else [])"
proof -
  have "distinct (room_members r)" using inv_room_ok [OF assms(1,3)] by (simp add: room_ok_def)
  from copies_inv [OF assms(1,2) this] inv_member_iff [OF assms(1,3,2)] show ?thesis
    by (simp add: stream_SendToMany copies_def)
qed

lemma same_room:
  "srv_rooms s k = Some r \<Longrightarrow> (srv_rooms s)(k \<mapsto> r) = srv_rooms s"
  by (simp add: fun_upd_idem)

lemma same_fields:
  "room_host r = i \<Longrightarrow> r\<lparr>room_host := i\<rparr> = r" "room_open r = b \<Longrightarrow> r\<lparr>room_open := b\<rparr> = r"
  "room_password r = w \<Longrightarrow> r\<lparr>room_password := w\<rparr> = r"
  by (cases r; simp)+

text \<open>C32: The host's settings. Handing over the role, opening or closing the room and setting its password by the
  host change exactly that field of exactly that room, or nothing when the target is no member or the
  password is too long; every member is told once, and only of a change it can see.\<close>

theorem host_settings:
  assumes "server_inv s" and "p \<in> srv_live s" and "q \<in> srv_live s" and "srv_rooms s k = Some r"
    and "conn_room (srv_conns s p) = k" and "room_host r = conn_id (srv_conns s p)"
  shows "(\<exists>s'. HandleMessage p (TransferHost j) s = Some s'
      \<and> srv_rooms s' = (srv_rooms s)(k \<mapsto> r\<lparr>room_host := (if j \<in> set (room_members r) then j else room_host r)\<rparr>)
      \<and> stream s' q = stream s q @ map FrameMessage
          (if j = room_host r then []
           else if j \<in> set (room_members r) then (if conn_room (srv_conns s q) = k then [HostChanged j] else [])
           else if q = p then [RoomError NoSuchMember (to_string j)] else []))
    \<and> (\<exists>s'. HandleMessage p (SetRoomJoinable b) s = Some s' \<and> srv_rooms s' = (srv_rooms s)(k \<mapsto> r\<lparr>room_open := b\<rparr>)
      \<and> stream s' q = stream s q @ map FrameMessage
          (if b \<noteq> room_open r \<and> conn_room (srv_conns s q) = k
           then [RoomAccessChanged b (room_password r \<noteq> [])] else []))
    \<and> (\<exists>s'. HandleMessage p (SetRoomPassword w) s = Some s'
      \<and> srv_rooms s' = (srv_rooms s)(k \<mapsto> r\<lparr>room_password := (if length w \<le> max_room_password then w else room_password r)\<rparr>)
      \<and> stream s' q = stream s q @ map FrameMessage
          (if length w > max_room_password then (if q = p then [RoomError BadPassword []] else [])
           else if (w = []) \<noteq> (room_password r = []) \<and> conn_room (srv_conns s q) = k
           then [RoomAccessChanged (room_open r) (w \<noteq> [])] else []))"
proof (intro conjI)
  have host: "HostRoom p s = (s, Some r)" using assms(4-6) by (simp add: HostRoom_def)
  have mem: "room_host r \<in> set (room_members r)" using inv_room_ok [OF assms(1,4)] by (simp add: room_ok_def)
  note facts = host assms(5) assms(6) [symmetric] same_room [OF assms(4)] same_fields
    stream_reply [OF assms(1-3), unfolded assms(6) [symmetric]] stream_members [OF assms(1,3,4)]
  show "\<exists>s'. HandleMessage p (TransferHost j) s = Some s'
      \<and> srv_rooms s' = (srv_rooms s)(k \<mapsto> r\<lparr>room_host := (if j \<in> set (room_members r) then j else room_host r)\<rparr>)
      \<and> stream s' q = stream s q @ map FrameMessage
          (if j = room_host r then []
           else if j \<in> set (room_members r) then (if conn_room (srv_conns s q) = k then [HostChanged j] else [])
           else if q = p then [RoomError NoSuchMember (to_string j)] else [])"
    using mem by (simp add: HandleTransferHost_def Let_def facts)
  show "\<exists>s'. HandleMessage p (SetRoomJoinable b) s = Some s' \<and> srv_rooms s' = (srv_rooms s)(k \<mapsto> r\<lparr>room_open := b\<rparr>)
      \<and> stream s' q = stream s q @ map FrameMessage
          (if b \<noteq> room_open r \<and> conn_room (srv_conns s q) = k
           then [RoomAccessChanged b (room_password r \<noteq> [])] else [])"
    by (cases "room_open r = b") (simp_all add: HandleSetRoomJoinable_def Let_def facts)
  show "\<exists>s'. HandleMessage p (SetRoomPassword w) s = Some s'
      \<and> srv_rooms s' = (srv_rooms s)(k \<mapsto> r\<lparr>room_password := (if length w \<le> max_room_password then w else room_password r)\<rparr>)
      \<and> stream s' q = stream s q @ map FrameMessage
          (if length w > max_room_password then (if q = p then [RoomError BadPassword []] else [])
           else if (w = []) \<noteq> (room_password r = []) \<and> conn_room (srv_conns s q) = k
           then [RoomAccessChanged (room_open r) (w \<noteq> [])] else [])"
    by (cases "room_password r = w") (auto simp: HandleSetRoomPassword_def Let_def facts stream_members [OF assms(1,2,4)])
qed

theorem host_settings_witness:
  "\<exists>s'. HandleMessage 0 (TransferHost 2) sample_joined = Some s'
     \<and> stream s' 1 = stream sample_joined 1 @ [FrameMessage (HostChanged 2)]"
proof -
  have host: "room_host sample_room = conn_id (srv_conns sample_joined 0)" "room_host sample_room = 1"
    "room_members sample_room = [1, 2]"
    by (simp_all add: joined_facts) (simp_all add: sample_room_def new_room_def)
  from host_settings [OF joined_ok(1) _ _ _ _ host(1), of 1 "''ABCD''" 2] show ?thesis
    by (auto simp: joined_facts host(2,3))
qed

text \<open>When a member's pair is turned down: it is malformed, or one key too many.\<close>

definition over_limit :: "string \<Rightarrow> string \<Rightarrow> (string, string) stdmap \<Rightarrow> bool" where
  "over_limit key val d \<longleftrightarrow> bad_pair key val
     \<or> val \<noteq> [] \<and> sm_find d key = None \<and> sm_size d \<ge> max_member_data_keys"

lemma SetMemberData_eq:
  assumes inv: "server_inv s" and room: "srv_rooms s k = Some r" and k: "conn_room (srv_conns s p) = k"
    and i: "conn_id (srv_conns s p) = i" and d: "member_map i r = d"
  shows "HandleSetMemberData p key val s =
     (if over_limit key val d then SendTo i (RoomError BadRoomData key) s
      else if sm_find d key = (if val = [] then None else Some val) then s
      else SendToMany (room_members r) (MemberDataChanged i key val)
        (set_room k (Some (r\<lparr>room_member_data := member_write i key val (room_member_data r)\<rparr>)) s))"
proof -
  have ok: "room_ok k r" using inv_room_ok [OF inv room] by simp
  have md: "sm_wf (room_member_data r)" using ok by (simp add: room_ok_def)
  note wf = member_map_ok(1,2) [OF ok, of i, unfolded d]
  note eqs = HandleSetMemberData_def Let_def member_write_eq put_limited_def over_limit_def
    sm.size_put [OF wf(1)] data_write_def d k i room
  show ?thesis
  proof (cases "sm_find (room_member_data r) i")
    case None
    then have "d = []" using d by (simp add: member_map_def)
    then show ?thesis using None md by (simp add: eqs sm_put_def [of key val "[]"] sm_size_def sm.put_put)
  next
    case (Some e)
    then have e: "e = d" using d by (simp add: member_map_def)
    have "sm_put i d (room_member_data r) = room_member_data r" using md Some e by (simp add: sm.put_found)
    then show ?thesis
      using Some e set_room_same [OF room] by (auto simp: eqs split: option.splits)
  qed
qed

lemma member_map_write:
  assumes "sm_wf (room_member_data r)" and "sm_wf (member_map i r)"
    and "r' = r\<lparr>room_member_data := member_write i key val (room_member_data r)\<rparr>"
  shows "sm_find (member_map i r') = (sm_find (member_map i r))(key := (if val = [] then None else Some val))"
    and "j \<noteq> i \<Longrightarrow> member_map j r' = member_map j r"
proof -
  have find: "sm_find (data_write key val (member_map i r)) =
      (sm_find (member_map i r))(key := (if val = [] then None else Some val))"
    by (rule data_write_find [OF assms(2)])
  have "member_map i r' = data_write key val (member_map i r)"
    by (simp add: assms(3) member_write_eq Let_def)
      (simp add: member_map_def sm.find_put [OF assms(1)] sm.find_erase)
  then show "sm_find (member_map i r') = (sm_find (member_map i r))(key := (if val = [] then None else Some val))"
    using find by simp
  show "j \<noteq> i \<Longrightarrow> member_map j r' = member_map j r"
    by (simp add: assms(3) member_write_eq Let_def)
      (simp add: member_map_def sm.find_put [OF assms(1)] sm.find_erase)
qed

text \<open>C38: Member data behaves as a bounded map per member. A pair a member sets is refused without a change exactly
  when it is malformed or would be one key too many; otherwise its own key maps to the value, or to nothing for
  an empty value. Its other keys and every other member's data stay as they are, everyone in the room is told exactly
  when the map changed, and a refusal is told to the sender only.\<close>

theorem member_data_semantics:
  assumes "server_inv s" and "p \<in> srv_live s" and "q \<in> srv_live s" and "srv_rooms s k = Some r"
    and "conn_room (srv_conns s p) = k" and "conn_id (srv_conns s p) = i" and "refused = over_limit key val (member_map i r)"
  shows "\<exists>s' r'. HandleMessage p (SetMemberData key val) s = Some s' \<and> srv_rooms s' = (srv_rooms s)(k \<mapsto> r')
     \<and> sm_find (member_map i r') = (if refused then sm_find (member_map i r)
          else (sm_find (member_map i r))(key := (if val = [] then None else Some val)))
     \<and> (\<forall>j. j \<noteq> i \<longrightarrow> member_map j r' = member_map j r)
     \<and> stream s' q = stream s q @ map FrameMessage
         (if refused then (if q = p then [RoomError BadRoomData key] else [])
          else if sm_find (member_map i r') \<noteq> sm_find (member_map i r) \<and> conn_room (srv_conns s q) = k
          then [MemberDataChanged i key val] else [])"
proof -
  let ?old = "sm_find (member_map i r)" and ?v = "if val = [] then None else Some val"
  have ok: "room_ok k r" using inv_room_ok [OF assms(1,4)] by simp
  have wf: "sm_wf (room_member_data r)" "sm_wf (member_map i r)"
    using ok member_map_ok(1) [OF ok] by (simp_all add: room_ok_def)
  note eq = SetMemberData_eq [OF assms(1,4,5,6) refl, of key val, folded assms(7)]
  note reply = stream_reply [OF assms(1-3), unfolded assms(6)]
  consider "refused" | "\<not> refused" "?old key = ?v" | "\<not> refused" "?old key \<noteq> ?v" by blast
  then show ?thesis
  proof cases
    case 1
    then show ?thesis
      using eq reply same_room [OF assms(4)] by (intro exI [of _ "SendTo i (RoomError BadRoomData key) s"] exI [of _ r]) simp
  next
    case 2
    then have "?old(key := ?v) = ?old" by (simp add: fun_upd_idem)
    then show ?thesis using 2 eq same_room [OF assms(4)] by (intro exI [of _ s] exI [of _ r]) simp
  next
    case 3
    let ?r = "r\<lparr>room_member_data := member_write i key val (room_member_data r)\<rparr>"
    let ?s = "SendToMany (room_members r) (MemberDataChanged i key val) (set_room k (Some ?r) s)"
    have "?old(key := ?v) \<noteq> ?old" using 3(2) by (metis fun_upd_same)
    then show ?thesis
      using 3 eq member_map_write [OF wf refl] stream_members [OF assms(1,3,4), of "MemberDataChanged i key val" "Some ?r"]
      by (intro exI [of _ ?s] exI [of _ ?r]) simp
  qed
qed

theorem member_data_semantics_witness:
  "\<exists>s' r'. HandleMessage 1 (SetMemberData ''name'' ''ann'') sample_joined = Some s'
     \<and> srv_rooms s' = (srv_rooms sample_joined)(''ABCD'' \<mapsto> r') \<and> sm_find (member_map 2 r') ''name'' = Some ''ann''"
proof -
  have room: "member_map 2 sample_room = []"
    by (simp add: member_map_def sample_room_def new_room_def)
  have "\<not> over_limit ''name'' ''ann'' (member_map 2 sample_room)"
    by (simp add: room over_limit_def bad_pair_def sm_size_def)
  with member_data_semantics [OF joined_ok(1), of 1 0 "''ABCD''" sample_room 2 False "''name''" "''ann''"]
  show ?thesis by (auto simp: joined_facts room)
qed

end
