(* ===== verification/Server_Process.thy ===== *)
theory Server_Process
  imports Server_Reading
begin

text \<open>
  The server as a process: \<open>Run\<close> spawns the accept loop and drives the io context, which works until it is
  stopped or nothing is left to do; \<open>Stop\<close> stops it.  The accept loop has no handler around
  \<open>async_accept\<close>, so a failed accept leaves it by an exception, which \<open>detached\<close> drops.
\<close>

section \<open>The process\<close>

record Process =
  prc_server :: Server
  prc_accepting :: bool
  prc_stopped :: bool

definition Server_Run :: "Server \<Rightarrow> Process" where
  "Server_Run s = \<lparr>prc_server = s, prc_accepting = True, prc_stopped = False\<rparr>"

definition Server_Stop :: "Process \<Rightarrow> Process" where
  "Server_Stop x = x\<lparr>prc_stopped := True\<rparr>"

text \<open>The coroutines that have not ended: the accept loop, the sessions, the write loops.\<close>

definition work_left :: "Process \<Rightarrow> bool" where
  "work_left x \<longleftrightarrow> prc_accepting x \<or> srv_live (prc_server x) \<noteq> {}
     \<or> (\<exists>p < srv_alloc (prc_server x). conn_writing (srv_conns (prc_server x) p))"

definition run_returns :: "Process \<Rightarrow> bool" where
  "run_returns x \<longleftrightarrow> prc_stopped x \<or> \<not> work_left x"

text \<open>The accept loop's turn with the outcome of \<open>async_accept\<close>.\<close>

definition AcceptLoop :: "bool \<Rightarrow> Process \<Rightarrow> Process" where
  "AcceptLoop ok x =
     (if ok then x\<lparr>prc_server := AcceptLoop_turn (prc_server x)\<rparr> else x\<lparr>prc_accepting := False\<rparr>)"

inductive session_step :: "Server \<Rightarrow> Server \<Rightarrow> bool" where
  session_receives: "p \<in> srv_live s \<Longrightarrow> session_step s (arrive p bs s)"
| session_reads: "p \<in> srv_live s \<Longrightarrow> ReadLoop_turn p s = Read_next s' \<Longrightarrow> session_step s s'"
| session_ends: "p \<in> srv_live s \<Longrightarrow> session_step s (Session_end p s)"
| session_writes: "p < srv_alloc s \<Longrightarrow> session_step s (WriteLoop_turn p s)"
| session_written: "p < srv_alloc s \<Longrightarrow> session_step s (WriteLoop_resume written p s)"

inductive process_step :: "Process \<Rightarrow> Process \<Rightarrow> bool" where
  process_accepts: "\<not> run_returns x \<Longrightarrow> prc_accepting x \<Longrightarrow> process_step x (AcceptLoop ok x)"
| process_serves: "\<not> run_returns x \<Longrightarrow> session_step (prc_server x) s' \<Longrightarrow> process_step x (x\<lparr>prc_server := s'\<rparr>)"
| process_stops: "process_step x (Server_Stop x)"

inductive process_run :: "Process \<Rightarrow> Process \<Rightarrow> bool" where
  process_refl: "process_run x x"
| process_more: "process_run x y \<Longrightarrow> process_step y z \<Longrightarrow> process_run x z"

lemma process_run_trans: "process_run y z \<Longrightarrow> process_run x y \<Longrightarrow> process_run x z"
  by (induction rule: process_run.induct) (auto intro: process_more)

section \<open>The process runs the server\<close>

lemma session_step_server: "session_step s s' \<Longrightarrow> server_step s s'"
  by (induction rule: session_step.induct) (auto intro: server_step.intros)

lemma process_run_server: "process_run x y \<Longrightarrow> server_run (prc_server x) (prc_server y)"
proof (induction rule: process_run.induct)
  case (process_more x y z)
  from process_more.hyps(2) show ?case
  proof cases
    case (process_accepts acc)
    then show ?thesis using process_more.IH by (auto simp: AcceptLoop_def intro: run_step step_accept)
  next
    case (process_serves s')
    then show ?thesis using process_more.IH by (auto intro: run_step session_step_server)
  next
    case process_stops
    then show ?thesis using process_more.IH by (simp add: Server_Stop_def)
  qed
qed (rule run_refl)

text \<open>What every server policy gives for a process that was started on an initialised server.\<close>

lemma process_server_run:
  "process_run (Server_Run s) x \<Longrightarrow> server_run s (prc_server x)"
  using process_run_server [of "Server_Run s" x] by (simp add: Server_Run_def)

section \<open>After the accept loop\<close>

lemma session_step_live:
  assumes "session_step s s'" and "server_inv s" and "codes_ok s"
  shows "srv_alloc s' = srv_alloc s \<and> srv_live s' \<subseteq> srv_live s"
  using assms
proof (induction rule: session_step.induct)
  case (session_receives p s bs)
  then show ?case by (simp add: arrive_def)
next
  case (session_reads p s s')
  from session_reads(2-4,1) show ?case
    by (cases rule: ReadLoop_consumed) (auto dest: handled_frame)
next
  case (session_ends p s)
  then show ?case by (auto simp: Session_end_def Let_def LeaveRoom_frame)
qed (simp_all add: write_loop_tables)

definition process_reachable :: "Process \<Rightarrow> bool" where
  "process_reachable x \<longleftrightarrow> ids_left (prc_server x) \<and> (\<exists>cfg a b c d rng cfg'. config_ok cfg \<and>
     process_run (Server_Run (fst (Server_Init cfg a b c d (new_server rng cfg')))) x)"

lemma process_facts:
  assumes "process_reachable x"
  shows "server_inv (prc_server x)" and "codes_ok (prc_server x)" and "woken (prc_server x)"
    and "ended_closing (prc_server x)" and "ids_left (prc_server x)"
proof -
  obtain cfg a b c d rng cfg' where cfg: "config_ok cfg" and ids: "ids_left (prc_server x)"
    and "process_run (Server_Run (fst (Server_Init cfg a b c d (new_server rng cfg')))) x"
    using assms unfolding process_reachable_def by blast
  from process_server_run [OF this(3)] have srv: "server_run (fst (Server_Init cfg a b c d (new_server rng cfg'))) (prc_server x)" .
  show "server_inv (prc_server x)" "codes_ok (prc_server x)" "woken (prc_server x)"
    using wakes.reachable [OF cfg srv ids] by auto
  show "ended_closing (prc_server x)" using ended.reachable [OF cfg srv ids] by auto
  show "ids_left (prc_server x)" by (rule ids)
qed

lemma process_reachable_run:
  "process_reachable x \<Longrightarrow> process_run x y \<Longrightarrow> ids_left (prc_server y) \<Longrightarrow> process_reachable y"
  unfolding process_reachable_def using process_run_trans by blast

text \<open>Once an accept has failed, clients only ever leave.\<close>

definition drained_from :: "Process \<Rightarrow> Process \<Rightarrow> bool" where
  "drained_from x y \<longleftrightarrow> \<not> prc_accepting y \<and> srv_alloc (prc_server y) = srv_alloc (prc_server x)
     \<and> srv_live (prc_server y) \<subseteq> srv_live (prc_server x)"

lemma process_run_drained:
  assumes "process_run x y" and "process_reachable x" and "\<not> prc_accepting x"
  shows "drained_from x y"
  using assms
proof (induction rule: process_run.induct)
  case (process_more x y z)
  then have y: "drained_from x y" by blast
  have "process_reachable y"
    using process_reachable_run [OF process_more.prems(1) process_more.hyps(1)] process_facts(5) [OF process_more.prems(1)] y
    by (simp add: ids_left_def drained_from_def)
  from process_more.hyps(2) show ?case
  proof cases
    case (process_serves s')
    then show ?thesis
      using session_step_live [OF process_serves(3)] process_facts(1,2) [OF \<open>process_reachable y\<close>] y
      by (auto simp: drained_from_def)
  qed (use y in \<open>simp_all add: drained_from_def Server_Stop_def\<close>)
qed (simp add: drained_from_def)

text \<open>Every session and every write loop can end, whatever they were doing.\<close>

lemma sessions_end:
  assumes "process_reachable x" and "\<not> prc_stopped x"
  shows "\<exists>y. process_run x y \<and> process_reachable y \<and> srv_live (prc_server y) = {} \<and> \<not> prc_stopped y
     \<and> prc_accepting y = prc_accepting x"
  using assms
proof (induction "card (srv_live (prc_server x))" arbitrary: x rule: less_induct)
  case less
  let ?s = "prc_server x"
  show ?case
  proof (cases "srv_live ?s = {}")
    case False
    then obtain p where p: "p \<in> srv_live ?s" by blast
    let ?y = "x\<lparr>prc_server := Session_end p ?s\<rparr>"
    have live: "srv_live (Session_end p ?s) = srv_live ?s - {p}" by (simp add: Session_end_def Let_def LeaveRoom_frame)
    have run: "process_run x ?y"
      using p less.prems(2) by (intro process_more [OF process_refl] process_serves session_ends)
        (auto simp: run_returns_def work_left_def)
    have reach: "process_reachable ?y"
      using process_reachable_run [OF less.prems(1) run] process_facts(5) [OF less.prems(1)]
      by (simp add: ids_left_def Session_end_frame)
    have "finite (srv_live ?s)"
      using inv_live_alloc [OF process_facts(1) [OF less.prems(1)]] finite_subset [of _ "{..<srv_alloc ?s}"] by blast
    then have "card (srv_live (prc_server ?y)) < card (srv_live ?s)"
      using p card_Diff1_less [of "srv_live ?s" p] unfolding live [symmetric] by simp
    from less.hyps [OF this reach] less.prems(2) obtain z where "process_run ?y z" "process_reachable z"
      "srv_live (prc_server z) = {}" "\<not> prc_stopped z" "prc_accepting z = prc_accepting ?y" by auto
    then show ?thesis using process_run_trans [OF _ run] by auto
  qed (use less.prems process_refl in blast)
qed

definition writers :: "Server \<Rightarrow> nat set" where
  "writers s = {p. p < srv_alloc s \<and> conn_writing (srv_conns s p)}"

lemma finite_writers: "finite (writers s)"
  by (simp add: writers_def)

lemma writers_end:
  assumes "process_reachable x" and "\<not> prc_stopped x" and "srv_live (prc_server x) = {}"
  shows "\<exists>y. process_run x y \<and> process_reachable y \<and> srv_live (prc_server y) = {} \<and> \<not> prc_stopped y
     \<and> prc_accepting y = prc_accepting x \<and> writers (prc_server y) = {}"
  using assms
proof (induction "card (writers (prc_server x))" arbitrary: x rule: less_induct)
  case less
  let ?s = "prc_server x"
  show ?case
  proof (cases "writers ?s = {}")
    case False
    then obtain p where p: "p < srv_alloc ?s" "conn_writing (srv_conns ?s p)" by (auto simp: writers_def)
    let ?t = "WriteLoop_resume True p ?s"
    let ?u = "WriteLoop_turn p ?t"
    have t: "conn_writing (srv_conns ?t p)" "srv_alloc ?t = srv_alloc ?s"
      using p by (simp_all add: WriteLoop_resume_def Let_def split: option.split)
    have run: "process_run x (x\<lparr>prc_server := ?t\<rparr>)"
      using p less.prems(2) by (intro process_more [OF process_refl] process_serves session_written)
        (auto simp: run_returns_def work_left_def)
    moreover have "process_step (x\<lparr>prc_server := ?t\<rparr>) (x\<lparr>prc_server := ?u\<rparr>)"
      using process_serves [of "x\<lparr>prc_server := ?t\<rparr>" ?u] session_writes [of p ?t] t p less.prems(2)
      by (auto simp: run_returns_def work_left_def)
    ultimately have run: "process_run x (x\<lparr>prc_server := ?u\<rparr>)" (is "process_run x ?y") by (rule process_more)
    have reach: "process_reachable ?y"
      using process_reachable_run [OF less.prems(1) run] process_facts(5) [OF less.prems(1)]
      by (simp add: ids_left_def write_loop_tables)
    have "conn_closing (srv_conns ?s p)"
      using process_facts(4) [OF less.prems(1)] p less.prems(3) by (simp add: ended_closing_def)
    then have "writers ?u \<subseteq> writers ?s - {p}"
      using writer_ends [OF woken_conn [OF process_facts(3) [OF less.prems(1)]], of p True]
      by (auto simp: writers_def write_loop_tables) (metis write_loop_others)
    then have "card (writers (prc_server ?y)) < card (writers ?s)"
      using p by (intro psubset_card_mono finite_writers) (auto simp: writers_def)
    from less.hyps [OF this reach] less.prems(2,3) obtain z where "process_run ?y z" "process_reachable z"
      "srv_live (prc_server z) = {}" "\<not> prc_stopped z" "prc_accepting z = prc_accepting ?y" "writers (prc_server z) = {}"
      by (auto simp: write_loop_tables)
    then show ?thesis using process_run_trans [OF _ run] by auto
  qed (use less.prems process_refl in blast)
qed

lemma nobody_left:
  assumes "server_inv s" and "srv_live s = {}"
  shows "srv_connections s = Map.empty" and "srv_rooms s = Map.empty"
proof -
  show "srv_connections s = Map.empty"
    using inv_lookup [OF assms(1)] assms(2) by (metis empty_iff not_None_eq ext)
  have "srv_rooms s k = None" for k
  proof (cases "srv_rooms s k")
    case (Some r)
    then have "room_host r \<in> set (room_members r)" using inv_room_ok [OF assms(1) Some] by (simp add: room_ok_def)
    then show ?thesis using inv_member_connected [OF assms(1) Some] assms(2) by blast
  qed
  then show "srv_rooms s = Map.empty" by blast
qed

end
