(* ===== verification/Process_Properties.thy ===== *)
theory Process_Properties
  imports Sample Server_Process
begin

text \<open>
  The properties of the server as a process: its write loops are always woken when there is work, and what a failed
  accept does to the rest of its life.
\<close>

text \<open>C15: No wake-up is lost. In every reachable state a write loop suspended on its timer belongs to a session
  that goes on and has nothing to write; the loop of any open session can put everything queued on the socket, in order and complete;
  and the loop of an ended session ends as soon as the write it is in completes.\<close>

theorem no_lost_wakeup:
  assumes "config_ok cfg" and "server_run (fst (Server_Init cfg a b c d (new_server rng cfg'))) s"
    and "ids_left s" and "p < srv_alloc s" and "conn_writing (srv_conns s p)"
  shows "(conn_waiting (srv_conns s p) \<longrightarrow> p \<in> srv_live s \<and> conn_out (srv_conns s p) = [] \<and> conn_flight (srv_conns s p) = None)
     \<and> (p \<in> srv_live s \<longrightarrow> server_run s (set_conn p ((srv_conns s p)\<lparr>conn_flight := None, conn_out := [],
           conn_sent := stream s p\<rparr>) s))
     \<and> (p \<notin> srv_live s \<longrightarrow> \<not> conn_writing (srv_conns (WriteLoop_turn p (WriteLoop_resume written p s)) p))"
proof -
  have wake: "wake_ok (srv_conns s p)" using wakes.reachable [OF assms(1-3)] woken_conn by blast
  have closing: "conn_closing (srv_conns s p) \<longleftrightarrow> p \<notin> srv_live s"
    using sessions.reachable [OF assms(1-3)] ended.reachable [OF assms(1-3)] assms(4)
    by (auto simp: sessions_open_def ended_closing_def)
  show ?thesis
    using wake closing writer_drains [OF wake assms(5) _ assms(4)] writer_ends [OF wake, of written]
    by (auto simp: wake_ok_def)
qed

theorem no_lost_wakeup_witness:
  "server_run sample_joined (set_conn 1 ((srv_conns sample_joined 1)\<lparr>conn_flight := None, conn_out := [],
     conn_sent := stream sample_joined 1\<rparr>) sample_joined)"
  using no_lost_wakeup [OF config_ok_sample run_joined [unfolded sample_boot_def] joined_ids, of 1]
  by (simp add: joined_facts two_facts new_connection_def)

text \<open>C24: A failed accept is final. Once \<open>async_accept\<close> has failed, no run of the process ever takes another
  connection; the sessions that are left go on until they end, and when the last has ended \<open>Run\<close> returns, with no connection and no
  room left, though nothing stopped the server.\<close>

theorem failed_accept_final:
  assumes "process_reachable x" and "\<not> prc_accepting x" and "\<not> prc_stopped x"
  shows "(\<forall>y. process_run x y \<longrightarrow> srv_alloc (prc_server y) = srv_alloc (prc_server x)
       \<and> srv_live (prc_server y) \<subseteq> srv_live (prc_server x))
     \<and> (\<exists>y. process_run x y \<and> run_returns y \<and> \<not> prc_stopped y
       \<and> srv_connections (prc_server y) = Map.empty \<and> srv_rooms (prc_server y) = Map.empty)"
proof
  show "\<forall>y. process_run x y \<longrightarrow> srv_alloc (prc_server y) = srv_alloc (prc_server x)
       \<and> srv_live (prc_server y) \<subseteq> srv_live (prc_server x)"
    using process_run_drained assms by (simp add: drained_from_def)
  obtain y where y: "process_run x y" "process_reachable y" "srv_live (prc_server y) = {}" "\<not> prc_stopped y"
    "prc_accepting y = prc_accepting x"
    using sessions_end [OF assms(1,3)] by blast
  obtain z where z: "process_run y z" "process_reachable z" "srv_live (prc_server z) = {}" "\<not> prc_stopped z"
    "prc_accepting z = prc_accepting y" "writers (prc_server z) = {}"
    using writers_end [OF y(2,4,3)] by blast
  have "run_returns z" using z y(5) assms(2) by (simp add: run_returns_def work_left_def writers_def)
  then show "\<exists>y. process_run x y \<and> run_returns y \<and> \<not> prc_stopped y
       \<and> srv_connections (prc_server y) = Map.empty \<and> srv_rooms (prc_server y) = Map.empty"
    using process_run_trans [OF z(1) y(1)] z(4) nobody_left [OF process_facts(1) [OF z(2)] z(3)] by blast
qed

definition sample_process :: Process where
  "sample_process = AcceptLoop False (AcceptLoop True (Server_Run sample_boot))"

lemma sample_process_facts:
  "prc_server sample_process = AcceptLoop_turn sample_boot" "\<not> prc_accepting sample_process"
  "\<not> prc_stopped sample_process"
  by (simp_all add: sample_process_def AcceptLoop_def Server_Run_def)

lemma sample_process_reachable: "process_reachable sample_process"
proof -
  have "process_run (Server_Run sample_boot) (AcceptLoop True (Server_Run sample_boot))"
    by (intro process_more [OF process_refl] process_accepts) (simp_all add: run_returns_def work_left_def Server_Run_def)
  then have "process_run (Server_Run sample_boot) sample_process"
    unfolding sample_process_def
    by (rule process_more) (intro process_accepts, simp_all add: run_returns_def work_left_def Server_Run_def AcceptLoop_def)
  moreover have "ids_left (prc_server sample_process)"
    by (simp add: sample_process_facts ids_left_def AcceptLoop_turn_def Session_begin_def Let_def boot_facts)
  ultimately show ?thesis
    unfolding process_reachable_def sample_boot_def using config_ok_sample by blast
qed

theorem failed_accept_final_witness:
  "srv_live (prc_server sample_process) = {0}
   \<and> (\<exists>y. process_run sample_process y \<and> run_returns y \<and> srv_connections (prc_server y) = Map.empty)"
  using failed_accept_final [OF sample_process_reachable sample_process_facts(2,3)]
  by (auto simp: sample_process_facts AcceptLoop_turn_def Session_begin_def Let_def boot_facts)

end
