(* ===== verification/Marshal.thy ===== *)
theory Marshal
  imports Client
begin

text \<open>
  The events of the C interface and the conversions behind it
  (\<open>Client/include/weyvelength.h\<close>, \<open>Client/include/private/marshal.h\<close>).

  A \<open>const char*\<close> is \<open>None\<close> when null, else the characters it points to.  An optional out-parameter
  is \<open>None\<close> when the caller passes null, else the value of the variable before the
  call; the operations return its value after the call.
\<close>

section \<open>Types of the interface\<close>

text \<open>
  \<open>WeyveRoomError\<close> has nine enumerators and no fixed underlying type, so its values are those of four bits;
  converting a number beyond them is undefined.
\<close>

datatype WeyveRoomError = WeyveRoomError (weyve_error_value: u8)

definition to_WeyveRoomError :: "RoomErrorCode \<Rightarrow> WeyveRoomError option" where
  "to_WeyveRoomError code = (if error_byte code < 16 then Some (WeyveRoomError (error_byte code)) else None)"

datatype WeyveEventType =
    WEYVE_EVENT_NONE
  | WEYVE_EVENT_HEARTBEAT
  | WEYVE_EVENT_ROOM_ID_ASSIGNED
  | WEYVE_EVENT_ROOM_ERROR
  | WEYVE_EVENT_CHAT
  | WEYVE_EVENT_PEER_JOINED
  | WEYVE_EVENT_PEER_LEFT
  | WEYVE_EVENT_HOST_CHANGED
  | WEYVE_EVENT_ROOM_DATA_CHANGED
  | WEYVE_EVENT_MEMBER_DATA_CHANGED
  | WEYVE_EVENT_KICKED
  | WEYVE_EVENT_BANNED
  | WEYVE_EVENT_ROOM_ACCESS_CHANGED

text \<open>The union of the event: which member was written last, with the strings its pointers point to.\<close>

datatype WeyveEventData =
    heartbeat u64
  | room_assigned string u32
  | room_error WeyveRoomError string u32
  | chat u32 string u32
  | peer_joined u32
  | peer_left u32
  | host_changed u32
  | room_data string u32 string u32
  | member_data u32 string u32 string u32
  | room_access bool bool

record WeyveEvent =
  we_type :: WeyveEventType
  we_data :: WeyveEventData

section \<open>Conversions\<close>

definition Str :: "string option \<Rightarrow> string" where
  "Str str = (case str of None \<Rightarrow> [] | Some s \<Rightarrow> c_str s)"

definition size32 :: "'a list \<Rightarrow> u32" where
  "size32 xs = of_nat (length xs)"

definition put_out :: "u32 \<Rightarrow> u32 option \<Rightarrow> u32 option" where
  "put_out n p = map_option (\<lambda>_. n) p"

definition Bytes :: "string option \<Rightarrow> u32 option \<Rightarrow> string option \<times> u32 option" where
  "Bytes v len =
     (case v of
        None \<Rightarrow> (None, put_out 0 len)
      | Some s \<Rightarrow> (Some s, put_out (size32 s) len))"

definition KeyAt :: "(string, string) stdmap \<Rightarrow> u32 \<Rightarrow> u32 option \<Rightarrow> string option \<times> u32 option" where
  "KeyAt data index key_len =
     (if sm_size data \<le> unat index then (None, put_out 0 key_len)
      else let k = fst (data ! unat index) in (Some k, put_out (size32 k) key_len))"

datatype fill_result = Filled WeyveEvent | Not_filled | Undefined_enum

definition FillEvent :: "ServerMessage \<Rightarrow> WeyveEvent \<Rightarrow> fill_result" where
  "FillEvent msg out =
     (case msg of
        Heartbeat t \<Rightarrow> Filled (out\<lparr>we_type := WEYVE_EVENT_HEARTBEAT, we_data := heartbeat t\<rparr>)
      | AssignRoomId i \<Rightarrow>
          Filled (out\<lparr>we_type := WEYVE_EVENT_ROOM_ID_ASSIGNED, we_data := room_assigned i (size32 i)\<rparr>)
      | RoomError code ctx \<Rightarrow>
          (case to_WeyveRoomError code of
             None \<Rightarrow> Undefined_enum
           | Some e \<Rightarrow> Filled (out\<lparr>we_type := WEYVE_EVENT_ROOM_ERROR, we_data := room_error e ctx (size32 ctx)\<rparr>))
      | RoomChat f t \<Rightarrow> Filled (out\<lparr>we_type := WEYVE_EVENT_CHAT, we_data := chat f t (size32 t)\<rparr>)
      | PeerJoined i \<Rightarrow> Filled (out\<lparr>we_type := WEYVE_EVENT_PEER_JOINED, we_data := peer_joined i\<rparr>)
      | PeerLeft i \<Rightarrow> Filled (out\<lparr>we_type := WEYVE_EVENT_PEER_LEFT, we_data := peer_left i\<rparr>)
      | HostChanged i \<Rightarrow> Filled (out\<lparr>we_type := WEYVE_EVENT_HOST_CHANGED, we_data := host_changed i\<rparr>)
      | RoomDataChanged k v \<Rightarrow>
          Filled (out\<lparr>we_type := WEYVE_EVENT_ROOM_DATA_CHANGED, we_data := room_data k (size32 k) v (size32 v)\<rparr>)
      | MemberDataChanged i k v \<Rightarrow>
          Filled (out\<lparr>we_type := WEYVE_EVENT_MEMBER_DATA_CHANGED,
            we_data := member_data i k (size32 k) v (size32 v)\<rparr>)
      | KickedByHost \<Rightarrow> Filled (out\<lparr>we_type := WEYVE_EVENT_KICKED\<rparr>)
      | BannedByHost \<Rightarrow> Filled (out\<lparr>we_type := WEYVE_EVENT_BANNED\<rparr>)
      | RoomAccessChanged a b \<Rightarrow> Filled (out\<lparr>we_type := WEYVE_EVENT_ROOM_ACCESS_CHANGED, we_data := room_access a b\<rparr>)
      | _ \<Rightarrow> Not_filled)"

section \<open>Reading an event back\<close>

text \<open>What a caller reads from an event by its type, each string being the given number of bytes at its pointer.\<close>

definition at :: "string \<Rightarrow> u32 \<Rightarrow> string" where
  "at s n = take (unat n) s"

definition read_event :: "WeyveEvent \<Rightarrow> ServerMessage option" where
  "read_event e =
     (case we_type e of
        WEYVE_EVENT_NONE \<Rightarrow> None
      | WEYVE_EVENT_HEARTBEAT \<Rightarrow> (case we_data e of heartbeat t \<Rightarrow> Some (Heartbeat t) | _ \<Rightarrow> None)
      | WEYVE_EVENT_ROOM_ID_ASSIGNED \<Rightarrow>
          (case we_data e of room_assigned s n \<Rightarrow> Some (AssignRoomId (at s n)) | _ \<Rightarrow> None)
      | WEYVE_EVENT_ROOM_ERROR \<Rightarrow>
          (case we_data e of
             room_error x s n \<Rightarrow> Some (RoomError (RoomErrorCode (weyve_error_value x)) (at s n)) | _ \<Rightarrow> None)
      | WEYVE_EVENT_CHAT \<Rightarrow> (case we_data e of chat i s n \<Rightarrow> Some (RoomChat i (at s n)) | _ \<Rightarrow> None)
      | WEYVE_EVENT_PEER_JOINED \<Rightarrow> (case we_data e of peer_joined i \<Rightarrow> Some (PeerJoined i) | _ \<Rightarrow> None)
      | WEYVE_EVENT_PEER_LEFT \<Rightarrow> (case we_data e of peer_left i \<Rightarrow> Some (PeerLeft i) | _ \<Rightarrow> None)
      | WEYVE_EVENT_HOST_CHANGED \<Rightarrow> (case we_data e of host_changed i \<Rightarrow> Some (HostChanged i) | _ \<Rightarrow> None)
      | WEYVE_EVENT_ROOM_DATA_CHANGED \<Rightarrow>
          (case we_data e of room_data k n v n' \<Rightarrow> Some (RoomDataChanged (at k n) (at v n')) | _ \<Rightarrow> None)
      | WEYVE_EVENT_MEMBER_DATA_CHANGED \<Rightarrow>
          (case we_data e of member_data i k n v n' \<Rightarrow> Some (MemberDataChanged i (at k n) (at v n')) | _ \<Rightarrow> None)
      | WEYVE_EVENT_KICKED \<Rightarrow> Some KickedByHost
      | WEYVE_EVENT_BANNED \<Rightarrow> Some BannedByHost
      | WEYVE_EVENT_ROOM_ACCESS_CHANGED \<Rightarrow>
          (case we_data e of room_access a b \<Rightarrow> Some (RoomAccessChanged a b) | _ \<Rightarrow> None))"

text \<open>The messages an event exists for, and the ones whose error code the interface can express.\<close>

fun has_event :: "ServerMessage \<Rightarrow> bool" where
  "has_event (Heartbeat _) = True" | "has_event (AssignRoomId _) = True" | "has_event (RoomError _ _) = True"
| "has_event (RoomChat _ _) = True" | "has_event (PeerJoined _) = True" | "has_event (PeerLeft _) = True"
| "has_event (HostChanged _) = True" | "has_event (RoomDataChanged _ _) = True"
| "has_event (MemberDataChanged _ _ _) = True" | "has_event KickedByHost = True" | "has_event BannedByHost = True"
| "has_event (RoomAccessChanged _ _) = True" | "has_event _ = False"

fun known_error :: "ServerMessage \<Rightarrow> bool" where
  "known_error (RoomError code _) = (error_byte code < 16)"
| "known_error _ = True"

fun strings_short :: "ServerMessage \<Rightarrow> bool" where
  "strings_short (AssignRoomId s) = (length s < 2 ^ 32)"
| "strings_short (RoomError _ s) = (length s < 2 ^ 32)"
| "strings_short (RoomChat _ s) = (length s < 2 ^ 32)"
| "strings_short (RoomDataChanged k v) = (length k < 2 ^ 32 \<and> length v < 2 ^ 32)"
| "strings_short (MemberDataChanged _ k v) = (length k < 2 ^ 32 \<and> length v < 2 ^ 32)"
| "strings_short _ = True"

lemma at_size32 [simp]: "length s < 2 ^ 32 \<Longrightarrow> at s (size32 s) = s"
  by (simp add: at_def size32_def unat_of_nat take_bit_eq_mod)

lemma FillEvent_read:
  "FillEvent m out = Filled e \<Longrightarrow> strings_short m \<Longrightarrow> read_event e = Some m"
  by (cases m) (auto simp: read_event_def FillEvent_def to_WeyveRoomError_def split: if_splits)

lemma FillEvent_cases:
  "FillEvent m out = Not_filled \<longleftrightarrow> \<not> has_event m" "FillEvent m out = Undefined_enum \<longleftrightarrow> \<not> known_error m"
  by (cases m; simp add: FillEvent_def to_WeyveRoomError_def)+

end
