(* ===== verification/C_Api.thy ===== *)
theory C_Api
  imports Marshal
begin

text \<open>
  The C interface (\<open>Client/src/weyvelength.cpp\<close>): one function per entry point on the handle, which is a
  client with the scratch storage behind the pointers handed out last.
  Conventions for strings and out-parameters are those of \<open>Marshal\<close>.
\<close>

record WeyveClient =
  wc_client :: Client
  wc_event :: ServerMessage
  wc_p2p :: P2PMessage

section \<open>Accessors of the client\<close>

definition Client_Id :: "Client \<Rightarrow> u32" where "Client_Id c = cl_id c"

definition RoomId :: "Client \<Rightarrow> string" where "RoomId c = cl_room c"

definition HostId :: "Client \<Rightarrow> u32" where "HostId c = cl_host c"

definition RoomJoinable :: "Client \<Rightarrow> bool" where "RoomJoinable c = cl_room_open c"

definition RoomPassworded :: "Client \<Rightarrow> bool" where "RoomPassworded c = cl_room_passworded c"

definition Members :: "Client \<Rightarrow> u32 list" where "Members c = cl_members c"

definition RoomDataMap :: "Client \<Rightarrow> (string, string) stdmap" where "RoomDataMap c = cl_data c"

section \<open>Lifecycle\<close>

text \<open>The client's constructor, with a value-initialised first alternative as the scratch message.\<close>

definition weyve_client_create :: WeyveClient where
  "weyve_client_create = \<lparr>wc_client = new_client, wc_event = Heartbeat 0, wc_p2p = []\<rparr>"

definition on_client :: "(Client \<Rightarrow> Client) \<Rightarrow> WeyveClient \<Rightarrow> WeyveClient" where
  "on_client f w = w\<lparr>wc_client := f (wc_client w)\<rparr>"

definition weyve_client_destroy :: "WeyveClient option \<Rightarrow> WeyveClient option" where
  "weyve_client_destroy w = map_option (on_client destroy_client) w"

record ClientConfig =
  cc_host :: string
  cc_port :: u16

text \<open>\<open>net\<close> is what resolving and connecting do for a configuration.\<close>

definition weyve_connect ::
  "(ClientConfig \<Rightarrow> connect_outcome) \<Rightarrow> string option \<Rightarrow> u16 \<Rightarrow> WeyveClient \<Rightarrow> WeyveClient \<times> bool" where
  "weyve_connect net host port w =
     (let config = \<lparr>cc_host = ''127.0.0.1'', cc_port = 0\<rparr>;
          config = (case host of None \<Rightarrow> config | Some h \<Rightarrow> config\<lparr>cc_host := c_str h\<rparr>);
          config = config\<lparr>cc_port := port\<rparr>;
          (c, ok) = Connect (net config) (wc_client w)
      in (w\<lparr>wc_client := c\<rparr>, ok))"

definition weyve_poll ::
  "juice_api \<Rightarrow> socket_result list \<Rightarrow> socket_result list \<Rightarrow> WeyveClient \<Rightarrow> (WeyveClient \<times> bytes \<times> bool) option" where
  "weyve_poll J reads writes w =
     map_option (\<lambda>(c, sent, ok). (w\<lparr>wc_client := c\<rparr>, sent, ok)) (Poll J reads writes (wc_client w))"

text \<open>
  The loop pulls messages until one has an event.  The result is the handle, the caller's event and
  the return value; \<open>None\<close> is the undefined conversion of an error code.
\<close>

function weyve_next :: "WeyveClient \<Rightarrow> WeyveEvent \<Rightarrow> (WeyveClient \<times> WeyveEvent \<times> bool) option" where
  "weyve_next w out =
     (case Client_Next (wc_client w) of
        (c, None) \<Rightarrow> Some (w\<lparr>wc_client := c\<rparr>, out, False)
      | (c, Some m) \<Rightarrow>
          (case FillEvent m out of
             Filled e \<Rightarrow> Some (w\<lparr>wc_client := c, wc_event := m\<rparr>, e, True)
           | Not_filled \<Rightarrow> weyve_next (w\<lparr>wc_client := c, wc_event := m\<rparr>) out
           | Undefined_enum \<Rightarrow> None))"
  by pat_completeness auto
termination
  by (relation "measure (\<lambda>(w, out). length (cl_inbox (wc_client w)))")
    (auto simp: Client_Next_def split: list.splits)

declare weyve_next.simps [simp del]

definition weyve_send_heartbeat :: "u64 \<Rightarrow> WeyveClient \<Rightarrow> WeyveClient \<times> bool" where
  "weyve_send_heartbeat t w = (on_client (SendServer (Heartbeat t)) w, True)"

section \<open>Rooms\<close>

text \<open>Queueing a request always succeeds.\<close>

definition weyve_create_room :: "WeyveClient \<Rightarrow> WeyveClient \<times> bool" where
  "weyve_create_room w = (on_client Client_CreateRoom w, True)"

definition weyve_join_room :: "string option \<Rightarrow> string option \<Rightarrow> WeyveClient \<Rightarrow> WeyveClient \<times> bool" where
  "weyve_join_room i password w = (on_client (Client_JoinRoom (Str i) (Str password)) w, True)"

definition weyve_leave_room :: "WeyveClient \<Rightarrow> WeyveClient \<times> bool" where
  "weyve_leave_room w = (on_client Client_LeaveRoom w, True)"

definition weyve_kick_member :: "u32 \<Rightarrow> WeyveClient \<Rightarrow> WeyveClient \<times> bool" where
  "weyve_kick_member i w = (on_client (Client_KickMember i) w, True)"

definition weyve_ban_member :: "u32 \<Rightarrow> WeyveClient \<Rightarrow> WeyveClient \<times> bool" where
  "weyve_ban_member i w = (on_client (Client_BanMember i) w, True)"

definition weyve_transfer_host :: "u32 \<Rightarrow> WeyveClient \<Rightarrow> WeyveClient \<times> bool" where
  "weyve_transfer_host i w = (on_client (Client_TransferHost i) w, True)"

definition weyve_set_room_joinable :: "bool \<Rightarrow> WeyveClient \<Rightarrow> WeyveClient \<times> bool" where
  "weyve_set_room_joinable b w = (on_client (Client_SetRoomJoinable b) w, True)"

definition weyve_set_room_password :: "string option \<Rightarrow> WeyveClient \<Rightarrow> WeyveClient \<times> bool" where
  "weyve_set_room_password password w = (on_client (Client_SetRoomPassword (Str password)) w, True)"

definition weyve_send_chat :: "string option \<Rightarrow> WeyveClient \<Rightarrow> WeyveClient \<times> bool" where
  "weyve_send_chat t w = (on_client (SendChat (Str t)) w, True)"

definition weyve_set_room_data :: "string option \<Rightarrow> string option \<Rightarrow> WeyveClient \<Rightarrow> WeyveClient \<times> bool" where
  "weyve_set_room_data key v w = (on_client (Client_SetRoomData (Str key) (Str v)) w, True)"

definition weyve_delete_room_data :: "string option \<Rightarrow> WeyveClient \<Rightarrow> WeyveClient \<times> bool" where
  "weyve_delete_room_data key w = (on_client (DeleteRoomData (Str key)) w, True)"

definition weyve_set_member_data :: "string option \<Rightarrow> string option \<Rightarrow> WeyveClient \<Rightarrow> WeyveClient \<times> bool" where
  "weyve_set_member_data key v w = (on_client (Client_SetMemberData (Str key) (Str v)) w, True)"

definition weyve_delete_member_data :: "string option \<Rightarrow> WeyveClient \<Rightarrow> WeyveClient \<times> bool" where
  "weyve_delete_member_data key w = (on_client (DeleteMemberData (Str key)) w, True)"

section \<open>Peer to peer\<close>

text \<open>\<open>data\<close> is the memory from the pointer on, at least \<open>len\<close> bytes of it.\<close>

definition weyve_send_p2p :: "juice_api \<Rightarrow> u32 \<Rightarrow> bytes \<Rightarrow> u32 \<Rightarrow> WeyveClient \<Rightarrow> WeyveClient \<times> bool" where
  "weyve_send_p2p J i data len w =
     (let (c, ok) = SendP2P J i (take (unat len) data) (wc_client w) in (w\<lparr>wc_client := c\<rparr>, ok))"

text \<open>
  The pointer to a vector's elements: of an empty vector it may be null, which is the library's choice
  (\<open>null\<close>).  The caller of \<open>weyve_next_p2p\<close> gets this pointer, or null when nothing is queued.
\<close>

definition vector_data :: "bool \<Rightarrow> bytes \<Rightarrow> bytes option" where
  "vector_data null d = (if d = [] \<and> null then None else Some d)"

definition weyve_next_p2p ::
  "bool \<Rightarrow> u32 option \<Rightarrow> u32 option \<Rightarrow> WeyveClient \<Rightarrow> WeyveClient \<times> bytes option \<times> u32 option \<times> u32 option" where
  "weyve_next_p2p null from' len w =
     (case NextP2P (wc_client w) of
        (c, None) \<Rightarrow> (w\<lparr>wc_client := c\<rparr>, None, from', len)
      | (c, Some (sender, d)) \<Rightarrow>
          (w\<lparr>wc_client := c, wc_p2p := d\<rparr>, vector_data null d, put_out sender from', put_out (size32 d) len))"

definition weyve_peer_connected :: "u32 \<Rightarrow> WeyveClient \<Rightarrow> bool" where
  "weyve_peer_connected i w = PeerConnectedP2P i (wc_client w)"

section \<open>Cached room state\<close>

definition weyve_id :: "WeyveClient \<Rightarrow> u32" where "weyve_id w = Client_Id (wc_client w)"

definition weyve_host_id :: "WeyveClient \<Rightarrow> u32" where "weyve_host_id w = HostId (wc_client w)"

definition weyve_is_host :: "WeyveClient \<Rightarrow> bool" where "weyve_is_host w = IsHost (wc_client w)"

definition weyve_room_joinable :: "WeyveClient \<Rightarrow> bool" where "weyve_room_joinable w = RoomJoinable (wc_client w)"

definition weyve_room_passworded :: "WeyveClient \<Rightarrow> bool" where
  "weyve_room_passworded w = RoomPassworded (wc_client w)"

definition weyve_room_id :: "u32 option \<Rightarrow> WeyveClient \<Rightarrow> string \<times> u32 option" where
  "weyve_room_id len w = (let room = RoomId (wc_client w) in (room, put_out (size32 room) len))"

definition weyve_members :: "u32 option \<Rightarrow> WeyveClient \<Rightarrow> u32 list \<times> u32 option" where
  "weyve_members count w = (let members = Members (wc_client w) in (members, put_out (size32 members) count))"

definition weyve_room_data :: "string option \<Rightarrow> u32 option \<Rightarrow> WeyveClient \<Rightarrow> string option \<times> u32 option" where
  "weyve_room_data key value_len w = Bytes (RoomData (Str key) (wc_client w)) value_len"

definition weyve_room_data_count :: "WeyveClient \<Rightarrow> u32" where
  "weyve_room_data_count w = of_nat (sm_size (RoomDataMap (wc_client w)))"

definition weyve_room_data_key_at :: "u32 \<Rightarrow> u32 option \<Rightarrow> WeyveClient \<Rightarrow> string option \<times> u32 option" where
  "weyve_room_data_key_at index key_len w = KeyAt (RoomDataMap (wc_client w)) index key_len"

definition weyve_member_data ::
  "u32 \<Rightarrow> string option \<Rightarrow> u32 option \<Rightarrow> WeyveClient \<Rightarrow> string option \<times> u32 option" where
  "weyve_member_data i key value_len w = Bytes (MemberData i (Str key) (wc_client w)) value_len"

definition weyve_member_data_count :: "u32 \<Rightarrow> WeyveClient \<Rightarrow> u32" where
  "weyve_member_data_count i w =
     (case MemberDataMap i (wc_client w) of None \<Rightarrow> 0 | Some data \<Rightarrow> of_nat (sm_size data))"

definition weyve_member_data_key_at :: "u32 \<Rightarrow> u32 \<Rightarrow> u32 option \<Rightarrow> WeyveClient \<Rightarrow> string option \<times> u32 option" where
  "weyve_member_data_key_at i index key_len w =
     (case MemberDataMap i (wc_client w) of
        None \<Rightarrow> (None, put_out 0 key_len)
      | Some data \<Rightarrow> KeyAt data index key_len)"

end
