(* ===== verification/Api_Properties.thy ===== *)
theory Api_Properties
  imports C_Api Client_Properties Client_Life
begin

text \<open>
  The properties of the C interface: an event carries everything its message does, \<open>weyve_next\<close> hands out
  every message that has an event and always returns, and walking the metadata by index and key gives the cached
  maps.
\<close>

section \<open>Walking a map through the interface\<close>

text \<open>
  What the room-data and the member-data functions share: a count, keys by index and values by key of the
  same map, each handed out as a pointer and, through the out-parameter, a length.  What a caller has then is
  \<open>borrowed\<close>: the given number of bytes at the pointer, and no value at all when the pointer is null, when no length was
  set, or when the range leaves the string.  The caller's loop is \<open>walk\<close>: a length variable that is
  zero before each call, the key as the bytes of its range, the lookup by that key.
\<close>

definition borrowed :: "string option \<times> u32 option \<Rightarrow> string option" where
  "borrowed r =
     (case r of
        (Some s, Some n) \<Rightarrow> if unat n \<le> length s then Some (at s n) else None
      | _ \<Rightarrow> None)"

definition walk :: "u32 \<Rightarrow> (u32 \<Rightarrow> u32 option \<Rightarrow> string option \<times> u32 option) \<Rightarrow>
    (string option \<Rightarrow> u32 option \<Rightarrow> string option \<times> u32 option) \<Rightarrow> (string option \<times> string option) list" where
  "walk count key_at lookup =
     map (\<lambda>n. let k = borrowed (key_at (of_nat n) (Some 0)) in (k, borrowed (lookup k (Some 0)))) [0 ..< unat count]"

lemma borrowed_whole [simp]: "length s < 2 ^ 32 \<Longrightarrow> borrowed (Some s, Some (size32 s)) = Some s"
  by (simp add: borrowed_def) (simp add: size32_def unat_of_nat take_bit_eq_mod)

locale map_window =
  fixes contents :: "(string, string) stdmap" and count :: u32
    and key_at :: "u32 \<Rightarrow> u32 option \<Rightarrow> string option \<times> u32 option"
    and lookup :: "string option \<Rightarrow> u32 option \<Rightarrow> string option \<times> u32 option"
  assumes count: "count = of_nat (sm_size contents)"
    and key_at: "key_at n len = KeyAt contents n len"
    and lookup: "lookup k len = Bytes (sm_find contents (Str k)) len"
begin

lemma walk_contents:
  assumes wf: "sm_wf contents" and small: "sm_size contents < 2 ^ 32"
    and entries: "\<forall>(k, v) \<in> set contents. CHR 0x00 \<notin> set k \<and> length k < 2 ^ 32 \<and> length v < 2 ^ 32"
  shows "walk count key_at lookup = map (\<lambda>(k, v). (Some k, Some v)) contents"
proof -
  have n: "unat (of_nat n :: u32) = n" if "n \<le> sm_size contents" for n
    using that small by (simp add: unat_of_nat take_bit_eq_mod)
  have val: "borrowed (lookup (Some (fst p)) (Some 0)) = Some (snd p)" and key: "length (fst p) < 2 ^ 32"
    if "p \<in> set contents" for p
  proof -
    have p: "CHR 0x00 \<notin> set (fst p)" "length (snd p) < 2 ^ 32" and "length (fst p) < 2 ^ 32" using entries that by auto
    then show "length (fst p) < 2 ^ 32" by simp
    have "c_str (fst p) = fst p" using p(1) by (auto simp: c_str_def takeWhile_eq_all_conv)
    moreover have "sm_find contents (fst p) = Some (snd p)" using that by (simp add: sm_find_iff [OF wf])
    ultimately show "borrowed (lookup (Some (fst p)) (Some 0)) = Some (snd p)"
      using p(2) by (simp add: lookup Str_def Bytes_def put_out_def)
  qed
  have "walk count key_at lookup ! n = map (\<lambda>(k, v). (Some k, Some v)) contents ! n" if "n < sm_size contents" for n
    using that val [of "contents ! n"] key [of "contents ! n"] n [of n] n [of "sm_size contents"]
    by (simp add: walk_def count key_at KeyAt_def put_out_def Let_def sm_size_def case_prod_unfold)
  moreover have "length (walk count key_at lookup) = sm_size contents" using n by (simp add: walk_def count)
  ultimately show ?thesis by (intro nth_equalityI) (simp_all add: sm_size_def)
qed

end

interpretation room_window:
  map_window "cl_data (wc_client w)" "weyve_room_data_count w" "\<lambda>n len. weyve_room_data_key_at n len w"
    "\<lambda>k len. weyve_room_data k len w" for w
  by unfold_locales
    (simp_all add: weyve_room_data_count_def weyve_room_data_key_at_def weyve_room_data_def RoomDataMap_def RoomData_def)

definition cached_member_map :: "u32 \<Rightarrow> WeyveClient \<Rightarrow> (string, string) stdmap" where
  "cached_member_map i w = (case sm_find (cl_member_data (wc_client w)) i of None \<Rightarrow> [] | Some d \<Rightarrow> d)"

interpretation member_window:
  map_window "cached_member_map i w" "weyve_member_data_count i w" "\<lambda>n len. weyve_member_data_key_at i n len w"
    "\<lambda>k len. weyve_member_data i k len w" for i w
  by unfold_locales
    (simp_all add: weyve_member_data_count_def weyve_member_data_key_at_def weyve_member_data_def cached_member_map_def
      MemberDataMap_def MemberData_def KeyAt_def sm_size_def split: option.split)

section \<open>Pulling events\<close>

lemma weyve_next_spec:
  assumes "\<forall>m \<in> set (cl_inbox (wc_client w)). known_error m"
  shows "\<exists>w' e b. weyve_next w out = Some (w', e, b)
     \<and> (case dropWhile (\<lambda>m. \<not> has_event m) (cl_inbox (wc_client w)) of
          [] \<Rightarrow> \<not> b \<and> e = out \<and> cl_inbox (wc_client w') = []
        | m # ms \<Rightarrow> b \<and> FillEvent m out = Filled e \<and> wc_event w' = m \<and> cl_inbox (wc_client w') = ms)"
  using assms
proof (induction w out rule: weyve_next.induct)
  case (1 w out)
  show ?case
  proof (cases "cl_inbox (wc_client w)")
    case Nil
    then have "weyve_next w out = Some (w, out, False)" by (simp add: weyve_next.simps [of w] Client_Next_def)
    then show ?thesis using Nil by auto
  next
    case (Cons m ms)
    let ?c = "(wc_client w)\<lparr>cl_inbox := ms\<rparr>"
    have pull: "Client_Next (wc_client w) = (?c, Some m)" using Cons by (simp add: Client_Next_def)
    have defined: "FillEvent m out \<noteq> Undefined_enum" using "1.prems" Cons by (simp add: FillEvent_cases)
    show ?thesis
    proof (cases "has_event m")
      case True
      then have "FillEvent m out \<noteq> Not_filled" by (simp add: FillEvent_cases)
      with defined obtain e where "FillEvent m out = Filled e" by (cases "FillEvent m out") auto
      then show ?thesis using Cons True pull by (auto simp: weyve_next.simps [of w])
    next
      case False
      then have skip: "FillEvent m out = Not_filled" by (simp add: FillEvent_cases)
      from "1.IH" [OF pull [symmetric] refl skip] "1.prems" show ?thesis
        using Cons False pull skip by (simp add: weyve_next.simps [of w])
    qed
  qed
qed

lemma weyve_next_shorter:
  "weyve_next w out = Some (w', e, True) \<Longrightarrow> length (cl_inbox (wc_client w')) < length (cl_inbox (wc_client w))"
proof (induction w out rule: weyve_next.induct)
  case (1 w out)
  show ?case
  proof (cases "cl_inbox (wc_client w)")
    case Nil
    then show ?thesis using "1.prems" by (simp add: weyve_next.simps [of w] Client_Next_def)
  next
    case (Cons m ms)
    then have pull: "Client_Next (wc_client w) = ((wc_client w)\<lparr>cl_inbox := ms\<rparr>, Some m)"
      by (simp add: Client_Next_def)
    show ?thesis
      using "1.IH" [OF pull [symmetric] refl] "1.prems" Cons pull
      by (cases "FillEvent m out") (auto simp: weyve_next.simps [of w])
  qed
qed

lemma weyve_next_cases:
  assumes "\<forall>m \<in> set (cl_inbox (wc_client w)). known_error m \<and> strings_short m"
  obtains (none) w' where "weyve_next w out = Some (w', out, False)" and "\<forall>m \<in> set (cl_inbox (wc_client w)). \<not> has_event m"
  | (event) w' e silent m ms where "weyve_next w out = Some (w', e, True)" and "read_event e = Some m" and "has_event m"
      and "cl_inbox (wc_client w) = silent @ m # ms" and "\<forall>m \<in> set silent. \<not> has_event m"
      and "cl_inbox (wc_client w') = ms" and "\<forall>m \<in> set (cl_inbox (wc_client w')). known_error m \<and> strings_short m"
proof -
  let ?inbox = "cl_inbox (wc_client w)"
  let ?rest = "dropWhile (\<lambda>m. \<not> has_event m) ?inbox"
  have "\<forall>m \<in> set ?inbox. known_error m" using assms by blast
  from weyve_next_spec [OF this, of out] obtain w' e b where pull: "weyve_next w out = Some (w', e, b)"
    and spec: "case ?rest of [] \<Rightarrow> \<not> b \<and> e = out \<and> cl_inbox (wc_client w') = []
        | m # ms \<Rightarrow> b \<and> FillEvent m out = Filled e \<and> wc_event w' = m \<and> cl_inbox (wc_client w') = ms"
    by blast
  show ?thesis
  proof (cases ?rest)
    case Nil
    have "\<not> b \<and> e = out" using spec unfolding Nil by simp
    then show ?thesis using none pull Nil by simp
  next
    case (Cons m ms)
    have inbox: "?inbox = takeWhile (\<lambda>m. \<not> has_event m) ?inbox @ m # ms" unfolding Cons [symmetric] by simp
    then have sub: "set (m # ms) \<subseteq> set ?inbox" by (metis set_append sup_ge2)
    have b: b and fill: "FillEvent m out = Filled e" and ms: "cl_inbox (wc_client w') = ms" using spec Cons by simp_all
    have read: "read_event e = Some m" using FillEvent_read [OF fill] assms sub by auto
    have has: "has_event m" using FillEvent_cases(1) [of m out] fill by simp
    have silent: "\<forall>m \<in> set (takeWhile (\<lambda>m. \<not> has_event m) ?inbox). \<not> has_event m" by (auto dest: set_takeWhileD)
    have "\<forall>m \<in> set (cl_inbox (wc_client w')). known_error m \<and> strings_short m" using assms sub ms by auto
    with pull b show ?thesis by (intro event [OF _ read has inbox silent ms]) simp_all
  qed
qed

text \<open>The caller's loop, reusing one event variable; the events as they were after each call.\<close>

function pull_events :: "WeyveClient \<Rightarrow> WeyveEvent \<Rightarrow> WeyveEvent list option" where
  "pull_events w out =
     (case weyve_next w out of
        None \<Rightarrow> None
      | Some (w', e, b) \<Rightarrow> if b then map_option ((#) e) (pull_events w' e) else Some [])"
  by pat_completeness auto
termination
  by (relation "measure (\<lambda>(w, out). length (cl_inbox (wc_client w)))") (auto dest: weyve_next_shorter)

declare pull_events.simps [simp del]

lemma pull_events_inbox:
  assumes "\<forall>m \<in> set (cl_inbox (wc_client w)). known_error m \<and> strings_short m"
  shows "\<exists>es. pull_events w out = Some es
     \<and> map read_event es = map Some (filter has_event (cl_inbox (wc_client w)))"
  using assms
proof (induction w out rule: pull_events.induct)
  case (1 w out)
  from "1.prems" show ?case
  proof (cases rule: weyve_next_cases [where w = w and out = out])
    case (none w')
    then show ?thesis by (simp add: pull_events.simps [of w] filter_empty_conv [THEN iffD2])
  next
    case (event w' e silent m ms)
    obtain es where "pull_events w' e = Some es" "map read_event es = map Some (filter has_event ms)"
      using "1.IH" [OF event(1) refl refl TrueI] event(6,7) by auto
    then show ?thesis using event by (simp add: pull_events.simps [of w] filter_empty_conv [THEN iffD2])
  qed
qed

lemma has_event_surfaced: "has_event m \<Longrightarrow> surfaced m"
  by (cases m) simp_all

lemma sendable_event:
  "sendable m \<Longrightarrow> known_error m \<and> (has_event m \<longleftrightarrow> surfaced m)"
  by (cases m) (auto intro: le_less_trans)

lemma fits_strings_short: "fits m \<Longrightarrow> strings_short m"
  by (cases m) (auto simp: fits_def length_message_bytes wire)

text \<open>A client that receives a stream of framed messages in one poll.\<close>

lemma stream_client:
  assumes "list_all fits ms"
  shows "\<exists>c. client_run J (new_client\<lparr>cl_open := True\<rparr>) (concat (map FrameMessage ms)) [] c \<and> cl_open c
     \<and> cache_of c = observe_all ms (lobby_view 0)"
proof -
  let ?c = "new_client\<lparr>cl_open := True\<rparr>" and ?reads = "[Transferred (concat (map FrameMessage ms))]"
  have parse: "parse_stream [] (concat (map FrameMessage ms)) = Some (ms, [], [])" by (rule parse_frames [OF assms])
  have "tracks [] [] ?c" using client_run_tracks [OF client_refl refl] by simp
  from Poll_stays_open [OF _ this, of ?reads "[]" J] parse
  obtain c sent where poll: "Poll J ?reads [] ?c = Some (c, sent, True)" "cl_open c" by auto
  then have run: "client_run J ?c (concat (map FrameMessage ms)) [] c"
    using client_more [OF client_refl cs_poll [OF _ poll(1)]] by simp
  then show ?thesis using client_run_tracks [OF run refl poll(2)] parse poll(2) by (auto simp: tracks_def)
qed

section \<open>Properties\<close>

text \<open>C17: Events lose nothing. For every message that has an event, filling succeeds whatever the caller's
  variable held before, and reading the event by its type, each string as the given number of bytes at its pointer,
  gives the message back; other messages, and only they, have no event.\<close>

theorem event_roundtrip:
  assumes "known_error m" and "strings_short m"
  shows "if has_event m then \<exists>e. FillEvent m out = Filled e \<and> read_event e = Some m else FillEvent m out = Not_filled"
proof (cases "FillEvent m out")
  case (Filled e)
  then show ?thesis using FillEvent_read [OF Filled assms(2)] FillEvent_cases(1) [of m out] by simp
qed (use assms FillEvent_cases [of m out] in auto)

theorem event_roundtrip_witness:
  "\<exists>e. FillEvent (MemberDataChanged 3 ''name'' ''ann'') \<lparr>we_type = WEYVE_EVENT_NONE, we_data = heartbeat 0\<rparr> = Filled e
     \<and> read_event e = Some (MemberDataChanged 3 ''name'' ''ann'')"
  using event_roundtrip [of "MemberDataChanged 3 ''name'' ''ann''"] by simp

text \<open>The C interface hands out the server's messages. When the bytes received so far are a prefix of
  framed messages with known error codes, calling \<open>weyve_next\<close> until it returns false ends, is free of undefined
  conversions, and the events read back as exactly the messages with an event among those received, in order; the
  whole stream gives all of them.\<close>

lemma api_hands_out_stream:
  assumes "list_all fits ms" and "list_all known_error ms" and "concat (map FrameMessage ms) = bs @ more'"
    and "client_run J (new_client\<lparr>cl_open := True\<rparr>) bs [] (wc_client w)" and "cl_open (wc_client w)"
  shows "\<exists>n es. pull_events w out = Some es \<and> map read_event es = map Some (filter has_event (take n ms))
     \<and> (more' = [] \<longrightarrow> n = length ms)"
proof -
  obtain ns where ns: "parse_stream [] bs = Some (ns, cl_rx_msg (wc_client w), cl_rx (wc_client w))"
    "cl_inbox (wc_client w) = filter surfaced ns"
    using client_run_tracks [OF assms(4) refl assms(5)] by (auto simp: tracks_def)
  have whole: "parse_stream [] (bs @ more') = Some (ms, [], [])"
    using parse_frames [OF assms(1)] assms(3) by simp
  then obtain later where ms: "ms = ns @ later" using parse_append [OF ns(1), of more'] by auto
  have all: "more' = [] \<longrightarrow> ms = ns" using whole ns(1) by auto
  have "\<forall>m \<in> set (cl_inbox (wc_client w)). known_error m \<and> strings_short m"
    using assms(1,2) ms by (auto simp: ns(2) list_all_iff fits_strings_short)
  from pull_events_inbox [OF this, of out] obtain es where "pull_events w out = Some es"
    "map read_event es = map Some (filter has_event (filter surfaced ns))"
    by (auto simp: ns(2))
  moreover have "filter has_event (filter surfaced ns) = filter has_event ns"
    by (auto simp: has_event_surfaced intro: filter_cong)
  ultimately show ?thesis using ms all by (intro exI [of _ "length ns"]) auto
qed

text \<open>C36: Walking the metadata is complete. At any moment of a client's life, asking for the count, each key by index and
  the value of each key, and reading of each exactly the reported number of bytes, yields the cached room data, and for
  every member the cached data of that member, entry by entry in key order, as long as no key contains a null character and
  counts and lengths fit 32 bits.\<close>

theorem metadata_walk_complete:
  assumes "client_life J (wc_client w)"
    and "sm_size (cl_data (wc_client w)) < 2 ^ 32" and "sm_size (cached_member_map i w) < 2 ^ 32"
    and "\<forall>(k, v) \<in> set (cl_data (wc_client w)) \<union> set (cached_member_map i w).
           CHR 0x00 \<notin> set k \<and> length k < 2 ^ 32 \<and> length v < 2 ^ 32"
  shows "walk (weyve_room_data_count w) (\<lambda>n len. weyve_room_data_key_at n len w) (\<lambda>k len. weyve_room_data k len w)
       = map (\<lambda>(k, v). (Some k, Some v)) (cl_data (wc_client w))
     \<and> walk (weyve_member_data_count i w) (\<lambda>n len. weyve_member_data_key_at i n len w)
         (\<lambda>k len. weyve_member_data i k len w)
       = map (\<lambda>(k, v). (Some k, Some v)) (cached_member_map i w)"
proof -
  have ok: "maps_ok (cache_of (wc_client w))" by (rule client_life_maps [OF assms(1)])
  then have room: "sm_wf (cl_data (wc_client w))" by (simp add: maps_ok_def entries_ok_def cache_of_def)
  have member: "sm_wf (cached_member_map i w)"
    using ok sm_find_in
    by (fastforce simp: maps_ok_def entries_ok_def cache_of_def cached_member_map_def split: option.split)
  show ?thesis
    using room_window.walk_contents [OF room assms(2)] member_window.walk_contents [OF member assms(3)] assms(4)
    by blast
qed

theorem metadata_walk_complete_witness:
  "\<exists>w. walk (weyve_room_data_count w) (\<lambda>n len. weyve_room_data_key_at n len w) (\<lambda>k len. weyve_room_data k len w)
     = [(Some ''map'', Some ''desert''), (Some ''mode'', Some ''duel'')]"
proof -
  let ?ms = "[AssignRoomId ''ABCD'', RoomDataChanged ''mode'' ''duel'', RoomDataChanged ''map'' ''desert'']"
  have fits: "list_all fits ?ms" by (simp add: fits_def length_message_bytes wire)
  obtain c where c: "client_run sample_juice (new_client\<lparr>cl_open := True\<rparr>) (concat (map FrameMessage ?ms)) [] c"
    "cl_open c" "cache_of c = observe_all ?ms (lobby_view 0)"
    using stream_client [OF fits] by blast
  have data: "cl_data c = [(''map'', ''desert''), (''mode'', ''duel'')]" "cl_member_data c = []"
    using c(3) by (simp_all add: cache_of_def lobby_view_def data_write_def sm_put_def)
  let ?w = "weyve_client_create\<lparr>wc_client := c\<rparr>"
  have "walk (weyve_room_data_count ?w) (\<lambda>n len. weyve_room_data_key_at n len ?w) (\<lambda>k len. weyve_room_data k len ?w)
      = map (\<lambda>(k, v). (Some k, Some v)) (cl_data c)"
    using metadata_walk_complete [of sample_juice ?w 0] client_run_life [OF c(1) connected_life] data
    by (simp add: cached_member_map_def sm_size_def)
  then show ?thesis using data by auto
qed

text \<open>A key with a null character is listed but cannot be asked for. The interface shows such a key when
  keys are walked by index, yet no string argument denotes it: a lookup answers with the value of another key
  or with null.\<close>

lemma null_key_unreachable:
  assumes "sm_find (cl_data (wc_client w)) k = Some v" and "sm_wf (cl_data (wc_client w))"
    and "sm_size (cl_data (wc_client w)) < 2 ^ 32" and "CHR 0x00 \<in> set k"
  shows "(\<exists>n. fst (weyve_room_data_key_at n None w) = Some k)
     \<and> (\<forall>arg. Str arg \<noteq> k \<and> fst (weyve_room_data arg None w) = ((sm_find (cl_data (wc_client w)))(k := None)) (Str arg))"
proof -
  let ?d = "cl_data (wc_client w)"
  have "(k, v) \<in> set ?d" using assms(1) by (simp add: sm_find_iff [OF assms(2)])
  then obtain n where n: "n < sm_size ?d" "?d ! n = (k, v)" by (auto simp: in_set_conv_nth sm_size_def)
  have "unat (of_nat n :: u32) = n" using n(1) assms(3) by (simp add: unat_of_nat take_bit_eq_mod)
  then have listed: "fst (weyve_room_data_key_at (of_nat n) None w) = Some k"
    using n by (simp add: weyve_room_data_key_at_def RoomDataMap_def KeyAt_def)
  have "Str arg \<noteq> k" for arg
    using assms(4) by (auto simp: Str_def c_str_def split: option.splits dest: set_takeWhileD)
  moreover have "fst (weyve_room_data arg None w) = sm_find ?d (Str arg)" for arg
    by (simp add: weyve_room_data_def RoomData_def Bytes_def split: option.split)
  ultimately show ?thesis using listed by auto
qed

end
