(* ===== verification/Example_Client.thy ===== *)
theory Example_Client
  imports Api_Properties "HOL-Library.Signed_Division"
begin

text \<open>
  The example program (\<open>ClientExample/src/test.cpp\<close>), the one caller of the C interface in the repository: the
  commands a user types, the reaction to events, and one turn of the chat and of the ping loop.  What it prints is the list of the
  strings it writes, ends of line apart.  Typed lines are a queue, the clock is a sequence of readings, and sleeping is left out.
\<close>

section \<open>Numbers and words\<close>

definition char_code :: "char \<Rightarrow> nat" where
  "char_code c = of_char c"

definition isspace :: "char \<Rightarrow> bool" where
  "isspace c \<longleftrightarrow> char_code c = 32 \<or> (9 \<le> char_code c \<and> char_code c \<le> 13)"

definition isdigit :: "char \<Rightarrow> bool" where
  "isdigit c \<longleftrightarrow> 48 \<le> char_code c \<and> char_code c \<le> 57"

definition digits_value :: "string \<Rightarrow> nat" where
  "digits_value ds = foldl (\<lambda>a c. 10 * a + (char_code c - 48)) 0 ds"

text \<open>
  \<open>std::strtoul\<close> in base 10 for an \<open>unsigned long\<close> of \<open>n\<close> bits: white space, a sign, the longest run of digits;
  beyond the range the largest value, and a minus sign negates in the type.
\<close>

definition strtoul :: "nat \<Rightarrow> string \<Rightarrow> nat" where
  "strtoul n str =
     (let s = dropWhile isspace str;
          neg = (s \<noteq> [] \<and> hd s = CHR ''-'');
          s = (if s \<noteq> [] \<and> (hd s = CHR ''-'' \<or> hd s = CHR ''+'') then tl s else s);
          v = digits_value (takeWhile isdigit s)
      in if 2 ^ n \<le> v then 2 ^ n - 1
         else if neg then (2 ^ n - v) mod 2 ^ n else v)"

definition ParseId :: "nat \<Rightarrow> string \<Rightarrow> u32" where
  "ParseId n arg = of_nat (strtoul n (c_str arg))"

text \<open>\<open>std::string::find\<close> of a blank.\<close>

definition find_space :: "string \<Rightarrow> nat option" where
  "find_space s = (let k = length (takeWhile (\<lambda>c. c \<noteq> CHR '' '') s) in if k < length s then Some k else None)"

text \<open>Numbers as the streams print them.\<close>

fun decimal :: "nat \<Rightarrow> string" where
  "decimal n = (if n < 10 then [char_of (48 + n)] else decimal (n div 10) @ [char_of (48 + n mod 10)])"

declare decimal.simps [simp del]

section \<open>Input\<close>

text \<open>The reader thread adds a line under the mutex, the loop takes one.\<close>

definition PushInputLine :: "string \<Rightarrow> string list \<Rightarrow> string list" where
  "PushInputLine line input = input @ [line]"

definition NextInputLine :: "string list \<Rightarrow> (string \<times> string list) option" where
  "NextInputLine input = (case input of [] \<Rightarrow> None | line # rest \<Rightarrow> Some (line, rest))"

section \<open>Commands\<close>

definition chat_RoomId :: "WeyveClient \<Rightarrow> string" where
  "chat_RoomId w = (case weyve_room_id (Some 0) w of (room, len) \<Rightarrow> at room (the len))"

text \<open>A borrowed range as an owned string: the length is the out-parameter the call has set.\<close>

definition owned :: "string option \<times> u32 option \<Rightarrow> string" where
  "owned r = (case r of (None, _) \<Rightarrow> [] | (Some s, len) \<Rightarrow> at s (the len))"

definition PrintRoomInfo :: "WeyveClient \<Rightarrow> string list" where
  "PrintRoomInfo w =
     (let (members, count) = weyve_members (Some 0) w; ids = take (unat (the count)) members
      in [''Room '', chat_RoomId w, '', host '', decimal (unat (weyve_host_id w)),
          (if weyve_is_host w then '' (you)'' else []),
          (if weyve_room_joinable w then ''Open to join'' else ''Closed''),
          (if weyve_room_passworded w then '', password required'' else []), ''Members:'']
         @ concat (map (\<lambda>i. ['' '', decimal (unat i)]) ids)
         @ concat (map (\<lambda>n.
             let key = owned (weyve_room_data_key_at (of_nat n) (Some 0) w)
             in [''  '', key, '' = '', owned (weyve_room_data (Some key) (Some 0) w)])
             [0..<unat (weyve_room_data_count w)])
         @ concat (map (\<lambda>i. concat (map (\<lambda>n.
             let key = owned (weyve_member_data_key_at i (of_nat n) (Some 0) w)
             in [''  client '', decimal (unat i), '': '', key, '' = '',
                 owned (weyve_member_data i (Some key) (Some 0) w)])
             [0..<unat (weyve_member_data_count i w)])) ids))"

definition SendP2PCommand :: "juice_api \<Rightarrow> nat \<Rightarrow> string \<Rightarrow> WeyveClient \<Rightarrow> WeyveClient \<times> string list" where
  "SendP2PCommand J n args w =
     (case find_space args of
        None \<Rightarrow> (w, [''usage: /p2p ID TEXT''])
      | Some k \<Rightarrow>
          let i = ParseId n (take k args); text = drop (Suc k) args
          in if i = 0 then (w, [''usage: /p2p ID TEXT''])
             else case weyve_send_p2p J i (map byte_of_char text) (size32 text) w of
                    (w', True) \<Rightarrow> (w', [])
                  | (w', False) \<Rightarrow> (w', [''p2p send to client '', decimal (unat i), '' failed'']))"

definition SendSetCommand :: "string \<Rightarrow> bool \<Rightarrow> WeyveClient \<Rightarrow> WeyveClient \<times> string list" where
  "SendSetCommand args own w =
     (case find_space args of
        None \<Rightarrow> (w, [''usage: '', if own then ''/setme'' else ''/set'', '' KEY VALUE''])
      | Some k \<Rightarrow>
          if k = 0 then (w, [''usage: '', if own then ''/setme'' else ''/set'', '' KEY VALUE''])
          else let key = take k args; val = drop (Suc k) args
               in (fst (if own then weyve_set_member_data (Some key) (Some val) w
                        else weyve_set_room_data (Some key) (Some val) w), []))"

text \<open>One typed line: the chain of comparisons of the loop's body.\<close>

definition RunLine :: "juice_api \<Rightarrow> nat \<Rightarrow> string \<Rightarrow> WeyveClient \<Rightarrow> WeyveClient \<times> string list" where
  "RunLine J n line w =
     (if line = [] then (w, [])
      else if line = ''/who'' then (w, PrintRoomInfo w)
      else if line = ''/leave'' then (fst (weyve_leave_room w), [])
      else if prefix ''/setme '' line then SendSetCommand (drop 7 line) True w
      else if prefix ''/delme '' line then (fst (weyve_delete_member_data (Some (drop 7 line)) w), [])
      else if prefix ''/set '' line then SendSetCommand (drop 5 line) False w
      else if prefix ''/del '' line then (fst (weyve_delete_room_data (Some (drop 5 line)) w), [])
      else if line = ''/open'' then (fst (weyve_set_room_joinable True w), [])
      else if line = ''/close'' then (fst (weyve_set_room_joinable False w), [])
      else if line = ''/pass'' then (fst (weyve_set_room_password (Some []) w), [])
      else if prefix ''/pass '' line then (fst (weyve_set_room_password (Some (drop 6 line)) w), [])
      else if prefix ''/kick '' line then (fst (weyve_kick_member (ParseId n (drop 6 line)) w), [])
      else if prefix ''/ban '' line then (fst (weyve_ban_member (ParseId n (drop 5 line)) w), [])
      else if prefix ''/host '' line then (fst (weyve_transfer_host (ParseId n (drop 6 line)) w), [])
      else if prefix ''/p2p '' line then SendP2PCommand J n (drop 5 line) w
      else (fst (weyve_send_chat (Some line) w), []))"

text \<open>Lines are taken only inside a room; the rest stay queued.\<close>

function RunLines :: "juice_api \<Rightarrow> nat \<Rightarrow> string list \<Rightarrow> WeyveClient \<Rightarrow> WeyveClient \<times> string list \<times> string list" where
  "RunLines J n input w =
     (if chat_RoomId w = [] then (w, input, [])
      else case NextInputLine input of
             None \<Rightarrow> (w, input, [])
           | Some (line, rest) \<Rightarrow>
               let (w', printed) = RunLine J n line w; (w'', left, later) = RunLines J n rest w'
               in (w'', left, printed @ later))"
  by pat_completeness auto
termination
  by (relation "measure (\<lambda>(J, n, input, w). length input)") (auto simp: NextInputLine_def split: list.splits)

declare RunLines.simps [simp del]

section \<open>Events\<close>

definition PrintRoomError :: "RoomErrorCode \<Rightarrow> string \<Rightarrow> string list" where
  "PrintRoomError code context' =
     [''Room error '', decimal (unat (error_byte code))]
     @ (if context' \<noteq> [] then ['' ('', context', '')''] else [])"

text \<open>One event of the chat loop: what is printed, and the value returned if the loop ends there.\<close>

definition ChatEvent :: "WeyveEvent \<Rightarrow> WeyveClient \<Rightarrow> string list \<times> int option" where
  "ChatEvent e w =
     (case read_event e of
        Some (AssignRoomId i) \<Rightarrow>
          ([''In room '', i, '' (join it: clientexample chat '', i, '')'',
            ''Commands: /who, /set KEY VALUE, /del KEY, /setme KEY VALUE, /delme KEY'',
            ''          /open, /close, /pass [PASSWORD], /kick ID, /ban ID, /host ID, /leave'',
            ''          /p2p ID TEXT (direct, over the mesh)''], None)
      | Some (RoomError code context') \<Rightarrow>
          (PrintRoomError code context', if chat_RoomId w = [] then Some 1 else None)
      | Some (RoomChat i text) \<Rightarrow> ([''[client '', decimal (unat i), ''] '', text], None)
      | Some (PeerJoined i) \<Rightarrow> ([''* client '', decimal (unat i), '' is here''], None)
      | Some (PeerLeft i) \<Rightarrow>
          if i = weyve_id w then ([''Left the room''], Some 0)
          else ([''* client '', decimal (unat i), '' left''], None)
      | Some (HostChanged i) \<Rightarrow>
          ([''* client '', decimal (unat i), '' is the host'', if i = weyve_id w then '' (you)'' else []], None)
      | Some (RoomDataChanged key val) \<Rightarrow>
          ([''* room data: '', key] @ (if val = [] then ['' deleted''] else ['' = '', val]), None)
      | Some (MemberDataChanged i key val) \<Rightarrow>
          ([''* client '', decimal (unat i), '' data: '', key] @ (if val = [] then ['' deleted''] else ['' = '', val]), None)
      | Some KickedByHost \<Rightarrow> ([''Kicked from the room''], Some 0)
      | Some BannedByHost \<Rightarrow> ([''Banned from the room''], Some 0)
      | Some (RoomAccessChanged a b) \<Rightarrow>
          ([''* room is now '', if a then ''open'' else ''closed'', if b then '' (password required)'' else []], None)
      | _ \<Rightarrow> ([], None))"

text \<open>The loop over \<open>weyve_next\<close>; \<open>None\<close> is the undefined conversion of an error code.\<close>

function ChatEvents :: "WeyveClient \<Rightarrow> WeyveEvent \<Rightarrow> (WeyveClient \<times> string list \<times> int option) option" where
  "ChatEvents w e =
     (case weyve_next w e of
        None \<Rightarrow> None
      | Some (w', e', got) \<Rightarrow>
          if \<not> got then Some (w', [], None)
          else case ChatEvent e' w' of
                 (printed, Some r) \<Rightarrow> Some (w', printed, Some r)
               | (printed, None) \<Rightarrow>
                   map_option (\<lambda>(w'', later, r). (w'', printed @ later, r)) (ChatEvents w' e'))"
  by pat_completeness auto
termination
  by (relation "measure (\<lambda>(w, e). length (cl_inbox (wc_client w)))") (auto dest: weyve_next_shorter)

declare ChatEvents.simps [simp del]

text \<open>The loop over \<open>weyve_next_p2p\<close>, which ends at the first null pointer.\<close>

function ChatDatagrams :: "bool \<Rightarrow> WeyveClient \<Rightarrow> WeyveClient \<times> string list" where
  "ChatDatagrams null w =
     (case weyve_next_p2p null (Some 0) (Some 0) w of
        (w', None, _, _) \<Rightarrow> (w', [])
      | (w', Some d, sender, len) \<Rightarrow>
          let (w'', later) = ChatDatagrams null w'
          in (w'', [''[p2p client '', decimal (unat (the sender)), ''] '',
                    map char_of_byte (take (unat (the len)) d)] @ later))"
  by pat_completeness auto
termination
  by (relation "measure (\<lambda>(null, w). length (cl_p2p_inbox (wc_client w)))")
    (auto simp: weyve_next_p2p_def NextP2P_def split: list.splits)

declare ChatDatagrams.simps [simp del]

section \<open>The chat loop\<close>

definition StartChat :: "string \<Rightarrow> string \<Rightarrow> WeyveClient \<Rightarrow> WeyveClient" where
  "StartChat code password w =
     fst (if code = [] then weyve_create_room w else weyve_join_room (Some code) (Some password) w)"

datatype chat_turn =
    Chat_goes_on WeyveClient "string list" "string list"
  | Chat_returns WeyveClient int "string list"
  | Chat_undefined

text \<open>
  One turn: poll, events, datagrams, typed lines.  The loop carries the handle and the queued lines; the event variable
  is fresh in every turn and only read after \<open>weyve_next\<close> has filled it.
\<close>

definition RunChat_turn ::
  "juice_api \<Rightarrow> bool \<Rightarrow> nat \<Rightarrow> socket_result list \<Rightarrow> socket_result list \<Rightarrow> WeyveEvent \<Rightarrow> string list \<Rightarrow> WeyveClient \<Rightarrow> chat_turn" where
  "RunChat_turn J null n reads writes e input w =
     (case weyve_poll J reads writes w of
        None \<Rightarrow> Chat_undefined
      | Some (w, _, False) \<Rightarrow> Chat_returns w 0 [''Connection closed'']
      | Some (w, _, True) \<Rightarrow>
          (case ChatEvents w e of
             None \<Rightarrow> Chat_undefined
           | Some (w, printed, Some r) \<Rightarrow> Chat_returns w r printed
           | Some (w, printed, None) \<Rightarrow>
               let (w, texts) = ChatDatagrams null w; (w, left, replies) = RunLines J n input w
               in Chat_goes_on w left (printed @ texts @ replies)))"

section \<open>The ping loop\<close>

text \<open>
  The clock is the sequence of its readings, in ticks of which \<open>per_ms\<close> make a millisecond.  The round-trip time is computed
  in 64 bits, read as a signed duration and cut to milliseconds towards zero.
\<close>

definition signed_decimal :: "int \<Rightarrow> string" where
  "signed_decimal k = (if k < 0 then CHR ''-'' # decimal (nat (- k)) else decimal (nat k))"

definition PrintPong :: "int \<Rightarrow> int \<Rightarrow> u64 \<Rightarrow> WeyveClient \<Rightarrow> string list" where
  "PrintPong per_ms now timestamp w =
     (let rtt_ticks = of_int now - timestamp; rtt_ms = sint rtt_ticks sdiv per_ms
      in [''Pong: '', signed_decimal rtt_ms, '' ms (i am client '', decimal (unat (weyve_id w)), '')''])"

function PingEvents ::
  "int \<Rightarrow> (nat \<Rightarrow> int) \<Rightarrow> WeyveClient \<Rightarrow> WeyveEvent \<Rightarrow> (WeyveClient \<times> (nat \<Rightarrow> int) \<times> string list) option" where
  "PingEvents per_ms clock w e =
     (case weyve_next w e of
        None \<Rightarrow> None
      | Some (w', e', got) \<Rightarrow>
          if \<not> got then Some (w', clock, [])
          else case read_event e' of
                 Some (Heartbeat t) \<Rightarrow>
                   map_option (\<lambda>(w'', clock', later). (w'', clock', PrintPong per_ms (clock 0) t w' @ later))
                     (PingEvents per_ms (\<lambda>n. clock (Suc n)) w' e')
               | _ \<Rightarrow> PingEvents per_ms clock w' e')"
  by pat_completeness auto
termination
  by (relation "measure (\<lambda>(per_ms, clock, w, e). length (cl_inbox (wc_client w)))") (auto dest: weyve_next_shorter)

declare PingEvents.simps [simp del]

datatype ping_turn =
    Ping_goes_on WeyveClient "nat \<Rightarrow> int" int "string list"
  | Ping_returns WeyveClient int "string list"
  | Ping_undefined

definition RunPing_turn ::
  "juice_api \<Rightarrow> int \<Rightarrow> socket_result list \<Rightarrow> socket_result list \<Rightarrow> WeyveEvent \<Rightarrow> (nat \<Rightarrow> int) \<Rightarrow> int \<Rightarrow> WeyveClient \<Rightarrow> ping_turn" where
  "RunPing_turn J per_ms reads writes e clock last' w =
     (case weyve_poll J reads writes w of
        None \<Rightarrow> Ping_undefined
      | Some (w, _, False) \<Rightarrow> Ping_returns w 0 [''Connection closed'']
      | Some (w, _, True) \<Rightarrow>
          (case PingEvents per_ms clock w e of
             None \<Rightarrow> Ping_undefined
           | Some (w, clock, printed) \<Rightarrow>
               let now = clock 0; clock = (\<lambda>n. clock (Suc n))
               in if 1000 * per_ms \<le> now - last'
                  then Ping_goes_on (fst (weyve_send_heartbeat (of_int now) w)) clock now printed
                  else Ping_goes_on w clock last' printed))"

section \<open>Start-up\<close>

text \<open>
  \<open>main\<close> with the arguments after the program's name, up to the loop of the chosen mode: it returns an exit code, after
  destroying the client it has created if there is one, or goes on with the handle and the mode whose loop then runs.  When the
  loop returns, \<open>main\<close> destroys the client and returns the loop's value.
\<close>

datatype main_start =
    Main_returns int "WeyveClient option" "string list"
  | Main_runs WeyveClient string "string list"

definition ExampleMain :: "(ClientConfig \<Rightarrow> connect_outcome) \<Rightarrow> string list \<Rightarrow> main_start" where
  "ExampleMain net args =
     (let mode = (if length args > 0 then args ! 0 else []);
          code = (if length args > 1 then args ! 1 else []);
          password = (if length args > 2 then args ! 2 else [])
      in if mode \<noteq> ''ping'' \<and> mode \<noteq> ''chat''
         then Main_returns 1 None
                [''usage: clientexample ping        heartbeat/rtt demo'',
                 ''       clientexample chat        create a room and chat in it'',
                 ''       clientexample chat CODE [PASSWORD]   join a room and chat in it'']
         else case weyve_connect net (Some ''127.0.0.1'') 5555 weyve_client_create of
                (w, False) \<Rightarrow>
                  Main_returns 1 (weyve_client_destroy (Some w))
                    [''Connect to '', ''127.0.0.1'', '':'', decimal 5555, '' failed'']
              | (w, True) \<Rightarrow>
                  Main_runs (if mode = ''ping'' then w else StartChat code password w) mode
                    [''Connected to '', ''127.0.0.1'', '':'', decimal 5555])"

definition ExampleMain_end :: "int \<Rightarrow> WeyveClient \<Rightarrow> int \<times> WeyveClient option" where
  "ExampleMain_end result w = (result, weyve_client_destroy (Some w))"

end
