(* ===== verification/Example_Properties.thy ===== *)
theory Example_Properties
  imports Example_Client
begin

text \<open>
  The properties of the example program: a typed line becomes the request its first word names, lines are taken in
  order and only inside a room, client numbers are read back as they are printed, and the loop ends as documented.
\<close>

section \<open>Typed lines as words\<close>

definition word_of :: "string \<Rightarrow> string" where
  "word_of line = takeWhile (\<lambda>c. c \<noteq> CHR '' '') line"

definition argument_of :: "string \<Rightarrow> string option" where
  "argument_of line = (case dropWhile (\<lambda>c. c \<noteq> CHR '' '') line of [] \<Rightarrow> None | _ # a \<Rightarrow> Some a)"

lemma words_of_split:
  assumes "CHR '' '' \<notin> set v"
  shows "word_of (v @ CHR '' '' # a) = v" and "argument_of (v @ CHR '' '' # a) = Some a"
    and "word_of v = v" and "argument_of v = None"
  using assms by (induction v) (auto simp: word_of_def argument_of_def)

lemma line_cases:
  obtains (alone) "CHR '' '' \<notin> set line" and "word_of line = line" and "argument_of line = None"
  | (words) v a where "CHR '' '' \<notin> set v" and "line = v @ CHR '' '' # a" and "word_of line = v" and "argument_of line = Some a"
proof (cases "CHR '' '' \<in> set line")
  case True
  then obtain v a where "line = v @ CHR '' '' # a" "CHR '' '' \<notin> set v" by (auto dest: split_list_first)
  then show ?thesis using words words_of_split by simp
qed (use alone words_of_split(3,4) in simp)

lemma line_with_argument:
  assumes "CHR '' '' \<notin> set v" and "u = v @ '' ''"
  shows "prefix u line \<longleftrightarrow> word_of line = v \<and> argument_of line \<noteq> None"
proof
  assume "prefix u line"
  then obtain a where "line = v @ CHR '' '' # a" using assms(2) by (auto simp: prefix_def)
  then show "word_of line = v \<and> argument_of line \<noteq> None" using words_of_split [OF assms(1)] by simp
next
  assume "word_of line = v \<and> argument_of line \<noteq> None"
  then show "prefix u line" using assms(2) by (cases line rule: line_cases) auto
qed

lemma line_alone:
  assumes "CHR '' '' \<notin> set v"
  shows "line = v \<longleftrightarrow> word_of line = v \<and> argument_of line = None"
  using assms by (cases line rule: line_cases) (auto simp: words_of_split)

lemma argument_drop: "argument_of line = Some a \<Longrightarrow> drop (Suc (length (word_of line))) line = a"
  by (cases line rule: line_cases) auto

lemma word_take: "take (length (word_of line)) line = word_of line"
  by (cases line rule: line_cases) auto

text \<open>The request of a line, by its first word; a data pair needs a key and a blank after it.\<close>

definition pair_request :: "(string \<Rightarrow> string \<Rightarrow> ServerMessage) \<Rightarrow> string \<Rightarrow> ServerMessage option" where
  "pair_request mk args =
     (case argument_of args of
        None \<Rightarrow> None
      | Some v \<Rightarrow> if word_of args = [] then None else Some (mk (c_str (word_of args)) (c_str v)))"

definition line_request :: "nat \<Rightarrow> string \<Rightarrow> ServerMessage option" where
  "line_request n line =
     (let v = word_of line; chat_line = Some (RoomChat 0 (c_str line))
      in case argument_of line of
           None \<Rightarrow>
             if v = [] \<or> v = ''/who'' then None
             else if v = ''/leave'' then Some LeaveRoom
             else if v = ''/open'' then Some (SetRoomJoinable True)
             else if v = ''/close'' then Some (SetRoomJoinable False)
             else if v = ''/pass'' then Some (SetRoomPassword [])
             else chat_line
         | Some a \<Rightarrow>
             if v = ''/setme'' then pair_request SetMemberData a
             else if v = ''/set'' then pair_request SetRoomData a
             else if v = ''/delme'' then Some (SetMemberData (c_str a) [])
             else if v = ''/del'' then Some (SetRoomData (c_str a) [])
             else if v = ''/pass'' then Some (SetRoomPassword (c_str a))
             else if v = ''/kick'' then Some (KickMember (ParseId n a))
             else if v = ''/ban'' then Some (BanMember (ParseId n a))
             else if v = ''/host'' then Some (TransferHost (ParseId n a))
             else if v = ''/p2p'' then None
             else chat_line)"

definition peer_line :: "string \<Rightarrow> bool" where
  "peer_line line \<longleftrightarrow> word_of line = ''/p2p'' \<and> argument_of line \<noteq> None"

definition queue_request :: "ServerMessage option \<Rightarrow> WeyveClient \<Rightarrow> WeyveClient" where
  "queue_request r w = (case r of None \<Rightarrow> w | Some m \<Rightarrow> on_client (SendServer m) w)"

lemma find_space_words: "find_space args = map_option (\<lambda>_. length (word_of args)) (argument_of args)"
proof (cases args rule: line_cases)
  case alone
  then show ?thesis by (simp add: find_space_def flip: word_of_def)
next
  case (words v a)
  then show ?thesis by (simp add: find_space_def flip: word_of_def)
qed

lemma SendSetCommand_request:
  "fst (SendSetCommand args own w) = queue_request (pair_request (if own then SetMemberData else SetRoomData) args) w"
  by (simp add: SendSetCommand_def find_space_words pair_request_def queue_request_def argument_drop word_take
      weyve_set_member_data_def weyve_set_room_data_def Str_def Client_SetRoomData_def Client_SetMemberData_def
      on_client_def split: option.split)

lemma command_arguments:
  assumes "argument_of line = Some a"
  shows "length (word_of line) = 4 \<Longrightarrow> drop 5 line = a" and "length (word_of line) = 5 \<Longrightarrow> drop 6 line = a"
    and "length (word_of line) = 6 \<Longrightarrow> drop 7 line = a"
  using argument_drop [OF assms] by (simp_all add: numeral_eq_Suc)

lemmas command_words =
  line_with_argument [of "''/setme''" "''/setme ''"] line_with_argument [of "''/delme''" "''/delme ''"]
  line_with_argument [of "''/set''" "''/set ''"] line_with_argument [of "''/del''" "''/del ''"]
  line_with_argument [of "''/pass''" "''/pass ''"] line_with_argument [of "''/kick''" "''/kick ''"]
  line_with_argument [of "''/ban''" "''/ban ''"] line_with_argument [of "''/host''" "''/host ''"]
  line_with_argument [of "''/p2p''" "''/p2p ''"]

lemmas single_words =
  line_alone [of "''/who''"] line_alone [of "''/leave''"] line_alone [of "''/open''"] line_alone [of "''/close''"]
  line_alone [of "''/pass''"] line_alone [of "[]"]

lemmas request_defs = weyve_leave_room_def weyve_delete_member_data_def weyve_delete_room_data_def
  weyve_set_room_joinable_def weyve_set_room_password_def weyve_kick_member_def weyve_ban_member_def
  weyve_transfer_host_def weyve_send_chat_def Client_LeaveRoom_def DeleteMemberData_def DeleteRoomData_def
  Client_SetRoomJoinable_def Client_SetRoomPassword_def Client_KickMember_def Client_BanMember_def
  Client_TransferHost_def SendChat_def Str_def on_client_def

lemma RunLine_request:
  assumes "\<not> peer_line line"
  shows "fst (RunLine J n line w) = queue_request (line_request n line) w"
proof (cases "argument_of line")
  case None
  have "fst (RunLine J n line w) = queue_request (line_request n line) w" if "word_of line = line"
    using None that command_words [where line = line]
    by (simp add: RunLine_def line_request_def queue_request_def request_defs c_str_def)
  then show ?thesis using None by (cases line rule: line_cases) auto
next
  case (Some a)
  have words: "line \<noteq> ''/who''" "line \<noteq> ''/leave''" "line \<noteq> ''/open''" "line \<noteq> ''/close''" "line \<noteq> ''/pass''" "line \<noteq> []"
    using Some single_words [of line] by auto
  have "word_of line \<in> {''/setme'', ''/delme''} \<Longrightarrow> drop 7 line = a"
    "word_of line \<in> {''/pass'', ''/kick'', ''/host''} \<Longrightarrow> drop 6 line = a"
    "word_of line \<in> {''/set'', ''/del'', ''/ban''} \<Longrightarrow> drop 5 line = a"
    using command_arguments [OF Some] by auto
  then show ?thesis
    using assms Some words command_words [where line = line]
    by (simp add: RunLine_def line_request_def peer_line_def SendSetCommand_request queue_request_def request_defs)
qed

section \<open>Typed lines in order\<close>

lemma queue_request_tx:
  "queue_request r w = w\<lparr>wc_client := (wc_client w)\<lparr>cl_tx := cl_tx (wc_client w)
     @ (case r of None \<Rightarrow> [] | Some m \<Rightarrow> FrameMessage m)\<rparr>\<rparr>"
  by (simp add: queue_request_def on_client_def SendServer_def split: option.split)

lemma chat_RoomId_tx [simp]:
  "chat_RoomId (w\<lparr>wc_client := (wc_client w)\<lparr>cl_tx := t\<rparr>\<rparr>) = chat_RoomId w"
  by (simp add: chat_RoomId_def weyve_room_id_def RoomId_def)

definition sent_requests :: "nat \<Rightarrow> string list \<Rightarrow> ServerMessage list" where
  "sent_requests n input = List.map_filter (line_request n) input"

lemma RunLines_in_room:
  assumes "chat_RoomId w \<noteq> []" and "\<forall>line \<in> set input. \<not> peer_line line"
  shows "\<exists>printed. RunLines J n input w = (w\<lparr>wc_client := (wc_client w)\<lparr>cl_tx := cl_tx (wc_client w)
     @ concat (map FrameMessage (sent_requests n input))\<rparr>\<rparr>, [], printed)"
  using assms
proof (induction input arbitrary: w)
  case Nil
  then show ?case by (simp add: RunLines.simps [of _ _ "[]"] NextInputLine_def sent_requests_def map_filter_simps)
next
  case (Cons line input)
  let ?w = "queue_request (line_request n line) w"
  obtain printed where line: "RunLine J n line w = (?w, printed)"
    using RunLine_request [of line J n w] Cons.prems(2) by (cases "RunLine J n line w") auto
  have "chat_RoomId ?w \<noteq> []" using Cons.prems(1) by (simp add: queue_request_tx)
  from Cons.IH [OF this] Cons.prems(2) obtain later where
    "RunLines J n input ?w = (?w\<lparr>wc_client := (wc_client ?w)\<lparr>cl_tx := cl_tx (wc_client ?w)
       @ concat (map FrameMessage (sent_requests n input))\<rparr>\<rparr>, [], later)" by auto
  then show ?case
    using Cons.prems(1) line
    by (simp add: RunLines.simps [of _ _ "line # input"] NextInputLine_def queue_request_tx sent_requests_def
        map_filter_simps split: option.split)
qed

text \<open>C29: What is typed is what is sent. Outside a room every typed line stays queued and nothing is sent; inside one, lines that do not
  address a peer directly are taken in order, and what the client queues for the server is exactly the requests their first words name, chat
  lines included, in that order; nothing else about the client changes.\<close>

theorem typed_lines_sent:
  assumes "\<forall>line \<in> set input. \<not> peer_line line"
  shows "case RunLines J n input w of (w', left, printed) \<Rightarrow>
     if chat_RoomId w = [] then w' = w \<and> left = input \<and> printed = []
     else left = [] \<and> w' = w\<lparr>wc_client := (wc_client w)\<lparr>cl_tx := cl_tx (wc_client w)
            @ concat (map FrameMessage (sent_requests n input))\<rparr>\<rparr>"
proof (cases "chat_RoomId w = []")
  case True
  then show ?thesis by (simp add: RunLines.simps [of _ _ input])
next
  case False
  then show ?thesis using RunLines_in_room [OF False assms, of J n] by auto
qed

section \<open>Numbers\<close>

lemma char_code_digit: "k < 10 \<Longrightarrow> char_code (char_of (48 + k)) = 48 + k"
  by (simp add: char_code_def)

lemma decimal_digits: "\<forall>c \<in> set (decimal k). isdigit c"
  by (induction k rule: decimal.induct)
    (subst decimal.simps, auto simp: isdigit_def char_code_digit)

lemma digits_value_decimal: "digits_value (decimal k) = k"
proof (induction k rule: decimal.induct)
  case (1 k)
  then show ?case by (subst decimal.simps) (auto simp: digits_value_def char_code_digit)
qed

lemma decimal_not_empty: "decimal k \<noteq> []"
  by (subst decimal.simps) simp

lemma digit_plain: "isdigit c \<Longrightarrow> \<not> isspace c \<and> c \<noteq> CHR ''-'' \<and> c \<noteq> CHR ''+'' \<and> c \<noteq> CHR 0x00"
  by (auto simp: isdigit_def isspace_def char_code_def)

lemma strtoul_decimal: "k < 2 ^ n \<Longrightarrow> strtoul n (c_str (decimal k)) = k"
proof -
  assume k: "k < 2 ^ n"
  obtain c cs where d: "decimal k = c # cs" using decimal_not_empty by (cases "decimal k") auto
  have all: "\<forall>c \<in> set (c # cs). isdigit c" using decimal_digits [of k] by (simp add: d)
  then have "c_str (c # cs) = c # cs" "dropWhile isspace (c # cs) = c # cs"
    using digit_plain by (auto simp: c_str_def takeWhile_eq_all_conv)
  moreover have "digits_value (c # cs) = k" using digits_value_decimal [of k] by (simp add: d)
  ultimately show ?thesis using k digit_plain [of c] all
    by (simp add: d strtoul_def Let_def takeWhile_eq_all_conv [THEN iffD2])
qed

text \<open>Client numbers read back as printed. The number \<open>/kick\<close>, \<open>/ban\<close>, \<open>/host\<close> and \<open>/p2p\<close> read from the decimal
  digits of a client id is that id, with an \<open>unsigned long\<close> of 32 bits or more.\<close>

lemma printed_id_parses:
  assumes "32 \<le> n"
  shows "ParseId n (decimal (unat i)) = i"
proof -
  have "unat i < 2 ^ 32" using unsigned_less [of i] by simp
  also have "(2 :: nat) ^ 32 \<le> 2 ^ n" using assms by (rule power_increasing) simp
  finally show ?thesis by (simp add: ParseId_def strtoul_decimal)
qed

text \<open>A text without digits reads as 0, which no client has; but not everything that is not an id does.\<close>

lemma digits_value_Nil [simp]: "digits_value [] = 0"
  by (simp add: digits_value_def)

lemma in_set_tl: "x \<in> set (tl xs) \<Longrightarrow> x \<in> set xs"
  by (cases xs) auto

lemma ParseId_no_digits: "\<forall>c \<in> set arg. \<not> isdigit c \<Longrightarrow> ParseId n arg = 0"
proof -
  assume a: "\<forall>c \<in> set arg. \<not> isdigit c"
  have "takeWhile isdigit s = []" if "set s \<subseteq> set arg" for s using a that by (cases s) auto
  moreover have "set (dropWhile isspace (c_str arg)) \<subseteq> set arg" "set (tl (dropWhile isspace (c_str arg))) \<subseteq> set arg"
    by (auto simp: c_str_def dest: set_dropWhileD set_takeWhileD dest!: in_set_tl)
  ultimately have "strtoul n (c_str arg) = 0" by (simp add: strtoul_def Let_def)
  then show ?thesis by (simp add: ParseId_def)
qed

lemma ParseId_garbage:
  "ParseId 64 ''3x'' = 3" "ParseId 64 ''-1'' = 0xFFFFFFFF" "ParseId 64 ''4294967299'' = 3"
  "ParseId 32 ''4294967299'' = 0xFFFFFFFF"
  by (simp_all add: ParseId_def strtoul_def c_str_def digits_value_def isspace_def isdigit_def char_code_def Let_def)

section \<open>Events\<close>

text \<open>The messages that end the chat, for a client with this id that is in a room or not.\<close>

definition ending :: "u32 \<Rightarrow> bool \<Rightarrow> ServerMessage \<Rightarrow> int option" where
  "ending me in_room m =
     (case m of
        RoomError _ _ \<Rightarrow> if in_room then None else Some 1
      | PeerLeft i \<Rightarrow> if i = me then Some 0 else None
      | KickedByHost \<Rightarrow> Some 0
      | BannedByHost \<Rightarrow> Some 0
      | _ \<Rightarrow> None)"

lemma ChatEvent_ending:
  "read_event e = Some m \<Longrightarrow> snd (ChatEvent e w) = ending (weyve_id w) (chat_RoomId w \<noteq> []) m"
  by (simp add: ChatEvent_def ending_def split: ServerMessage.split)

definition first_ending :: "u32 \<Rightarrow> bool \<Rightarrow> ServerMessage list \<Rightarrow> int option" where
  "first_ending me in_room ms = (case filter (\<lambda>m. ending me in_room m \<noteq> None) ms of [] \<Rightarrow> None | m # _ \<Rightarrow> ending me in_room m)"

lemma weyve_next_same_room:
  "weyve_next w out = Some (w', e, b) \<Longrightarrow> weyve_id w' = weyve_id w \<and> chat_RoomId w' = chat_RoomId w"
proof (induction w out rule: weyve_next.induct)
  case (1 w out)
  show ?case
  proof (cases "cl_inbox (wc_client w)")
    case Nil
    then show ?thesis using "1.prems" by (auto simp: weyve_next.simps [of w] Client_Next_def)
  next
    case (Cons m ms)
    then have pull: "Client_Next (wc_client w) = ((wc_client w)\<lparr>cl_inbox := ms\<rparr>, Some m)"
      by (simp add: Client_Next_def)
    have same: "weyve_id (w\<lparr>wc_client := (wc_client w)\<lparr>cl_inbox := ms\<rparr>, wc_event := m\<rparr>) = weyve_id w"
      "chat_RoomId (w\<lparr>wc_client := (wc_client w)\<lparr>cl_inbox := ms\<rparr>, wc_event := m\<rparr>) = chat_RoomId w"
      by (simp_all add: weyve_id_def Client_Id_def chat_RoomId_def weyve_room_id_def RoomId_def)
    show ?thesis
      using "1.IH" [OF pull [symmetric] refl] "1.prems" pull same
      by (cases "FillEvent m out") (auto simp: weyve_next.simps [of w])
  qed
qed

lemma ending_has_event: "ending me in_room m \<noteq> None \<Longrightarrow> has_event m"
  by (cases m) (auto simp: ending_def)

text \<open>C30: The chat ends when the room does. Reading the queued events never gets stuck, and the loop returns at the first
  message that says the client left, was kicked or banned, with 0, or at the first error while it is in no room, with 1; otherwise it reads
  them all and goes on.\<close>

theorem chat_ends_with_room:
  assumes "\<forall>m \<in> set (cl_inbox (wc_client w)). known_error m \<and> strings_short m"
  shows "\<exists>w' printed. ChatEvents w e =
     Some (w', printed, first_ending (weyve_id w) (chat_RoomId w \<noteq> []) (cl_inbox (wc_client w)))"
  using assms
proof (induction w e rule: ChatEvents.induct)
  case (1 w e)
  let ?fin = "ending (weyve_id w) (chat_RoomId w \<noteq> [])"
  have silent: "?fin m = None" if "\<not> has_event m" for m using ending_has_event that by blast
  from "1.prems" show ?case
  proof (cases rule: weyve_next_cases [where w = w and out = e])
    case (none w')
    then show ?thesis using silent by (simp add: ChatEvents.simps [of w] first_ending_def filter_empty_conv [THEN iffD2])
  next
    case (event w' e' quiet m ms)
    have same: "weyve_id w' = weyve_id w" "chat_RoomId w' = chat_RoomId w"
      using weyve_next_same_room [OF event(1)] by simp_all
    have ends: "first_ending (weyve_id w) (chat_RoomId w \<noteq> []) (cl_inbox (wc_client w))
        = (case ?fin m of None \<Rightarrow> first_ending (weyve_id w) (chat_RoomId w \<noteq> []) ms | Some r \<Rightarrow> Some r)"
      using event(5) silent by (simp add: event(4) first_ending_def filter_empty_conv [THEN iffD2] split: option.split)
    obtain printed where shown: "ChatEvent e' w' = (printed, ?fin m)"
      using ChatEvent_ending [OF event(2), of w'] same by (cases "ChatEvent e' w'") simp
    show ?thesis
    proof (cases "?fin m")
      case None
      from "1.IH" [OF event(1) refl refl _ shown [symmetric] None event(7)] event(6) same obtain w'' later where
        "ChatEvents w' e' = Some (w'', later, first_ending (weyve_id w) (chat_RoomId w \<noteq> []) ms)" by auto
      then show ?thesis unfolding ends using event(1) shown None by (simp add: ChatEvents.simps [of w])
    next
      case (Some r)
      then show ?thesis unfolding ends using event(1) shown by (simp add: ChatEvents.simps [of w])
    qed
  qed
qed

definition sample_chat :: WeyveClient where
  "sample_chat = on_client (\<lambda>c. c\<lparr>cl_id := 2, cl_room := ''ABCD'',
     cl_inbox := [RoomChat 1 ''hi'', RoomError NotHost [], PeerLeft 3, KickedByHost, PeerLeft 2]\<rparr>) weyve_client_create"

lemma sample_chat_facts:
  "cl_inbox (wc_client sample_chat) = [RoomChat 1 ''hi'', RoomError NotHost [], PeerLeft 3, KickedByHost, PeerLeft 2]"
  "weyve_id sample_chat = 2" "chat_RoomId sample_chat = ''ABCD''"
  by (simp_all add: sample_chat_def on_client_def weyve_client_create_def weyve_id_def Client_Id_def chat_RoomId_def
      weyve_room_id_def RoomId_def put_out_def Let_def)

theorem chat_ends_with_room_witness:
  "\<exists>w' printed. ChatEvents sample_chat \<lparr>we_type = WEYVE_EVENT_NONE, we_data = heartbeat 0\<rparr> = Some (w', printed, Some 0)"
  using chat_ends_with_room [of sample_chat "\<lparr>we_type = WEYVE_EVENT_NONE, we_data = heartbeat 0\<rparr>"]
  by (simp add: sample_chat_facts first_ending_def ending_def)

definition sample_lines :: "string list" where
  "sample_lines = [''/kick 3'', ''hello'', [], ''/set map desert'']"

theorem typed_lines_sent_witness:
  "fst (snd (RunLines sample_juice 64 sample_lines sample_chat)) = []
   \<and> cl_tx (wc_client (fst (RunLines sample_juice 64 sample_lines sample_chat))) = cl_tx (wc_client sample_chat)
       @ concat (map FrameMessage [KickMember 3, RoomChat 0 ''hello'', SetRoomData ''map'' ''desert''])"
proof -
  have "\<forall>line \<in> set sample_lines. \<not> peer_line line" by (simp add: sample_lines_def peer_line_def word_of_def)
  moreover have "sent_requests 64 sample_lines = [KickMember 3, RoomChat 0 ''hello'', SetRoomData ''map'' ''desert'']"
    by (simp add: sample_lines_def sent_requests_def map_filter_simps line_request_def word_of_def argument_of_def
        pair_request_def c_str_def ParseId_def strtoul_def digits_value_def isspace_def isdigit_def char_code_def Let_def)
  ultimately show ?thesis
    using typed_lines_sent [of sample_lines sample_chat 64 sample_juice]
    by (auto simp: sample_chat_facts split: prod.splits)
qed

section \<open>Datagrams\<close>

text \<open>Every datagram is read when none is empty, which is so for those of this library's \<open>SendP2P\<close>.\<close>

lemma ChatDatagrams_all:
  "\<forall>d \<in> set (cl_p2p_inbox (wc_client w)). null \<longrightarrow> snd d \<noteq> [] \<Longrightarrow>
   cl_p2p_inbox (wc_client (fst (ChatDatagrams null w))) = []"
proof (induction null w rule: ChatDatagrams.induct)
  case (1 null w)
  show ?case
  proof (cases "cl_p2p_inbox (wc_client w)")
    case Nil
    then show ?thesis by (simp add: ChatDatagrams.simps [of null w] weyve_next_p2p_def NextP2P_def)
  next
    case (Cons d ds)
    let ?w = "w\<lparr>wc_client := (wc_client w)\<lparr>cl_p2p_inbox := ds\<rparr>, wc_p2p := snd d\<rparr>"
    have step: "weyve_next_p2p null (Some 0) (Some 0) w = (?w, Some (snd d), Some (fst d), Some (size32 (snd d)))"
      using "1.prems" Cons by (cases d) (auto simp: weyve_next_p2p_def NextP2P_def vector_data_def put_out_def)
    have "cl_p2p_inbox (wc_client (fst (ChatDatagrams null ?w))) = []"
      using "1.IH" [OF step [symmetric]] "1.prems" Cons by simp
    then show ?thesis by (auto simp: ChatDatagrams.simps [of null w] step split: prod.split)
  qed
qed

text \<open>An empty datagram whose vector has a null pointer looks like the end of the queue: it is taken, and what is behind it
  waits for the next turn.\<close>

lemma empty_datagram_hides:
  assumes "cl_p2p_inbox (wc_client w) = (i, []) # ds"
  shows "snd (ChatDatagrams True w) = [] \<and> cl_p2p_inbox (wc_client (fst (ChatDatagrams True w))) = ds"
  using assms by (simp add: ChatDatagrams.simps [of True w] weyve_next_p2p_def NextP2P_def vector_data_def)

section \<open>Pings\<close>

text \<open>A pong that carries the client's own timestamp shows the time that has passed since, in whole milliseconds.\<close>

lemma pong_shows_elapsed:
  assumes "0 < per_ms" and "0 \<le> dt" and "dt < 2 ^ 63"
  shows "PrintPong per_ms (sent + dt) (of_int sent) w =
     [''Pong: '', decimal (nat (dt div per_ms)), '' ms (i am client '', decimal (unat (weyve_id w)), '')'']"
proof -
  have "sint (of_int (sent + dt) - of_int sent :: u64) = dt"
    using assms(2,3) by (simp add: signed_of_int signed_take_bit_int_eq_self)
  moreover have "dt sdiv per_ms = dt div per_ms" using assms(1,2) by (cases "dt = 0") (simp_all add: signed_divide_int_def)
  ultimately show ?thesis using assms(1,2) by (simp add: PrintPong_def signed_decimal_def pos_imp_zdiv_neg_iff)
qed

text \<open>Lines are taken in the order in which they were typed.\<close>

lemma input_fifo: "NextInputLine (PushInputLine line []) = Some (line, [])"
  "NextInputLine (a # input) = Some (a, rest) \<Longrightarrow> NextInputLine (PushInputLine line (a # input)) = Some (a, PushInputLine line rest)"
  by (simp_all add: NextInputLine_def PushInputLine_def)

end
