(* ===== verification/Repository_Tests.thy ===== *)
theory Repository_Tests
  imports Marshal
begin

text \<open>
  The repository's own unit tests (\<open>Tests/src/test_protocol.cpp\<close>, \<open>Tests/src/test_marshal.cpp\<close>) as lemmas
  about the model: each test case is a lemma of the same content, so what the authors expect of the code holds of its
  translation.  The pins on variant indices and enumerators are the \<open>static_assert\<close>s at the top of the two files.
\<close>

section \<open>Pins\<close>

lemma variant_pins:
  "map variant_index [Heartbeat t, AssignClientId i, AssignRoomId x, CreateRoom, JoinRoom x y, RoomError code x,
     RoomChat i x, LeaveRoom, PeerJoined i, PeerLeft i, HostChanged i, SetRoomData x y, RoomDataChanged x y,
     SetMemberData x y, MemberDataChanged i x y, KickMember i, TransferHost i, SetRoomJoinable b, SetRoomPassword x,
     KickedByHost, RoomAccessChanged b b', BanMember i, BannedByHost, P2PSignal i k x, IceServersMsg ice] = [0..<25]"
  by (simp add: upt_rec)

lemma error_pins:
  "map error_byte [AlreadyInRoom, NoSuchRoom, NotInRoom, NotHost, BadRoomData, NoSuchMember, RoomClosed, BadPassword,
     Banned] = [0, 1, 2, 3, 4, 5, 6, 7, 8]"
  by simp

lemma kind_pins: "map kind_byte [Description, Candidate, GatheringDone] = [0, 1, 2]"
  by simp

lemma weyve_error_pins:
  "to_WeyveRoomError AlreadyInRoom = Some (WeyveRoomError 0)" "to_WeyveRoomError Banned = Some (WeyveRoomError 8)"
  by (simp_all add: to_WeyveRoomError_def)

section \<open>Round trips\<close>

text \<open>
  \<open>RoundTrip\<close> of the tests: frame, walk the fragments with every header checked, require that nothing is left
  over, decode, and require the alternative; \<open>None\<close> is a failed \<open>REQUIRE\<close>.
\<close>

definition RoundTrip :: "ServerMessage \<Rightarrow> ServerMessage option" where
  "RoundTrip msg =
     (case unframe [] (FrameMessage msg) of
        Some (body, []) \<Rightarrow>
          (case in_ServerMessage body of
             Inr (out, _) \<Rightarrow> if variant_index out = variant_index msg then Some out else None
           | Inl _ \<Rightarrow> None)
      | _ \<Rightarrow> None)"

text \<open>The test helper is total on everything the two programs can exchange, and its result is the message.\<close>

lemma RoundTrip_fits: "fits m \<Longrightarrow> RoundTrip m = Some m"
  using unframe_FrameMessage [of m "[]"] by (simp add: RoundTrip_def message_bytes_decode fits_def)

lemmas fits_here = fits_def length_message_bytes wire

lemma heartbeat_roundtrip: "RoundTrip (Heartbeat 0x1122334455667788) = Some (Heartbeat 0x1122334455667788)"
  by (rule RoundTrip_fits) (simp add: fits_here)

lemma assignment_roundtrip:
  "RoundTrip (AssignClientId 42) = Some (AssignClientId 42)"
  "RoundTrip (AssignRoomId ''VY4C3NB9'') = Some (AssignRoomId ''VY4C3NB9'')"
  by (rule RoundTrip_fits, simp add: fits_here)+

lemma request_roundtrip:
  "RoundTrip CreateRoom = Some CreateRoom" "RoundTrip LeaveRoom = Some LeaveRoom"
  "RoundTrip (JoinRoom ''ROOMCODE'' ''hunter2'') = Some (JoinRoom ''ROOMCODE'' ''hunter2'')"
  "RoundTrip (JoinRoom ''ROOMCODE'' []) = Some (JoinRoom ''ROOMCODE'' [])"
  by (rule RoundTrip_fits, simp add: fits_here)+

lemma error_roundtrip:
  "RoundTrip (RoomError NoSuchRoom ''ROOMCODE'') = Some (RoomError NoSuchRoom ''ROOMCODE'')"
  by (rule RoundTrip_fits, simp add: fits_here)

lemma chat_roundtrip:
  "RoundTrip (RoomChat 7 ''two words  and spaces'') = Some (RoomChat 7 ''two words  and spaces'')"
  "RoundTrip (RoomChat 7 []) = Some (RoomChat 7 [])"
  by (rule RoundTrip_fits, simp add: fits_here)+

lemma room_event_roundtrip:
  "RoundTrip (PeerJoined 3) = Some (PeerJoined 3)" "RoundTrip (PeerLeft 3) = Some (PeerLeft 3)"
  "RoundTrip (HostChanged 3) = Some (HostChanged 3)"
  by (rule RoundTrip_fits, simp add: fits_here)+

lemma host_action_roundtrip:
  "RoundTrip (KickMember 3) = Some (KickMember 3)" "RoundTrip (BanMember 3) = Some (BanMember 3)"
  "RoundTrip (TransferHost 3) = Some (TransferHost 3)"
  "RoundTrip (SetRoomJoinable False) = Some (SetRoomJoinable False)"
  "RoundTrip (SetRoomPassword ''hunter2'') = Some (SetRoomPassword ''hunter2'')"
  "RoundTrip (SetRoomPassword []) = Some (SetRoomPassword [])"
  by (rule RoundTrip_fits, simp add: fits_here)+

lemma access_roundtrip:
  "RoundTrip KickedByHost = Some KickedByHost" "RoundTrip BannedByHost = Some BannedByHost"
  "RoundTrip (RoomAccessChanged False True) = Some (RoomAccessChanged False True)"
  by (rule RoundTrip_fits, simp add: fits_here)+

definition test_ice :: IceServers where
  "test_ice = \<lparr>stun_host = ''stun.example.net'', stun_port = 19302,
     turn = [\<lparr>ts_host = ''turn.example.net'', ts_port = 3478, ts_username = ''user'', ts_password = ''pass''\<rparr>]\<rparr>"

lemma signalling_roundtrip:
  "RoundTrip (P2PSignal 3 Candidate ''a=candidate:1 1 UDP 2122317823 192.168.0.10 50000 typ host'')
     = Some (P2PSignal 3 Candidate ''a=candidate:1 1 UDP 2122317823 192.168.0.10 50000 typ host'')"
  "RoundTrip (IceServersMsg test_ice) = Some (IceServersMsg test_ice)"
  by (rule RoundTrip_fits, simp add: fits_here test_ice_def wf_IceServers_def wf_TurnServer_def out_IceServers_def
      out_vector_def out_TurnServer_def)+

lemma data_roundtrip:
  "RoundTrip (SetRoomData ''stage'' ''training'') = Some (SetRoomData ''stage'' ''training'')"
  "RoundTrip (RoomDataChanged ''stage'' []) = Some (RoomDataChanged ''stage'' [])"
  "RoundTrip (SetMemberData ''char'' ''ryu'') = Some (SetMemberData ''char'' ''ryu'')"
  "RoundTrip (MemberDataChanged 5 ''char'' ''akuma'') = Some (MemberDataChanged 5 ''char'' ''akuma'')"
  by (rule RoundTrip_fits, simp add: fits_here)+

section \<open>Sizes\<close>

text \<open>The largest data pair fits one frame, for every key and value the server accepts.\<close>

lemma largest_pair_fits:
  assumes "length key \<le> max_room_data_key" and "length val \<le> max_room_data_value"
  shows "length (FrameMessage (MemberDataChanged i key val)) - frame_header_size \<le> max_message_size"
    and "length (FrameMessage (RoomDataChanged key val)) - frame_header_size \<le> max_message_size"
    and "RoundTrip (MemberDataChanged i key val) = Some (MemberDataChanged i key val)"
proof -
  have single: "length (FrameMessage m) - frame_header_size \<le> max_message_size"
    if "length (message_bytes m) \<le> max_message_size" for m
    using that by (simp add: FrameMessage_def frame_loop.simps [of _ 0])
  show "length (FrameMessage (MemberDataChanged i key val)) - frame_header_size \<le> max_message_size"
    using assms by (intro single) (simp add: length_message_bytes wire)
  show "length (FrameMessage (RoomDataChanged key val)) - frame_header_size \<le> max_message_size"
    using assms by (intro single) (simp add: length_message_bytes wire)
  show "RoundTrip (MemberDataChanged i key val) = Some (MemberDataChanged i key val)"
    using assms by (intro RoundTrip_fits) (simp add: fits_here)
qed

lemma oversized_roundtrip:
  "RoundTrip (P2PSignal 7 Description (replicate (3 * max_message_size) CHR ''s''))
     = Some (P2PSignal 7 Description (replicate (3 * max_message_size) CHR ''s''))"
  by (rule RoundTrip_fits) (simp add: fits_here)

lemma plain_header:
  "DecodeFrameHeader (take frame_header_size (FrameMessage (Heartbeat 1)))
     = Some (length (FrameMessage (Heartbeat 1)) - frame_header_size, False)"
proof -
  let ?b = "message_bytes (Heartbeat 1)"
  have "FrameMessage (Heartbeat 1) = frame_header (length ?b) False @ ?b" and "length ?b \<le> max_message_size"
    by (simp_all add: FrameMessage_def frame_loop.simps [of _ 0] length_message_bytes wire)
  then show ?thesis using DecodeFrameHeader_frame_header [of "length ?b" False] by simp
qed

lemma header_caps:
  "DecodeFrameHeader (concat (out_u32 (of_nat max_message_size + 1))) = None"
  "DecodeFrameHeader (concat (out_u32 (of_nat max_message_size OR frame_more_flag))) = Some (max_message_size, True)"
proof -
  show "DecodeFrameHeader (concat (out_u32 (of_nat max_message_size + 1))) = None"
    using u32.dec_enc_exact [OF TrueI, of 1025] and_flag_small [of 1025]
    by (simp add: DecodeFrameHeader_def Let_def)
  show "DecodeFrameHeader (concat (out_u32 (of_nat max_message_size OR frame_more_flag))) = Some (max_message_size, True)"
    using DecodeFrameHeader_frame_header [of max_message_size True] by (simp add: frame_header_def)
qed

text \<open>
  The reassembly cap.  The test appends 20 bytes to a body 10 bytes short of it; the exact boundary is that a
  fragment which fills the body to the cap is taken and one more byte is not.
\<close>

lemma reassembly_cap:
  "AppendFragment (replicate (max_reassembled_size - 10) 0) (replicate 20 0) = None"
  "AppendFragment (replicate (max_reassembled_size - 10) 0) (replicate 10 0) \<noteq> None"
  "AppendFragment (replicate (max_reassembled_size - 10) 0) (replicate 11 0) = None"
  by (simp_all add: AppendFragment_def)

section \<open>Events\<close>

text \<open>A caller's event before the call, and what the tests read from it after.\<close>

definition zero_event :: WeyveEvent where
  "zero_event = \<lparr>we_type = WEYVE_EVENT_NONE, we_data = heartbeat 0\<rparr>"

definition Surfaced :: "ServerMessage \<Rightarrow> bool" where
  "Surfaced msg = (case FillEvent msg zero_event of Filled _ \<Rightarrow> True | _ \<Rightarrow> False)"

text \<open>Every event test in one statement: the event's type, and the fields read back through their lengths.\<close>

definition event_test :: "ServerMessage \<Rightarrow> WeyveEventType \<Rightarrow> bool" where
  "event_test msg ty = (case FillEvent msg zero_event of
      Filled e \<Rightarrow> we_type e = ty \<and> read_event e = Some msg | _ \<Rightarrow> False)"

lemma event_tests:
  "event_test (Heartbeat 0x1122334455667788) WEYVE_EVENT_HEARTBEAT"
  "event_test (AssignRoomId ''VY4C3NB9'') WEYVE_EVENT_ROOM_ID_ASSIGNED"
  "event_test (RoomError NoSuchRoom ''ROOMCODE'') WEYVE_EVENT_ROOM_ERROR"
  "event_test (RoomChat 7 ''two words  and spaces'') WEYVE_EVENT_CHAT"
  "event_test (PeerJoined 3) WEYVE_EVENT_PEER_JOINED" "event_test (PeerLeft 3) WEYVE_EVENT_PEER_LEFT"
  "event_test (HostChanged 3) WEYVE_EVENT_HOST_CHANGED"
  "event_test (RoomDataChanged ''stage'' ''training'') WEYVE_EVENT_ROOM_DATA_CHANGED"
  "event_test (RoomDataChanged ''stage'' []) WEYVE_EVENT_ROOM_DATA_CHANGED"
  "event_test (MemberDataChanged 5 ''char'' ''akuma'') WEYVE_EVENT_MEMBER_DATA_CHANGED"
  "event_test KickedByHost WEYVE_EVENT_KICKED" "event_test BannedByHost WEYVE_EVENT_BANNED"
  "event_test (RoomAccessChanged False True) WEYVE_EVENT_ROOM_ACCESS_CHANGED"
  by (simp_all add: event_test_def FillEvent_def read_event_def zero_event_def to_WeyveRoomError_def)

lemma not_surfaced:
  "\<not> Surfaced (AssignClientId 5)" "\<not> Surfaced CreateRoom" "\<not> Surfaced (JoinRoom ''ROOMCODE'' [])"
  "\<not> Surfaced (SetRoomData ''k'' ''v'')" "\<not> Surfaced (P2PSignal 1 Candidate ''x'')"
  "\<not> Surfaced (IceServersMsg \<lparr>stun_host = ''stun'', stun_port = 3478, turn = []\<rparr>)"
  by (simp_all add: Surfaced_def FillEvent_def)

section \<open>Strings and keys\<close>

lemma Str_tests: "Str None = []" "Str (Some []) = []" "Str (Some ''abc'') = ''abc''"
  by (simp_all add: Str_def c_str_def)

lemma Bytes_tests:
  "Bytes None (Some 123) = (None, Some 0)"
  "Bytes (Some ''payload'') (Some 0) = (Some ''payload'', Some 7)"
  "Bytes (Some []) (Some 7) = (Some [], Some 0)"
  by (simp_all add: Bytes_def put_out_def size32_def)

lemma KeyAt_tests:
  "KeyAt [(''alpha'', ''1''), (''beta'', ''2'')] 0 (Some 0) = (Some ''alpha'', Some 5)"
  "KeyAt [(''alpha'', ''1''), (''beta'', ''2'')] 1 (Some 0) = (Some ''beta'', Some 4)"
  "KeyAt [(''alpha'', ''1''), (''beta'', ''2'')] 2 (Some 4) = (None, Some 0)"
  by (simp_all add: KeyAt_def put_out_def size32_def sm_size_def Let_def)

end
