(* ===== verification/Server_Main.thy ===== *)
theory Server_Main
  imports Server_Process
begin

text \<open>
  The server program (\<open>Server/src/main.cpp\<close>): the configuration it ships with and what it does
  with the outcome of \<open>Init\<close> and when it returns.  Logging is left out.
\<close>

definition main_config :: ServerConfig where
  "main_config = \<lparr>cfg_port = 5555, cfg_room_code_length = 0,
     cfg_ice = \<lparr>stun_host = ''stun.l.google.com'', stun_port = 19302, turn = []\<rparr>\<rparr>"

text \<open>
  By the results of opening, setting the option, binding and listening: the exit code, or
  the process that \<open>Run\<close> then drives.
\<close>

definition main :: "bool \<Rightarrow> bool \<Rightarrow> bool \<Rightarrow> bool \<Rightarrow> (nat \<Rightarrow> nat) \<Rightarrow> int + Process" where
  "main opened reuse bound listening rng =
     (case Server_Init main_config opened reuse bound listening
        (new_server rng \<lparr>cfg_port = 0, cfg_room_code_length = 0,
           cfg_ice = \<lparr>stun_host = [], stun_port = 0, turn = []\<rparr>\<rparr>) of
        (s, False) \<Rightarrow> Inl 1
      | (s, True) \<Rightarrow> Inr (Server_Run s))"

text \<open>The exit code after \<open>Run\<close>; \<open>None\<close> while it blocks.\<close>

definition main_return :: "Process \<Rightarrow> int option" where
  "main_return x = (if run_returns x then Some 0 else None)"

lemma config_ok_main: "config_ok main_config"
  by (simp add: config_ok_def main_config_def fits_def wf_IceServers_def length_message_bytes
      out_IceServers_def out_vector_def wire)

lemma main_serves:
  assumes "main opened reuse bound listening rng = Inr x" and "process_run x y" and "ids_left (prc_server y)"
  shows "process_reachable y" and "unat (cfg_room_code_length (srv_config (prc_server x))) = 8"
proof -
  let ?init = "Server_Init main_config opened reuse bound listening (new_server rng \<lparr>cfg_port = 0,
     cfg_room_code_length = 0, cfg_ice = \<lparr>stun_host = [], stun_port = 0, turn = []\<rparr>\<rparr>)"
  have x: "x = Server_Run (fst ?init)" using assms(1) by (auto simp: main_def split: prod.splits bool.splits)
  show "process_reachable y"
    using assms(2,3) config_ok_main unfolding process_reachable_def x by blast
  show "unat (cfg_room_code_length (srv_config (prc_server x))) = 8"
    by (simp add: x Server_Run_def Server_Init_def Let_def init_config_def main_config_def)
qed

text \<open>
  The program serves until its io context is stopped or the accept loop has failed and the last client has gone; either
  way its exit code is 0.
\<close>

lemma main_returns:
  assumes "main opened reuse bound listening rng = Inr x" and "process_run x y" and "ids_left (prc_server y)"
    and "main_return y = Some code"
  shows "code = 0 \<and> (prc_stopped y \<or> (\<not> prc_accepting y \<and> srv_connections (prc_server y) = Map.empty
     \<and> srv_rooms (prc_server y) = Map.empty))"
  using assms(4) nobody_left [OF process_facts(1) [OF main_serves(1) [OF assms(1-3)]]]
  by (auto simp: main_return_def run_returns_def work_left_def split: if_splits)

end
