(* ===== verification/Spec2Isabelle.thy ===== *)
theory Spec2Isabelle
  imports Exchange_Properties Wire_Properties Server_Properties Operation_Properties Client_Properties Mesh_Properties Settings_Properties Process_Properties Example_Properties Repository_Tests Server_Main
begin

text \<open>
  Weyvelength is a server that keeps rooms of clients, and a client library that joins rooms and builds
  direct peer-to-peer links inside them.  This development models both programs from the bytes on the
  wire up to the C interface, and proves that they work together.

  \<^bold>\<open>The program and its parts.\<close>  Server and client exchange messages of one variant type
  (\<open>src/Shared/protocol.h\<close>), serialized by zpp_bits (\<open>src/Shared/thirdparty/zpp_bits\<close>) and cut
  into frames (\<open>src/Shared/framing.h\<close>).  The server (\<open>src/Server\<close>) accepts connections, reads requests, changes its
  rooms and queues replies and announcements.  The client (\<open>src/Client\<close>) queues requests, drains
  and carves what the server sends, caches its room's state, and keeps a mesh of libjuice agents whose
  signalling goes through the server.  The C interface (\<open>weyvelength.h\<close>) wraps the client for other languages; the
  example program (\<open>src/ClientExample\<close>) is a console chat on top of it.

  \<^bold>\<open>Theories and sources.\<close>
  \<^item> \<open>Prelude\<close>, \<open>Stdmap\<close>: integers, bytes, little-endian layout; \<open>std::map\<close> as sorted association lists
    with the interface \<open>keyed_store\<close>.
  \<^item> \<open>Protocol\<close>, \<open>Metadata\<close>: \<open>protocol.h\<close>; what one metadata message means.
  \<^item> \<open>Zpp_Bits\<close>: the serializer as these types instantiate it, with the growing output vector; \<open>Zpp_Roundtrip\<close> and
    \<open>Zpp_Canonical\<close>: its codecs satisfy the interfaces \<open>wire_codec\<close> (reading inverts writing) and
    \<open>canonical_codec\<close> (only written bytes are read).
  \<^item> \<open>Framing\<close>: \<open>FrameMessage\<close>, \<open>DecodeFrameHeader\<close>, \<open>AppendFragment\<close>, and the reference reassembly
    \<open>unframe\<close> and \<open>next_frame\<close>.
  \<^item> \<open>Server\<close>: the records \<open>Connection\<close>, \<open>Room\<close>, \<open>Server\<close> and every handler of
    \<open>weyvelength_server.cpp\<close>; \<open>Server_Session\<close>: \<open>Init\<close> and the accept, session, read and write coroutines, cut at
    their suspension points into the steps of \<open>server_step\<close>, so that a run is any interleaving of
    them with arriving bytes; a write loop with nothing to write is suspended on its timer until \<open>Enqueue\<close> or the end of the
    session cancels it.  \<open>Server_Process\<close>: \<open>Run\<close>, \<open>Stop\<close> and the outcome of an accept, with the io context that returns when no
    coroutine is left; \<open>Server_Main\<close>: \<open>main.cpp\<close> and its exit code.
  \<^item> \<open>Mesh\<close>, \<open>Client\<close>: \<open>p2p_mesh.cpp\<close>, \<open>client.cpp\<close> and their headers.  Socket results are arguments, calls to
    libjuice are recorded in \<open>cl_juice\<close> and answered by the parameter \<open>J\<close>.
  \<^item> \<open>Marshal\<close>, \<open>C_Api\<close>: \<open>marshal.h\<close>, \<open>weyvelength.h\<close>, \<open>weyvelength.cpp\<close>.
  \<^item> \<open>Example_Client\<close>: \<open>ClientExample/src/test.cpp\<close>: typed commands, events, datagrams, one turn of the chat and of the ping
    loop, and \<open>main\<close> around them.
  \<^item> \<open>Repository_Tests\<close>: the test cases of \<open>Tests/src\<close>, each a lemma about the model.
  \<^item> \<open>Room_View\<close>: the contract between server and client, what a sequence of messages tells a client
    about its room.
  \<^item> \<open>System\<close>: one server, a client object per connection and the two byte streams between them.  A step is
    a step of \<open>server_step\<close>, an operation of \<open>client_step\<close> or an arrival, so both programs appear exactly as
    in their own theories; connections of foreign programs may send the server anything.

  \<^bold>\<open>What the lemmas show.\<close>
  \<^item> \<open>Server_Invariant\<close>, \<open>Server_Effects\<close>, \<open>Server_Runs\<close>: the tables stay consistent; every request has one of nine
    effects (\<open>handled\<close>), each of which keeps the invariant; \<open>server_policy\<close> is the interface of further
    invariants, provided by bans (\<open>Server_Policy\<close>), open sessions (\<open>Server_Transport\<close>), wake-ups and ended sessions
    (\<open>Server_Wake\<close>) and buffer bounds (\<open>Server_Reading\<close>).
  \<^item> \<open>Server_Transport\<close>: the buffers only coroutines touch, what a turn of the read loop consumes and dispatches, and the
    write loop as a sequence of steps; \<open>Server_Wake\<close>: a suspended write loop never has work, so queues drain and loops of
    ended sessions end; \<open>Server_Process\<close>: every theorem on runs of the server holds of the process, and what it does after a
    failed accept.
  \<^item> \<open>Coherence\<close>: what is written and queued for a client always replays to the room it is in.
  \<^item> \<open>Client_Cache\<close>, \<open>Client_Stream\<close>, \<open>Client_Runs\<close>: the cache refines \<open>Room_View\<close>; carving implements the reference
    parser however the bytes are cut; a connected client is always at a point of the server's messages.
  \<^item> \<open>Mesh_Safety\<close>, \<open>Mesh_Runs\<close>: libjuice's contract as a tracking function on call traces, and the invariant
    that ties traces to links, kept by every operation; \<open>Client_Life\<close>: that invariant and the types of the cached maps
    through a client's whole life, reconnects included; \<open>Mesh_Properties\<close> adds the account of dials against the budget of a
    peer and what renews it.
  \<^item> \<open>Client_Requests\<close>: all a client queues beside the application's requests is signalling, in whole frames.
  \<^item> \<open>System\<close>: \<open>system_policy\<close> is the interface of system invariants, provided by \<open>downstream\<close> (what a client has
    received is a prefix of what was written) and \<open>upstream\<close> (arrived, travelling and queued bytes are the requests in
    order, and the server's buffers are at the reference parser's place in them); \<open>System_Progress\<close>: schedules that
    carry a request to its handler and bring clients up to date.
  \<^item> \<open>Exchange\<close>: what dialling, answering and accepting do to clients at rest, and the journey of a signal from one
    client through the server to another, descriptions and candidates alike.
  \<^item> \<open>Wire_Properties\<close>, \<open>Server_Properties\<close>, \<open>Operation_Properties\<close>, \<open>Settings_Properties\<close>, \<open>Client_Properties\<close>,
    \<open>Client_Life\<close>, \<open>Mesh_Properties\<close>, \<open>Api_Properties\<close>, \<open>System_Properties\<close>, \<open>Exchange_Properties\<close>,
    \<open>Process_Properties\<close>, \<open>Example_Properties\<close> and this theory
    state the properties of the program; \<open>Sample\<close> is the concrete run their witnesses use.

  \<^bold>\<open>Bounds and assumptions.\<close>
  \<^item> \<open>ids_left\<close>: fewer than 2 to the 32 connections so far.  The id counter wraps after that, and what then happens is
    a property of its own.
  \<^item> \<open>config_ok\<close>: room codes of at most 16000 characters and ice servers that fit the reassembly cap
    of 16 KiB; the configuration of \<open>main.cpp\<close> satisfies it.
  \<^item> The output vector is exact for messages below 2 to the 61 bytes, where its growth cannot overflow.
  \<^item> \<open>fresh_code\<close>, the retry loop for room codes, depends on the random engine and is a partial function; it is
    shown to return as soon as the engine spells an unused code.  All other loops are total functions.
  \<^item> In \<open>System\<close> a connection has one client object for its whole life; a client object that reconnects is the
    subject of \<open>Client_Life\<close> and of the property on stale bytes.  The progress properties say that a schedule exists,
    since nothing forces an application to poll.
  \<^item> \<open>fresh_agents\<close>: libjuice does not hand out an agent that is still alive.  \<open>willing\<close>: its calls succeed and a
    description fits its buffer, as far as the handshake needs it.
  \<^item> \<open>ParseId\<close> takes the width of \<open>unsigned long\<close> and \<open>weyve_next_p2p\<close> whether an empty vector has a null pointer: both are the
    platform's choice.
  \<^item> Undefined behaviour is a value of its own: a \<open>bool\<close> other than 0 and 1 on the wire, and an error code beyond
    the C enumeration.  The properties say when it cannot occur.

  \<^bold>\<open>Not modelled.\<close>  Logging (no state), including \<open>P2PSignalKindName\<close>, which only serves it; sleeping and the
  formatting of line ends in the example; asio's sockets and scheduler (results are inputs, switches are steps); libjuice (a parameter);
  the options of zpp_bits the program does not use; exhaustion of memory.  What the two programs have beyond that is
  declarations, includes and comments.
\<close>

section \<open>Server, client and C interface together\<close>

text \<open>C16: The C interface delivers everything the server says. In every reachable state of the whole system, for a
  client that has received what the server has for it, pulling events until none is left ends, meets no undefined
  conversion and skips nothing: the messages taken before and the events pulled now read back as exactly the
  messages the server has sent to the client, in order, less the client id, the ice servers and the signalling
  that the client keeps to itself.\<close>

theorem api_delivers_server_messages:
  assumes "system_reachable J F x" and "up_to_date x p" and "wc_client w = sys_clients x p"
  shows "\<exists>ms es. stream (sys_server x) p = map FrameMessage ms \<and> pull_events w out = Some es
     \<and> map Some (sys_given x p) @ map read_event es = map Some (filter surfaced ms)"
proof -
  have "served x p" using assms(2) by (simp add: up_to_date_def)
  then obtain ms where ms: "stream (sys_server x) p = map FrameMessage ms" "list_all sendable ms"
    "tracks (sys_rcvd x p) (sys_given x p) (sys_clients x p)"
    by (rule served_stream [OF assms(1)])
  have "parse_stream [] (sys_rcvd x p) = Some (ms, [], [])"
    using parse_frames [OF sendable_fits [OF ms(2)]] ms(1) assms(2) by (simp add: up_to_date_def)
  then have given: "sys_given x p @ cl_inbox (wc_client w) = filter surfaced ms"
    using ms(3) assms(3) by (auto simp: tracks_def)
  have in_ms: "set (cl_inbox (wc_client w)) \<subseteq> set (filter surfaced ms)" by (simp flip: given)
  then have "\<forall>m \<in> set (cl_inbox (wc_client w)). known_error m \<and> strings_short m"
    using ms(2) sendable_fits [OF ms(2)] sendable_event fits_strings_short
    by (auto simp: list_all_iff simp del: sendable_def)
  from pull_events_inbox [OF this] obtain es where es: "pull_events w out = Some es"
    "map read_event es = map Some (filter has_event (cl_inbox (wc_client w)))" by blast
  have "filter has_event (cl_inbox (wc_client w)) = cl_inbox (wc_client w)"
    using in_ms ms(2) sendable_event by (auto simp: filter_id_conv list_all_iff simp del: sendable_def)
  then show ?thesis using ms(1) es given by (metis map_append)
qed

theorem api_delivers_server_messages_witness:
  "\<exists>x w ms es. up_to_date x 1 \<and> stream (sys_server x) 1 = map FrameMessage ms
     \<and> pull_events w \<lparr>we_type = WEYVE_EVENT_NONE, we_data = heartbeat 0\<rparr> = Some es
     \<and> map Some (sys_given x 1) @ map read_event es = map Some (filter surfaced ms)"
proof -
  obtain x where x: "system_reachable (\<lambda>_. sample_juice) {} x" "up_to_date x 1"
    by (rule sample_system)
  have "wc_client (weyve_client_create\<lparr>wc_client := sys_clients x 1\<rparr>) = sys_clients x 1" by simp
  from api_delivers_server_messages [OF x this] x(2) show ?thesis by blast
qed

end
